(* ===== verification/Prelude.thy ===== *)
theory Prelude
  imports Main "HOL-Library.Monad_Syntax"
begin

text \<open>
  Shared lemmas and fact collections of the development: list prefixes and scans
  (\<open>takeWhile\<close>, \<open>dropWhile\<close>), folds that may fail, and the named
  collections the component theories add to.
\<close>

named_theorems js_eval \<open>unfolding rules that evaluate the model on closed inputs\<close>
named_theorems js_safe \<open>which characters a routine can produce\<close>
named_theorems roundtrip \<open>decode (encode x) = x facts\<close>
named_theorems form_simps \<open>reading a form after a write\<close>

section \<open>Folds that may fail\<close>

text \<open>
  A loop whose body may throw: \<open>None\<close> is the exception, which ends the loop.
\<close>

fun fold_opt :: "('a \<Rightarrow> 's \<Rightarrow> 's option) \<Rightarrow> 'a list \<Rightarrow> 's \<Rightarrow> 's option" where
  "fold_opt f [] s = Some s"
| "fold_opt f (x # xs) s = (case f x s of None \<Rightarrow> None | Some s' \<Rightarrow> fold_opt f xs s')"

lemma fold_opt_append:
  "fold_opt f (xs @ ys) s = (case fold_opt f xs s of None \<Rightarrow> None | Some s' \<Rightarrow> fold_opt f ys s')"
  by (induction xs arbitrary: s) (auto split: option.splits)

fun map_opt :: "('a \<Rightarrow> 'b option) \<Rightarrow> 'a list \<Rightarrow> 'b list option" where
  "map_opt f [] = Some []"
| "map_opt f (x # xs) =
     (case f x of None \<Rightarrow> None
      | Some y \<Rightarrow> (case map_opt f xs of None \<Rightarrow> None | Some ys \<Rightarrow> Some (y # ys)))"

lemma map_opt_Some: "(\<And>x. x \<in> set xs \<Longrightarrow> f x = Some (g x)) \<Longrightarrow> map_opt f xs = Some (map g xs)"
  by (induction xs) auto

lemma map_opt_None_iff: "map_opt f xs = None \<longleftrightarrow> (\<exists>x\<in>set xs. f x = None)"
  by (induction xs) (auto split: option.splits)

lemma map_opt_mem: "map_opt f xs = Some ys \<Longrightarrow> y \<in> set ys \<Longrightarrow> \<exists>x\<in>set xs. f x = Some y"
  by (induction xs arbitrary: ys) (auto split: option.splits)

section \<open>Lists\<close>

lemma takeWhile_all [simp]: "(\<And>x. x \<in> set xs \<Longrightarrow> P x) \<Longrightarrow> takeWhile P xs = xs"
  by (simp add: takeWhile_eq_all_conv)

lemma takeWhile_stop:
  "\<forall>x\<in>set xs. P x \<Longrightarrow> ys = [] \<or> \<not> P (hd ys) \<Longrightarrow> takeWhile P (xs @ ys) = xs"
  by (cases ys) (auto simp: takeWhile_append2)

lemma dropWhile_stop:
  "\<forall>x\<in>set xs. P x \<Longrightarrow> ys = [] \<or> \<not> P (hd ys) \<Longrightarrow> dropWhile P (xs @ ys) = ys"
  by (cases ys) (auto simp: dropWhile_append2)

lemma dropWhile_id: "xs = [] \<or> \<not> P (hd xs) \<Longrightarrow> dropWhile P xs = xs"
  by (cases xs) auto

lemma drop_length_takeWhile: "drop (length (takeWhile P xs)) xs = dropWhile P xs"
  by (simp add: dropWhile_eq_drop)

lemma take_length_takeWhile: "take (length (takeWhile P xs)) xs = takeWhile P xs"
  by (metis takeWhile_eq_take)

lemma dropWhile_dropWhile_until:
  "\<not> P x \<Longrightarrow> dropWhile (\<lambda>y. y \<noteq> x) (dropWhile P s) = dropWhile (\<lambda>y. y \<noteq> x) s"
  by (induction s) auto

lemma takeWhile_full: "length s \<le> length (takeWhile P s) \<Longrightarrow> x \<in> set s \<Longrightarrow> P x"
  by (induction s) (auto split: if_splits)

lemma takeWhile_full_le:
  "length s \<le> n \<Longrightarrow> n \<le> length (takeWhile P s) \<Longrightarrow> x \<in> set s \<Longrightarrow> P x"
  using takeWhile_full[of s P x] by simp

lemma take_minus_dropWhile: "take (length s - length (dropWhile P s)) s = takeWhile P s"
  by (metis add_diff_cancel_right' length_append takeWhile_dropWhile_id take_length_takeWhile)

lemma take_Suc_minus_dropWhile:
  "take (Suc (length t) - length (dropWhile P t)) (x # t) = x # takeWhile P t"
  by (simp add: Suc_diff_le length_dropWhile_le take_minus_dropWhile)

lemma list_all_set_conv: "list_all P xs \<longleftrightarrow> (\<forall>x\<in>set xs. P x)"
  by (simp add: list_all_iff)

end
