(* ===== verification/Js_String.thy ===== *)
theory Js_String
  imports Prelude
begin

text \<open>
  The strings of the program: ECMAScript strings are finite sequences of 16-bit code units,
  here a list of integers (\<open>jstr\<close>) each in \<open>0 .. 65535\<close> (\<open>units\<close>). A
  literal of the source is \<open>js ''...''\<close>. The theory defines the string operations
  the program uses, as the language specifies them: \<open>indexOf\<close>, \<open>split\<close>,
  \<open>join\<close>, \<open>trim\<close>, \<open>toLowerCase\<close>, and truthiness.
\<close>

type_synonym cu = int
type_synonym jstr = "cu list"

definition js :: "string \<Rightarrow> jstr" where
  "js s = map of_char s"

definition units :: "jstr \<Rightarrow> bool" where
  "units s \<longleftrightarrow> (\<forall>c\<in>set s. 0 \<le> c \<and> c < 65536)"

lemma of_char_inject: "(of_char a :: int) = of_char b \<longleftrightarrow> a = b"
  by (metis char_of_char)

lemma js_inject [simp]: "js a = js b \<longleftrightarrow> a = b"
proof
  assume "js a = js b"
  then show "a = b"
    unfolding js_def by (rule map_injective) (auto intro: injI simp: of_char_inject)
qed simp

lemma js_Nil [simp]: "js [] = []"
  by (simp add: js_def)

lemma js_eq_Nil [simp]: "js s = [] \<longleftrightarrow> s = []" "[] = js s \<longleftrightarrow> s = []"
  by (auto simp: js_def)

lemma js_append: "js (a @ b) = js a @ js b"
  by (simp add: js_def)

lemma js_Cons: "js (c # s) = of_char c # js s"
  by (simp add: js_def)

lemma units_Nil [simp]: "units []"
  and units_Cons [simp]: "units (c # s) \<longleftrightarrow> 0 \<le> c \<and> c < 65536 \<and> units s"
  and units_append [simp]: "units (s @ t) \<longleftrightarrow> units s \<and> units t"
  by (auto simp: units_def)

section \<open>Truthiness and defaults\<close>

text \<open>
  A string is falsy when it is empty. \<open>undefined\<close> (a missing property, an array element
  past the end) reaches three kinds of uses in this program: a truth test, a comparison with a
  non-empty literal, and \<open>setFormValue\<close>, which turns \<open>null\<close> and
  \<open>undefined\<close> into the empty string; it is therefore represented by \<open>[]\<close> where
  only these uses follow.
\<close>

definition truthy :: "jstr \<Rightarrow> bool" where
  "truthy s \<longleftrightarrow> s \<noteq> []"

text \<open>\<open>a || b\<close> on strings.\<close>

definition or_else :: "jstr \<Rightarrow> jstr \<Rightarrow> jstr" where
  "or_else a b = (if truthy a then a else b)"

lemma truthy_simps [simp]: "truthy [] = False" "truthy (c # s) = True" "truthy (js w) \<longleftrightarrow> w \<noteq> []"
  by (simp_all add: truthy_def)

lemma truthy_append [simp]: "truthy (a @ b) \<longleftrightarrow> truthy a \<or> truthy b"
  by (auto simp: truthy_def)

lemma or_else_simps [simp]: "or_else [] b = b" "truthy a \<Longrightarrow> or_else a b = a" "\<not> truthy a \<Longrightarrow> or_else a b = b"
  by (simp_all add: or_else_def)

section \<open>Searching\<close>

definition starts_with :: "jstr \<Rightarrow> jstr \<Rightarrow> bool" where
  "starts_with p s \<longleftrightarrow> take (length p) s = p"

text \<open>\<open>s.indexOf(p)\<close>: \<open>None\<close> is the result \<open>-1\<close>.\<close>

fun index_of :: "jstr \<Rightarrow> jstr \<Rightarrow> nat option" where
  "index_of p [] = (if p = [] then Some 0 else None)"
| "index_of p (c # s) = (if starts_with p (c # s) then Some 0 else map_option Suc (index_of p s))"

definition js_includes :: "jstr \<Rightarrow> jstr \<Rightarrow> bool" where
  "js_includes s p \<longleftrightarrow> index_of p s \<noteq> None"

lemma index_of_bound: "index_of p s = Some i \<Longrightarrow> i + length p \<le> length s"
proof (induction p s arbitrary: i rule: index_of.induct)
  case (2 p c s)
  show ?case
  proof (cases "starts_with p (c # s)")
    case True
    with "2.prems" show ?thesis
      by (auto simp: starts_with_def) (metis length_Cons length_take min.bounded_iff order_refl)
  next
    case False
    with 2 show ?thesis by auto
  qed
qed (auto split: if_splits)

lemma index_of_single:
  "index_of [c] s = (if c \<in> set s then Some (length (takeWhile (\<lambda>x. x \<noteq> c) s)) else None)"
  by (induction s) (auto simp: starts_with_def)

section \<open>Splitting and joining\<close>

text \<open>
  \<open>s.split(sep)\<close>; an empty separator splits into single code units.
\<close>

function js_split :: "jstr \<Rightarrow> jstr \<Rightarrow> jstr list" where
  "js_split sep s =
     (if sep = [] then map (\<lambda>c. [c]) s
      else (case index_of sep s of
              None \<Rightarrow> [s]
            | Some i \<Rightarrow> take i s # js_split sep (drop (i + length sep) s)))"
  by pat_completeness auto
termination
proof (relation "measure (\<lambda>(sep, s). length s)", goal_cases)
  case 1
  show ?case by simp
next
  case (2 sep s i)
  then have "i + length sep \<le> length s" by (auto dest: index_of_bound)
  moreover from 2 have "0 < length sep" by simp
  ultimately show ?case by (simp del: length_greater_0_conv)
qed

declare js_split.simps [simp del]

text \<open>\<open>parts.join(sep)\<close>.\<close>

fun js_join :: "jstr \<Rightarrow> jstr list \<Rightarrow> jstr" where
  "js_join sep [] = []"
| "js_join sep [x] = x"
| "js_join sep (x # y # ys) = x @ sep @ js_join sep (y # ys)"

lemma js_join_Cons: "xs \<noteq> [] \<Longrightarrow> js_join sep (x # xs) = x @ sep @ js_join sep xs"
  by (cases xs) auto

lemma js_join_nonempty [simp]: "x \<noteq> [] \<Longrightarrow> js_join sep (x # xs) \<noteq> []"
  by (cases xs) auto

lemma set_js_join: "c \<in> set (js_join sep xs) \<Longrightarrow> c \<in> set sep \<or> (\<exists>x\<in>set xs. c \<in> set x)"
  by (induction sep xs rule: js_join.induct) auto

lemma js_split_absent: "c \<notin> set s \<Longrightarrow> js_split [c] s = [s]"
  by (subst js_split.simps) (simp add: index_of_single)

lemma js_split_step: "c \<notin> set x \<Longrightarrow> js_split [c] (x @ c # s) = x # js_split [c] s"
proof -
  assume "c \<notin> set x"
  then have "takeWhile (\<lambda>y. y \<noteq> c) (x @ c # s) = x"
    by (intro takeWhile_stop) auto
  then have "index_of [c] (x @ c # s) = Some (length x)"
    by (simp add: index_of_single)
  then show ?thesis by (subst js_split.simps) simp
qed

lemma js_split_nonempty: "sep \<noteq> [] \<Longrightarrow> js_split sep s \<noteq> []"
  by (subst js_split.simps) (auto split: option.splits)

lemma js_split_join [roundtrip]:
  "xs \<noteq> [] \<Longrightarrow> \<forall>x\<in>set xs. c \<notin> set x \<Longrightarrow> js_split [c] (js_join [c] xs) = xs"
proof (induction xs)
  case (Cons x xs)
  then show ?case
    by (cases xs) (simp_all add: js_split_absent js_split_step)
qed simp

lemma js_join_split: "js_join [c] (js_split [c] s) = s"
proof (induction s rule: length_induct)
  case (1 s)
  show ?case
  proof (cases "c \<in> set s")
    case True
    then obtain a b where s: "s = a @ c # b" and "c \<notin> set a"
      by (meson split_list_first)
    moreover have "js_join [c] (js_split [c] b) = b"
      using 1 s by simp
    ultimately show ?thesis
      by (simp add: js_split_step js_join_Cons js_split_nonempty)
  qed (simp add: js_split_absent)
qed

section \<open>White space, case\<close>

text \<open>
  The white space and line terminators \<open>trim\<close> removes and \<open>\s\<close> matches.
\<close>

definition is_ws :: "cu \<Rightarrow> bool" where
  "is_ws c \<longleftrightarrow> (9 \<le> c \<and> c \<le> 13) \<or> c = 32 \<or> c = 160 \<or> c = 0x1680 \<or> (0x2000 \<le> c \<and> c \<le> 0x200A)
     \<or> c = 0x2028 \<or> c = 0x2029 \<or> c = 0x202F \<or> c = 0x205F \<or> c = 0x3000 \<or> c = 0xFEFF"

text \<open>The line terminators, which \<open>.\<close> in a regular expression does not match.\<close>

definition is_lt :: "cu \<Rightarrow> bool" where
  "is_lt c \<longleftrightarrow> c = 10 \<or> c = 13 \<or> c = 0x2028 \<or> c = 0x2029"

definition trim :: "jstr \<Rightarrow> jstr" where
  "trim s = rev (dropWhile is_ws (rev (dropWhile is_ws s)))"

definition trimmed :: "jstr \<Rightarrow> bool" where
  "trimmed s \<longleftrightarrow> s = [] \<or> \<not> is_ws (hd s) \<and> \<not> is_ws (last s)"

lemma trim_trimmed: "trimmed s \<Longrightarrow> trim s = s"
  by (cases s rule: rev_cases) (auto simp: trimmed_def trim_def dropWhile_id hd_append)

lemma trimmed_trim: "trimmed (trim s)"
proof (cases "trim s = []")
  case False
  define t where "t = dropWhile is_ws s"
  define u where "u = dropWhile is_ws (rev t)"
  have eq: "trim s = rev u" by (simp add: trim_def t_def u_def)
  with False have ne: "u \<noteq> []" by simp
  have "\<not> is_ws (hd u)" using ne unfolding u_def by (rule hd_dropWhile)
  moreover have "t \<noteq> []" using ne by (auto simp: u_def)
  then have "\<not> is_ws (hd t)" unfolding t_def by (rule hd_dropWhile)
  moreover have "last u = hd t"
  proof -
    obtain p where "rev t = p @ u" unfolding u_def by (metis takeWhile_dropWhile_id)
    with ne have "last (rev t) = last u" by simp
    with \<open>t \<noteq> []\<close> show ?thesis by (simp add: last_rev)
  qed
  ultimately show ?thesis using ne eq by (simp add: trimmed_def hd_rev last_rev)
qed (simp add: trimmed_def)

lemma trim_idem [simp]: "trim (trim s) = trim s"
  by (simp add: trim_trimmed trimmed_trim)

lemma trim_Nil [simp]: "trim [] = []"
  by (simp add: trim_def)

text \<open>
  \<open>toLowerCase\<close>. Its results are only compared with ASCII literals in this program; the
  only code unit outside ASCII whose lower case is ASCII is the Kelvin sign, so the other
  non-ASCII units are left as they are.
\<close>

definition lower_cu :: "cu \<Rightarrow> cu" where
  "lower_cu c = (if 65 \<le> c \<and> c \<le> 90 then c + 32 else if c = 0x212A then 107 else c)"

definition to_lower :: "jstr \<Rightarrow> jstr" where
  "to_lower s = map lower_cu s"

lemma to_lower_Nil [simp]: "to_lower [] = []"
  by (simp add: to_lower_def)

lemma to_lower_idem: "to_lower (to_lower s) = to_lower s"
  by (simp add: to_lower_def lower_cu_def)

end
