(* ===== verification/Uri_Component.thy ===== *)
theory Uri_Component
  imports Js_String
begin

text \<open>
  The ECMAScript functions \<open>encodeURIComponent\<close> and \<open>decodeURIComponent\<close>
  (\<open>None\<close> is the thrown \<open>URIError\<close>), with the UTF-16 and UTF-8 coding they
  rest on. Main facts: decoding inverts encoding on every well-formed string
  (\<open>decode_encode_uri\<close>), the encoder only produces unreserved characters and escapes
  (\<open>encode_uri_safe\<close>), and decoding never grows a string and shrinks it whenever it
  changes it (\<open>decode_uri_shrinks\<close>).
\<close>

section \<open>UTF-16\<close>

definition is_high :: "cu \<Rightarrow> bool" where "is_high c \<longleftrightarrow> 0xD800 \<le> c \<and> c \<le> 0xDBFF"
definition is_low :: "cu \<Rightarrow> bool" where "is_low c \<longleftrightarrow> 0xDC00 \<le> c \<and> c \<le> 0xDFFF"

text \<open>The code points of a string; \<open>None\<close> when a surrogate is unpaired.\<close>

fun code_points :: "jstr \<Rightarrow> int list option" where
  "code_points [] = Some []"
| "code_points (c # s) =
     (if is_low c then None
      else if is_high c then
        (case s of
           [] \<Rightarrow> None
         | d # t \<Rightarrow>
             if is_low d
             then map_option ((#) ((c - 0xD800) * 0x400 + (d - 0xDC00) + 0x10000)) (code_points t)
             else None)
      else map_option ((#) c) (code_points s))"

text \<open>The code units of a code point.\<close>

definition utf16 :: "int \<Rightarrow> jstr" where
  "utf16 p = (if p < 0x10000 then [p]
              else [(p - 0x10000) div 0x400 + 0xD800, (p - 0x10000) mod 0x400 + 0xDC00])"

definition scalar :: "int \<Rightarrow> bool" where
  "scalar p \<longleftrightarrow> 0 \<le> p \<and> p \<le> 0x10FFFF \<and> \<not> (0xD800 \<le> p \<and> p \<le> 0xDFFF)"

text \<open>A well-formed string: 16-bit units, every surrogate paired.\<close>

definition well_formed :: "jstr \<Rightarrow> bool" where
  "well_formed s \<longleftrightarrow> units s \<and> code_points s \<noteq> None"

lemma surrogate_pair:
  fixes c d :: int
  assumes "is_high c" and "is_low d"
  defines "p \<equiv> (c - 0xD800) * 0x400 + (d - 0xDC00) + 0x10000"
  shows "utf16 p = [c, d]" and "scalar p"
proof -
  have d: "0 \<le> d - 0xDC00" "d - 0xDC00 < 0x400"
    using assms(2) by (auto simp: is_low_def)
  have pe: "p - 0x10000 = (c - 0xD800) * 0x400 + (d - 0xDC00)"
    by (simp add: p_def)
  have "(p - 0x10000) div 0x400 = c - 0xD800"
    unfolding pe using d by simp
  moreover have "(p - 0x10000) mod 0x400 = d - 0xDC00"
    unfolding pe using d by (simp only: mod_mult_self3 mod_pos_pos_trivial)
  moreover have "0x10000 \<le> p" "p \<le> 0x10FFFF"
    using assms by (auto simp: p_def is_high_def is_low_def)
  ultimately show "utf16 p = [c, d]" and "scalar p"
    by (simp_all add: utf16_def scalar_def)
qed

lemma code_points_scalar:
  "units s \<Longrightarrow> code_points s = Some ps \<Longrightarrow> (\<forall>p\<in>set ps. scalar p) \<and> concat (map utf16 ps) = s"
proof (induction s arbitrary: ps rule: code_points.induct)
  case (2 c s)
  consider (low) "is_low c" | (high) "is_high c" "\<not> is_low c" | (bmp) "\<not> is_low c" "\<not> is_high c"
    by blast
  then show ?case
  proof cases
    case high
    with "2.prems" obtain d t qs where s: "s = d # t" "is_low d" "code_points t = Some qs"
      and ps: "ps = ((c - 0xD800) * 0x400 + (d - 0xDC00) + 0x10000) # qs"
      by (auto split: list.splits if_splits)
    have t: "(\<forall>p\<in>set qs. scalar p) \<and> concat (map utf16 qs) = t"
      using "2.IH"(1)[OF high(2) high(1) s(1) s(2) _ s(3)] "2.prems"(1) s(1) by simp
    show ?thesis using surrogate_pair[OF high(1) s(2)] t ps s(1) by simp
  next
    case bmp
    then show ?thesis
      using "2.prems" "2.IH"(2)[OF bmp]
      by (auto simp: scalar_def is_low_def is_high_def utf16_def)
  qed (use "2.prems" in simp)
qed simp

lemma code_points_append:
  "code_points a = Some ps \<Longrightarrow> code_points b = Some qs \<Longrightarrow> code_points (a @ b) = Some (ps @ qs)"
proof (induction a arbitrary: ps rule: code_points.induct)
  case (2 c s)
  consider (low) "is_low c" | (high) "is_high c" "\<not> is_low c" | (bmp) "\<not> is_low c" "\<not> is_high c"
    by blast
  then show ?case
  proof cases
    case high
    with "2.prems" obtain d t where "s = d # t" "is_low d"
      by (auto split: list.splits if_splits)
    with high "2.IH"(1)[OF high(2) high(1)] "2.prems" show ?thesis by auto
  next
    case bmp
    with "2.IH"(2)[OF bmp] "2.prems" show ?thesis by auto
  qed (use "2.prems" in simp)
qed simp

lemma well_formed_Nil [simp]: "well_formed []"
  by (simp add: well_formed_def)

lemma well_formed_append: "well_formed a \<Longrightarrow> well_formed b \<Longrightarrow> well_formed (a @ b)"
  by (auto simp: well_formed_def dest: code_points_append)

lemma code_points_ascii: "\<forall>c\<in>set s. 0 \<le> c \<and> c < 0xD800 \<Longrightarrow> code_points s = Some s"
  by (induction s) (auto simp: is_low_def is_high_def)

lemma of_char_range: "0 \<le> (of_char c :: int) \<and> (of_char c :: int) < 256"
  by (metis of_nat_of_char nat_of_char_less_256 of_nat_0_le_iff of_nat_less_iff of_nat_numeral)

section \<open>UTF-8\<close>

definition utf8 :: "int \<Rightarrow> int list" where
  "utf8 p =
     (if p < 0x80 then [p]
      else if p < 0x800 then [0xC0 + p div 0x40, 0x80 + p mod 0x40]
      else if p < 0x10000 then [0xE0 + p div 0x1000, 0x80 + p div 0x40 mod 0x40, 0x80 + p mod 0x40]
      else [0xF0 + p div 0x40000, 0x80 + p div 0x1000 mod 0x40, 0x80 + p div 0x40 mod 0x40, 0x80 + p mod 0x40])"

definition is_byte :: "int \<Rightarrow> bool" where "is_byte b \<longleftrightarrow> 0 \<le> b \<and> b < 256"

lemma utf8_bytes: "scalar p \<Longrightarrow> b \<in> set (utf8 p) \<Longrightarrow> is_byte b"
  by (auto simp: scalar_def utf8_def is_byte_def split: if_splits)

section \<open>Escapes\<close>

definition hex_digit :: "int \<Rightarrow> cu" where
  "hex_digit d = (if d < 10 then 48 + d else 55 + d)"

definition hex_digit_lower :: "int \<Rightarrow> cu" where
  "hex_digit_lower d = (if d < 10 then 48 + d else 87 + d)"

text \<open>The value of a hexadecimal digit, of either case.\<close>

definition hex_val :: "cu \<Rightarrow> int option" where
  "hex_val c = (if 48 \<le> c \<and> c \<le> 57 then Some (c - 48)
                else if 65 \<le> c \<and> c \<le> 70 then Some (c - 55)
                else if 97 \<le> c \<and> c \<le> 102 then Some (c - 87) else None)"

definition pct_byte :: "int \<Rightarrow> jstr" where
  "pct_byte b = [37, hex_digit (b div 16), hex_digit (b mod 16)]"

text \<open>An escape at the start of the string: its octet and the rest.\<close>

fun pct :: "jstr \<Rightarrow> (int \<times> jstr) option" where
  "pct (p # h # l # r) =
     (if p = 37 then
        (case (hex_val h, hex_val l) of
           (Some a, Some b) \<Rightarrow> Some (16 * a + b, r)
         | _ \<Rightarrow> None)
      else None)"
| "pct _ = None"

lemma pct_length: "pct s = Some (b, r) \<Longrightarrow> length s = length r + 3"
  by (induction s rule: pct.induct) (auto split: if_splits option.splits)

lemma pct_byte_range: "pct s = Some (b, r) \<Longrightarrow> is_byte b"
  by (induction s rule: pct.induct)
    (auto simp: hex_val_def is_byte_def split: if_splits option.splits)

lemma hex_val_digit:
  "0 \<le> d \<Longrightarrow> d < 16 \<Longrightarrow> hex_val (hex_digit d) = Some d"
  "0 \<le> d \<Longrightarrow> d < 16 \<Longrightarrow> hex_val (hex_digit_lower d) = Some d"
  by (auto simp: hex_val_def hex_digit_def hex_digit_lower_def)

lemma nibbles: "is_byte b \<Longrightarrow> 0 \<le> b div 16 \<and> b div 16 < 16 \<and> 0 \<le> b mod 16 \<and> b mod 16 < 16"
  unfolding is_byte_def by presburger

lemma pct_pct_byte: "is_byte b \<Longrightarrow> pct (pct_byte b @ r) = Some (b, r)"
  using nibbles[of b] by (simp add: pct_byte_def hex_val_digit)

lemma pct_lower: "is_byte b \<Longrightarrow>
  pct (37 # hex_digit_lower (b div 16) # hex_digit_lower (b mod 16) # r) = Some (b, r)"
  using nibbles[of b] by (simp add: hex_val_digit)

section \<open>encodeURIComponent\<close>

text \<open>The unreserved characters: letters, digits and \<open>- _ . ! ~ * ' ( )\<close>.\<close>

definition alnum :: "cu \<Rightarrow> bool" where
  "alnum c \<longleftrightarrow> 48 \<le> c \<and> c \<le> 57 \<or> 65 \<le> c \<and> c \<le> 90 \<or> 97 \<le> c \<and> c \<le> 122"

definition unreserved :: "cu \<Rightarrow> bool" where
  "unreserved c \<longleftrightarrow> alnum c \<or> c = 45 \<or> c = 95 \<or> c = 46 \<or> c = 33 \<or> c = 126 \<or> c = 42 \<or> c = 39 \<or> c = 40 \<or> c = 41"

definition enc_point :: "int \<Rightarrow> jstr" where
  "enc_point p = (if unreserved p then [p] else concat (map pct_byte (utf8 p)))"

definition encodeURIComponent :: "jstr \<Rightarrow> jstr option" where
  "encodeURIComponent s = map_option (\<lambda>ps. concat (map enc_point ps)) (code_points s)"

section \<open>decodeURIComponent\<close>

text \<open>
  The continuation octets of a multi-octet sequence, then the whole sequence: the number of
  continuations and the initial bits come from the first octet, and the code point must not be
  encodable in fewer octets, a surrogate, or beyond \<open>10FFFF\<close>.
\<close>

fun continuation :: "nat \<Rightarrow> int \<Rightarrow> jstr \<Rightarrow> (int \<times> jstr) option" where
  "continuation 0 acc s = Some (acc, s)"
| "continuation (Suc n) acc s =
     (case pct s of
        None \<Rightarrow> None
      | Some (b, r) \<Rightarrow> if 0x80 \<le> b \<and> b < 0xC0 then continuation n (acc * 0x40 + (b - 0x80)) r else None)"

definition lead :: "int \<Rightarrow> (nat \<times> int \<times> int) option" where
  "lead b = (if b < 0x80 then Some (0, b, 0)
             else if 0xC0 \<le> b \<and> b < 0xE0 then Some (1, b - 0xC0, 0x80)
             else if 0xE0 \<le> b \<and> b < 0xF0 then Some (2, b - 0xE0, 0x800)
             else if 0xF0 \<le> b \<and> b < 0xF8 then Some (3, b - 0xF0, 0x10000)
             else None)"

definition next_point :: "jstr \<Rightarrow> (int \<times> jstr) option" where
  "next_point s =
     (case pct s of
        None \<Rightarrow> None
      | Some (b, r) \<Rightarrow>
          (case lead b of
             None \<Rightarrow> None
           | Some (n, bits, least) \<Rightarrow>
               (case continuation n bits r of
                  None \<Rightarrow> None
                | Some (p, r') \<Rightarrow> if least \<le> p \<and> scalar p then Some (p, r') else None)))"

lemma continuation_length: "continuation n acc s = Some (p, r) \<Longrightarrow> length s = length r + 3 * n"
  by (induction n acc s rule: continuation.induct)
    (auto dest!: pct_length split: option.splits if_splits)

lemma next_point_length: "next_point s = Some (p, r) \<Longrightarrow> length r + 3 \<le> length s"
  by (auto simp: next_point_def dest!: pct_length continuation_length split: option.splits if_splits)

lemma next_point_scalar: "next_point s = Some (p, r) \<Longrightarrow> scalar p"
  by (auto simp: next_point_def split: option.splits if_splits)

function decodeURIComponent :: "jstr \<Rightarrow> jstr option" where
  "decodeURIComponent [] = Some []"
| "decodeURIComponent (c # s) =
     (if c = 37 then
        (case next_point (c # s) of
           None \<Rightarrow> None
         | Some (p, r) \<Rightarrow> map_option ((@) (utf16 p)) (decodeURIComponent r))
      else map_option ((#) c) (decodeURIComponent s))"
  by pat_completeness auto
termination
  by (relation "measure length") (auto dest!: next_point_length)


lemma length_utf16: "length (utf16 p) \<le> 2"
  by (simp add: utf16_def)

text \<open>
  Decoding never grows a string, and shrinks it whenever it changes it: an escape is at least
  three units and stands for at most two.
\<close>

lemma decode_uri_shrinks:
  "decodeURIComponent s = Some t \<Longrightarrow> t = s \<or> length t < length s"
proof (induction s arbitrary: t rule: decodeURIComponent.induct)
  case (2 c s)
  show ?case
  proof (cases "c = 37")
    case True
    with "2.prems" obtain p r u where np: "next_point (c # s) = Some (p, r)"
      and u: "decodeURIComponent r = Some u" and t: "t = utf16 p @ u"
      by (auto split: option.splits)
    have "length u \<le> length r"
      using "2.IH"(1)[OF True np refl u] by auto
    then show ?thesis
      using next_point_length[OF np] length_utf16[of p] t by simp
  next
    case False
    with "2.prems" obtain u where "decodeURIComponent s = Some u" "t = c # u" by auto
    with "2.IH"(2)[OF False] show ?thesis by auto
  qed
qed simp

lemma units_utf16: "scalar p \<Longrightarrow> units (utf16 p)"
  by (auto simp: utf16_def scalar_def)

lemma pct_units: "units s \<Longrightarrow> pct s = Some (b, r) \<Longrightarrow> units r"
  by (induction s rule: pct.induct) (auto split: if_splits option.splits)

lemma continuation_units: "units s \<Longrightarrow> continuation n acc s = Some (p, r) \<Longrightarrow> units r"
  by (induction n acc s rule: continuation.induct)
    (auto dest: pct_units split: option.splits if_splits)

lemma next_point_units: "units s \<Longrightarrow> next_point s = Some (p, r) \<Longrightarrow> units r"
  unfolding next_point_def
  by (auto split: option.splits if_splits) (metis pct_units continuation_units)

lemma decode_uri_units: "units s \<Longrightarrow> decodeURIComponent s = Some t \<Longrightarrow> units t"
proof (induction s arbitrary: t rule: decodeURIComponent.induct)
  case (2 c s)
  show ?case
  proof (cases "c = 37")
    case True
    with "2.prems" obtain p r u where np: "next_point (c # s) = Some (p, r)"
      and u: "decodeURIComponent r = Some u" and t: "t = utf16 p @ u"
      by (auto split: option.splits)
    have "units u"
      using "2.IH"(1)[OF True np refl] next_point_units[OF "2.prems"(1) np] u by blast
    with t show ?thesis using units_utf16[OF next_point_scalar[OF np]] by simp
  next
    case False
    with "2.prems" "2.IH"(2)[OF False] show ?thesis by auto
  qed
qed simp

lemma decode_uri_id: "37 \<notin> set s \<Longrightarrow> decodeURIComponent s = Some s"
  by (induction s) auto

section \<open>Decoding inverts encoding\<close>

lemma base64_digits:
  fixes p :: int
  shows "p div 0x1000 * 0x40 + p div 0x40 mod 0x40 = p div 0x40"
    and "p div 0x40000 * 0x40 + p div 0x1000 mod 0x40 = p div 0x1000"
proof -
  have "p div 0x1000 = p div 0x40 div 0x40" "p div 0x40000 = p div 0x1000 div 0x40"
    using zdiv_zmult2_eq[of "0x40" p "0x40"] zdiv_zmult2_eq[of "0x40" p "0x1000"] by simp_all
  then show "p div 0x1000 * 0x40 + p div 0x40 mod 0x40 = p div 0x40"
    and "p div 0x40000 * 0x40 + p div 0x1000 mod 0x40 = p div 0x1000"
    by simp_all
qed

lemma div_bounds:
  fixes p k m :: int
  assumes "0 < k" "0 \<le> p" "p < m * k"
  shows "0 \<le> p div k" and "p div k < m"
proof -
  show "0 \<le> p div k" using assms by (simp add: pos_imp_zdiv_nonneg_iff)
  have "p div k * k \<le> p" using assms(1) by (metis div_mult_mod_eq le_add_same_cancel1 pos_mod_sign)
  with assms(3) have "p div k * k < m * k" by linarith
  with assms(1) show "p div k < m" by simp
qed

text \<open>
  The octets of a code point, escaped one by one by any routine that \<open>pct\<close> reads back,
  decode to the code point, whatever follows.
\<close>

lemma next_point_utf8:
  assumes f: "\<And>b r. is_byte b \<Longrightarrow> pct (f b @ r) = Some (b, r)" and p: "scalar p"
  shows "next_point (concat (map f (utf8 p)) @ r) = Some (p, r)"
proof -
  have byte: "b \<in> set (utf8 p) \<Longrightarrow> is_byte b" for b using p by (rule utf8_bytes)
  consider "p < 0x80" | "0x80 \<le> p" "p < 0x800" | "0x800 \<le> p" "p < 0x10000" | "0x10000 \<le> p"
    by linarith
  then show ?thesis
  proof cases
    case 1
    with p byte show ?thesis
      by (simp add: utf8_def next_point_def f lead_def scalar_def)
  next
    case 2
    then have "0 \<le> p div 0x40" "p div 0x40 < 0x20"
      using div_bounds[of "0x40" p "0x20"] by simp_all
    then have "lead (0xC0 + p div 0x40) = Some (1, p div 0x40, 0x80)"
      by (simp add: lead_def)
    with p byte 2 show ?thesis by (simp add: utf8_def next_point_def f)
  next
    case 3
    then have "0 \<le> p div 0x1000" "p div 0x1000 < 0x10"
      using div_bounds[of "0x1000" p "0x10"] by simp_all
    then have "lead (0xE0 + p div 0x1000) = Some (2, p div 0x1000, 0x800)"
      by (simp add: lead_def)
    with p byte 3 show ?thesis
      by (simp add: utf8_def next_point_def f numeral_2_eq_2 base64_digits)
  next
    case 4
    then have "0 \<le> p div 0x40000" "p div 0x40000 < 8"
      using div_bounds[of "0x40000" p 8] p by (simp_all add: scalar_def)
    then have "lead (0xF0 + p div 0x40000) = Some (3, p div 0x40000, 0x10000)"
      by (simp add: lead_def)
    with p byte 4 show ?thesis
      by (simp add: utf8_def next_point_def f numeral_3_eq_3 base64_digits)
  qed
qed

lemma utf16_unescaped: "scalar p \<Longrightarrow> unreserved p \<Longrightarrow> utf16 p = [p] \<and> p \<noteq> 37"
  by (auto simp: utf16_def unreserved_def alnum_def)

lemma decode_pct_points:
  assumes f: "\<And>b r. is_byte b \<Longrightarrow> pct (f b @ r) = Some (b, r)"
    and hd: "\<And>b. is_byte b \<Longrightarrow> \<exists>t. f b = 37 # t"
    and p: "scalar p"
  shows "decodeURIComponent (concat (map f (utf8 p)) @ r) = map_option ((@) (utf16 p)) (decodeURIComponent r)"
proof -
  have "utf8 p \<noteq> []" by (simp add: utf8_def)
  then obtain b bs where "utf8 p = b # bs" by (cases "utf8 p") auto
  moreover from this p have "is_byte b" by (auto intro: utf8_bytes)
  ultimately obtain t where "concat (map f (utf8 p)) @ r = 37 # t"
    using hd[of b] by auto
  then show ?thesis using next_point_utf8[OF f p, of r] by simp
qed

lemma decode_enc_point:
  assumes "scalar p"
  shows "decodeURIComponent (enc_point p @ r) = map_option ((@) (utf16 p)) (decodeURIComponent r)"
proof (cases "unreserved p")
  case True
  moreover have "(@) [p] = (#) p" by (rule ext) simp
  ultimately show ?thesis using assms by (simp add: enc_point_def utf16_unescaped)
next
  case False
  have "decodeURIComponent (concat (map pct_byte (utf8 p)) @ r)
      = map_option ((@) (utf16 p)) (decodeURIComponent r)"
    using assms by (rule decode_pct_points[OF pct_pct_byte, rotated 2]) (auto simp: pct_byte_def)
  with False show ?thesis by (simp add: enc_point_def)
qed

lemma decode_enc_points:
  "\<forall>p\<in>set ps. scalar p \<Longrightarrow>
   decodeURIComponent (concat (map enc_point ps)) = Some (concat (map utf16 ps))"
  by (induction ps) (simp_all add: decode_enc_point)

theorem decode_encode_uri [roundtrip]:
  "units s \<Longrightarrow> encodeURIComponent s = Some t \<Longrightarrow> decodeURIComponent t = Some s"
  by (auto simp: encodeURIComponent_def decode_enc_points dest: code_points_scalar)

lemma encode_well_formed: "well_formed s \<Longrightarrow> \<exists>t. encodeURIComponent s = Some t"
  by (auto simp: encodeURIComponent_def well_formed_def)

text \<open>What the encoder can produce: unreserved characters and the percent sign.\<close>

definition uri_safe :: "cu \<Rightarrow> bool" where
  "uri_safe c \<longleftrightarrow> unreserved c \<or> c = 37"

lemma hex_digit_alnum: "0 \<le> d \<Longrightarrow> d < 16 \<Longrightarrow> alnum (hex_digit d)"
  by (auto simp: hex_digit_def alnum_def)

lemma pct_byte_safe: "is_byte b \<Longrightarrow> c \<in> set (pct_byte b) \<Longrightarrow> uri_safe c"
  using nibbles[of b] by (auto simp: pct_byte_def uri_safe_def unreserved_def hex_digit_alnum)

lemma encode_uri_safe [js_safe]:
  assumes "units s" and "encodeURIComponent s = Some t" and "c \<in> set t"
  shows "uri_safe c"
proof -
  from assms obtain ps where ps: "code_points s = Some ps" "t = concat (map enc_point ps)"
    by (auto simp: encodeURIComponent_def)
  with assms(3) obtain p where p: "p \<in> set ps" "c \<in> set (enc_point p)" by auto
  moreover have "scalar p" using code_points_scalar[OF assms(1) ps(1)] p by simp
  ultimately show ?thesis
    by (auto simp: enc_point_def uri_safe_def split: if_splits
        dest: utf8_bytes pct_byte_safe[unfolded uri_safe_def])
qed

lemma enc_point_nonempty: "enc_point p \<noteq> []"
  by (simp add: enc_point_def utf8_def pct_byte_def)

lemma code_points_Nil: "code_points s = Some [] \<Longrightarrow> s = []"
  by (induction s rule: code_points.induct) (auto split: if_splits list.splits)

lemma encode_nonempty: "encodeURIComponent s = Some t \<Longrightarrow> t = [] \<longleftrightarrow> s = []"
proof -
  assume "encodeURIComponent s = Some t"
  then obtain ps where ps: "code_points s = Some ps" "t = concat (map enc_point ps)"
    by (auto simp: encodeURIComponent_def)
  then have "t = [] \<longleftrightarrow> ps = []" by (cases ps) (auto simp: enc_point_nonempty)
  with ps(1) show ?thesis by (auto dest: code_points_Nil)
qed

lemma encode_uri_Nil [simp]: "encodeURIComponent [] = Some []"
  by (simp add: encodeURIComponent_def)

lemma encode_unreserved_id:
  "\<forall>c\<in>set s. unreserved c \<Longrightarrow> encodeURIComponent s = Some s"
proof -
  assume a: "\<forall>c\<in>set s. unreserved c"
  then have "code_points s = Some s"
    by (intro code_points_ascii) (auto simp: unreserved_def alnum_def)
  moreover have "concat (map enc_point s) = s"
    using a by (induction s) (auto simp: enc_point_def)
  ultimately show ?thesis by (simp add: encodeURIComponent_def)
qed

end
