(* ===== verification/Base64.thy ===== *)
theory Base64
  imports Uri_Component
begin

text \<open>
  The base64 helpers of \<open>server_url.js\<close> (lines 4 to 44) over the platform functions
  \<open>btoa\<close> and \<open>atob\<close>, which are modelled as specified: \<open>btoa\<close>
  throws on a unit above 255, \<open>atob\<close> drops ASCII white space, accepts up to two
  padding characters, and throws on a length of 1 modulo 4 or a foreign character
  (\<open>None\<close> is the exception). Main facts: the URL-safe pair and the UTF-8 pair are
  inverse to each other, and the safe encoder only produces unreserved characters.
\<close>

section \<open>btoa and atob\<close>

definition b64_char :: "int \<Rightarrow> cu" where
  "b64_char v = (if v < 26 then 65 + v else if v < 52 then 71 + v else if v < 62 then v - 4
                 else if v = 62 then 43 else 47)"

definition b64_val :: "cu \<Rightarrow> int option" where
  "b64_val c = (if 65 \<le> c \<and> c \<le> 90 then Some (c - 65)
                else if 97 \<le> c \<and> c \<le> 122 then Some (c - 71)
                else if 48 \<le> c \<and> c \<le> 57 then Some (c + 4)
                else if c = 43 then Some 62 else if c = 47 then Some 63 else None)"

fun sextets :: "int list \<Rightarrow> int list" where
  "sextets [] = []"
| "sextets [a] = [a div 4, a mod 4 * 16]"
| "sextets [a, b] = [a div 4, a mod 4 * 16 + b div 16, b mod 16 * 4]"
| "sextets (a # b # c # r) =
     a div 4 # (a mod 4 * 16 + b div 16) # (b mod 16 * 4 + c div 64) # c mod 64 # sextets r"

fun octets :: "int list \<Rightarrow> int list" where
  "octets (a # b # c # d # r) =
     (a * 4 + b div 16) # (b mod 16 * 16 + c div 4) # (c mod 4 * 64 + d) # octets r"
| "octets [a, b, c] = [a * 4 + b div 16, b mod 16 * 16 + c div 4]"
| "octets [a, b] = [a * 4 + b div 16]"
| "octets _ = []"

definition pad_count :: "nat \<Rightarrow> nat" where
  "pad_count n = (4 - n mod 4) mod 4"

definition btoa :: "jstr \<Rightarrow> jstr option" where
  "btoa s = (if list_all (\<lambda>c. c < 256) s
             then Some (let q = map b64_char (sextets s) in q @ replicate (pad_count (length q)) 61)
             else None)"

definition ascii_ws :: "cu \<Rightarrow> bool" where
  "ascii_ws c \<longleftrightarrow> c = 9 \<or> c = 10 \<or> c = 12 \<or> c = 13 \<or> c = 32"

definition strip_padding :: "jstr \<Rightarrow> jstr" where
  "strip_padding t =
     (if length t mod 4 = 0 then
        (case rev t of
           x # y # r \<Rightarrow> if x = 61 \<and> y = 61 then rev r else if x = 61 then rev (y # r) else t
         | _ \<Rightarrow> t)
      else t)"

definition atob :: "jstr \<Rightarrow> jstr option" where
  "atob s =
     (let t = strip_padding (filter (\<lambda>c. \<not> ascii_ws c) s)
      in if length t mod 4 = 1 then None
         else map_option octets (map_opt b64_val t))"

lemma b64_val_char: "0 \<le> v \<Longrightarrow> v < 64 \<Longrightarrow> b64_val (b64_char v) = Some v"
  by (auto simp: b64_val_def b64_char_def)

lemma byte_quotients:
  assumes "is_byte b"
  shows "0 \<le> b div 4" "b div 4 < 64" "0 \<le> b div 16" "b div 16 < 16" "0 \<le> b div 64" "b div 64 < 4"
  using assms div_bounds[of 4 b 64] div_bounds[of 16 b 16] div_bounds[of 64 b 4]
  by (simp_all add: is_byte_def)

lemma byte_parts:
  assumes "is_byte b"
  shows "b div 16 div 16 = 0" "b div 16 mod 16 = b div 16" "b div 64 div 4 = 0" "b div 64 mod 4 = b div 64"
  using byte_quotients[OF assms] by (simp_all only: div_pos_pos_trivial mod_pos_pos_trivial)

lemma residue_bounds:
  fixes a :: int
  shows "0 \<le> a mod 4" "a mod 4 < 4" "0 \<le> a mod 16" "a mod 16 < 16" "0 \<le> a mod 64" "a mod 64 < 64"
  by simp_all

lemma sextets_all: "list_all is_byte s \<Longrightarrow> list_all (\<lambda>v. 0 \<le> v \<and> v < 64) (sextets s)"
proof (induction s rule: sextets.induct)
  case (2 a)
  then have "is_byte a" by simp
  note byte_quotients[OF this] residue_bounds[of a]
  then show ?case by (simp only: sextets.simps list.pred_inject) (intro conjI TrueI; linarith)
next
  case (3 a b)
  then have "is_byte a" "is_byte b" by simp_all
  note byte_quotients[OF this(1)] byte_quotients[OF this(2)] residue_bounds[of a] residue_bounds[of b]
  then show ?case by (simp only: sextets.simps list.pred_inject) (intro conjI TrueI; linarith)
next
  case (4 a b c r)
  then have "is_byte a" "is_byte b" "is_byte c" and r: "list_all is_byte r" by simp_all
  note byte_quotients[OF this(1)] byte_quotients[OF this(2)] byte_quotients[OF this(3)]
    residue_bounds[of a] residue_bounds[of b] residue_bounds[of c]
  with "4.IH"[OF r] show ?case by (simp only: sextets.simps list.pred_inject) (intro conjI TrueI; linarith)
qed simp

lemma sextets_range: "\<forall>b\<in>set s. is_byte b \<Longrightarrow> v \<in> set (sextets s) \<Longrightarrow> 0 \<le> v \<and> v < 64"
  using sextets_all[of s] by (simp add: list_all_iff)

lemma octets_sextets: "\<forall>b\<in>set s. is_byte b \<Longrightarrow> octets (sextets s) = s"
  by (induction s rule: sextets.induct) (simp_all add: byte_parts)

lemma length_sextets: "length (sextets s) mod 4 \<noteq> 1"
  by (induction s rule: sextets.induct) auto

lemma map_opt_b64: "\<forall>v\<in>set vs. 0 \<le> v \<and> v < 64 \<Longrightarrow> map_opt b64_val (map b64_char vs) = Some vs"
  by (induction vs) (auto simp: b64_val_char)

lemma b64_char_alnum: "0 \<le> v \<Longrightarrow> v < 64 \<Longrightarrow> alnum (b64_char v) \<or> b64_char v = 43 \<or> b64_char v = 47"
  by (auto simp: b64_char_def alnum_def)

section \<open>The helpers of server_url.js\<close>

definition padright :: "jstr \<Rightarrow> nat \<Rightarrow> jstr \<Rightarrow> jstr" where
  "padright str cnt pad = str @ concat (replicate cnt pad)"

text \<open>\<open>.replace(/%([0-9A-F]{2})/g, ...)\<close>: each upper-case escape becomes its octet.\<close>

definition upper_hex :: "cu \<Rightarrow> bool" where
  "upper_hex c \<longleftrightarrow> 48 \<le> c \<and> c \<le> 57 \<or> 65 \<le> c \<and> c \<le> 70"

fun replace_escapes :: "jstr \<Rightarrow> jstr" where
  "replace_escapes (p # h # l # r) =
     (if p = 37 \<and> upper_hex h \<and> upper_hex l
      then (16 * the (hex_val h) + the (hex_val l)) # replace_escapes r
      else p # replace_escapes (h # l # r))"
| "replace_escapes s = s"

definition b64EncodeUnicode :: "jstr \<Rightarrow> jstr option" where
  "b64EncodeUnicode str = do { e \<leftarrow> encodeURIComponent str; btoa (replace_escapes e) }"

text \<open>\<open>.replace(/\+/g, "-").replace(/\//g, "_").replace(/=+$/g, '')\<close>.\<close>

definition replace_cu :: "cu \<Rightarrow> cu \<Rightarrow> jstr \<Rightarrow> jstr" where
  "replace_cu a b s = map (\<lambda>c. if c = a then b else c) s"

definition strip_trailing :: "cu \<Rightarrow> jstr \<Rightarrow> jstr" where
  "strip_trailing c s = rev (dropWhile (\<lambda>x. x = c) (rev s))"

definition to_url_alphabet :: "jstr \<Rightarrow> jstr" where
  "to_url_alphabet s = strip_trailing 61 (replace_cu 47 95 (replace_cu 43 45 s))"

definition b64encutf8safe :: "jstr \<Rightarrow> jstr option" where
  "b64encutf8safe str = map_option to_url_alphabet (b64EncodeUnicode str)"

text \<open>\<open>c.charCodeAt(0).toString(16)\<close> for an octet, and the escape built from it.\<close>

definition hex_string :: "int \<Rightarrow> jstr" where
  "hex_string b = (if b < 16 then [hex_digit_lower b] else [hex_digit_lower (b div 16), hex_digit_lower (b mod 16)])"

definition escape_octet :: "int \<Rightarrow> jstr" where
  "escape_octet b = js ''%'' @ (let h = js ''00'' @ hex_string b in drop (length h - 2) h)"

definition b64DecodeUnicode :: "jstr \<Rightarrow> jstr option" where
  "b64DecodeUnicode str = do { a \<leftarrow> atob str; decodeURIComponent (concat (map escape_octet a)) }"

definition from_url_alphabet :: "jstr \<Rightarrow> jstr" where
  "from_url_alphabet s =
     (let str = replace_cu 95 47 (replace_cu 45 43 s); l = (4 - length str mod 4) mod 4
      in if l \<noteq> 0 then padright str l (js ''='') else str)"

definition b64decutf8safe :: "jstr \<Rightarrow> jstr option" where
  "b64decutf8safe str = b64DecodeUnicode (from_url_alphabet str)"

definition b64encsafe :: "jstr \<Rightarrow> jstr option" where
  "b64encsafe str = map_option to_url_alphabet (btoa str)"

definition b64decsafe :: "jstr \<Rightarrow> jstr option" where
  "b64decsafe str = atob (from_url_alphabet str)"

section \<open>The pairs are inverse\<close>

lemma strip_padding_pad:
  assumes "\<forall>c\<in>set q. c \<noteq> 61" and "length q mod 4 \<noteq> 1"
  shows "strip_padding (q @ replicate (pad_count (length q)) 61) = q"
proof -
  have "length q mod 4 < 4" by simp
  with assms(2) consider "length q mod 4 = 0" | "length q mod 4 = 2" | "length q mod 4 = 3" by linarith
  then show ?thesis
  proof cases
    case 1
    show ?thesis
    proof (cases "rev q")
      case (Cons x r)
      then have "x \<in> set q" by (metis list.set_intros(1) set_rev)
      with assms(1) 1 Cons show ?thesis
        by (cases r) (auto simp: strip_padding_def pad_count_def)
    qed (simp add: strip_padding_def pad_count_def)
  next
    case 2
    then have "(length q + 2) mod 4 = 0" by presburger
    with 2 show ?thesis by (simp add: strip_padding_def pad_count_def numeral_2_eq_2)
  next
    case 3
    then have l: "(length q + 1) mod 4 = 0" by presburger
    from 3 obtain x r where r: "rev q = x # r" by (cases "rev q") auto
    then have "x \<in> set q" by (metis list.set_intros(1) set_rev)
    with assms(1) have "x \<noteq> 61" by auto
    moreover have "q = rev r @ [x]" using r by (metis rev.simps(2) rev_rev_ident)
    ultimately show ?thesis using 3 l by (simp add: strip_padding_def pad_count_def)
  qed
qed

definition b64_text :: "jstr \<Rightarrow> jstr" where
  "b64_text s = map b64_char (sextets s)"

lemma b64_text_chars:
  assumes "list_all is_byte s" and "c \<in> set (b64_text s)"
  shows "alnum c \<or> c = 43 \<or> c = 47"
proof -
  from assms(2) obtain v where v: "v \<in> set (sextets s)" "c = b64_char v"
    by (auto simp: b64_text_def)
  with assms(1) have "0 \<le> v \<and> v < 64" by (auto simp: list_all_iff intro!: sextets_range)
  with v show ?thesis by (auto dest: b64_char_alnum)
qed

lemma alnum_not:
  "alnum c \<Longrightarrow> c \<noteq> 61 \<and> c \<noteq> 45 \<and> c \<noteq> 95 \<and> c \<noteq> 43 \<and> c \<noteq> 47 \<and> c \<noteq> 37 \<and> \<not> ascii_ws c"
  by (auto simp: alnum_def ascii_ws_def)

lemma b64_text_facts:
  assumes "list_all is_byte s" and "c \<in> set (b64_text s)"
  shows "c \<noteq> 61" "c \<noteq> 45" "c \<noteq> 95" "\<not> ascii_ws c"
  using b64_text_chars[OF assms] alnum_not[of c] by (auto simp: ascii_ws_def)

lemma btoa_bytes:
  assumes "list_all is_byte s"
  shows "btoa s = Some (b64_text s @ replicate (pad_count (length (b64_text s))) 61)"
proof -
  have "list_all (\<lambda>c. c < 256) s" using assms by (auto simp: list_all_iff is_byte_def)
  then show ?thesis by (simp add: btoa_def b64_text_def Let_def)
qed

lemma atob_padded:
  assumes "list_all is_byte s"
  shows "atob (b64_text s @ replicate (pad_count (length (b64_text s))) 61) = Some s"
proof -
  let ?q = "b64_text s" and ?k = "pad_count (length (b64_text s))"
  have f: "filter (\<lambda>c. \<not> ascii_ws c) (?q @ replicate ?k 61) = ?q @ replicate ?k 61"
    using b64_text_facts(4)[OF assms] by (auto simp: ascii_ws_def filter_id_conv)
  have l: "length ?q mod 4 \<noteq> 1" using length_sextets by (simp add: b64_text_def)
  have p: "strip_padding (?q @ replicate ?k 61) = ?q"
    using b64_text_facts(1)[OF assms] l by (intro strip_padding_pad) auto
  have "map_opt b64_val ?q = Some (sextets s)"
    unfolding b64_text_def using sextets_all[OF assms] by (intro map_opt_b64) (simp add: list_all_iff)
  moreover have "octets (sextets s) = s"
    using assms by (intro octets_sextets) (simp add: list_all_iff)
  ultimately show ?thesis using l unfolding atob_def f by (simp add: Let_def p)
qed

lemma atob_btoa [roundtrip]: "list_all is_byte s \<Longrightarrow> btoa s = Some t \<Longrightarrow> atob t = Some s"
  using atob_padded by (auto simp: btoa_bytes)

lemma replace_cu_inverse:
  "\<forall>c\<in>set s. c \<noteq> 45 \<and> c \<noteq> 95 \<Longrightarrow>
   replace_cu 95 47 (replace_cu 45 43 (replace_cu 47 95 (replace_cu 43 45 s))) = s"
  by (induction s) (auto simp: replace_cu_def)

lemma strip_trailing_replicate:
  "\<forall>x\<in>set s. x \<noteq> c \<Longrightarrow> strip_trailing c (s @ replicate n c) = s"
proof -
  assume a: "\<forall>x\<in>set s. x \<noteq> c"
  have "dropWhile (\<lambda>x. x = c) (replicate n c @ rev s) = rev s"
    using a by (intro dropWhile_stop) (auto simp: hd_rev)
  then show ?thesis by (simp add: strip_trailing_def)
qed

lemma padding_count: "(4 - n mod 4) mod 4 = pad_count n"
  by (simp add: pad_count_def)

lemma to_url_alphabet_text:
  assumes "list_all is_byte s"
  shows "to_url_alphabet (b64_text s @ replicate n 61) = replace_cu 47 95 (replace_cu 43 45 (b64_text s))"
proof -
  have "replace_cu 47 95 (replace_cu 43 45 (b64_text s @ replicate n 61))
     = replace_cu 47 95 (replace_cu 43 45 (b64_text s)) @ replicate n 61"
    by (simp add: replace_cu_def)
  moreover have "\<forall>x\<in>set (replace_cu 47 95 (replace_cu 43 45 (b64_text s))). x \<noteq> 61"
    using b64_text_facts(1)[OF assms] by (auto simp: replace_cu_def)
  ultimately show ?thesis by (simp add: to_url_alphabet_def strip_trailing_replicate)
qed

lemma from_url_alphabet_text:
  assumes "list_all is_byte s"
  shows "from_url_alphabet (replace_cu 47 95 (replace_cu 43 45 (b64_text s)))
       = b64_text s @ replicate (pad_count (length (b64_text s))) 61"
proof -
  have "replace_cu 95 47 (replace_cu 45 43 (replace_cu 47 95 (replace_cu 43 45 (b64_text s)))) = b64_text s"
    using b64_text_facts(2,3)[OF assms] by (intro replace_cu_inverse) auto
  moreover have "concat (replicate n (js ''='')) = replicate n 61" for n
    by (induction n) (simp_all add: js_def)
  ultimately show ?thesis
    by (simp add: from_url_alphabet_def padright_def Let_def padding_count)
qed

theorem b64safe_inverse [roundtrip]:
  "list_all is_byte s \<Longrightarrow> b64encsafe s = Some t \<Longrightarrow> b64decsafe t = Some s"
  by (auto simp: b64encsafe_def b64decsafe_def btoa_bytes to_url_alphabet_text
      from_url_alphabet_text atob_padded)

lemma b64encsafe_bytes: "list_all is_byte s \<Longrightarrow> \<exists>t. b64encsafe s = Some t"
  by (simp add: b64encsafe_def btoa_bytes)

lemma url_alphabet_unreserved:
  "list_all is_byte s \<Longrightarrow> c \<in> set (replace_cu 47 95 (replace_cu 43 45 (b64_text s))) \<Longrightarrow> unreserved c"
  by (auto simp: replace_cu_def unreserved_def dest: b64_text_chars)

lemma b64encsafe_unreserved [js_safe]:
  "list_all is_byte s \<Longrightarrow> b64encsafe s = Some t \<Longrightarrow> \<forall>c\<in>set t. unreserved c"
  by (auto simp: b64encsafe_def btoa_bytes to_url_alphabet_text url_alphabet_unreserved)

section \<open>The UTF-8 pair\<close>

lemma upper_hex_digit: "0 \<le> d \<Longrightarrow> d < 16 \<Longrightarrow> upper_hex (hex_digit d)"
  by (auto simp: upper_hex_def hex_digit_def)

lemma replace_escapes_pct: "is_byte b \<Longrightarrow> replace_escapes (pct_byte b @ r) = b # replace_escapes r"
  using nibbles[of b] by (simp add: pct_byte_def hex_val_digit upper_hex_digit)

lemma replace_escapes_other: "c \<noteq> 37 \<Longrightarrow> replace_escapes (c # r) = c # replace_escapes r"
proof (cases r)
  case (Cons h t)
  then show "c \<noteq> 37 \<Longrightarrow> ?thesis" by (cases t) auto
qed simp

lemma replace_escapes_bytes:
  "\<forall>b\<in>set bs. is_byte b \<Longrightarrow> replace_escapes (concat (map pct_byte bs) @ r) = bs @ replace_escapes r"
  by (induction bs) (simp_all add: replace_escapes_pct)

lemma utf8_unreserved: "unreserved p \<Longrightarrow> utf8 p = [p]"
  by (auto simp: utf8_def unreserved_def alnum_def)

lemma replace_escapes_point:
  assumes "scalar p"
  shows "replace_escapes (enc_point p @ r) = utf8 p @ replace_escapes r"
proof (cases "unreserved p")
  case True
  with assms show ?thesis
    by (simp add: enc_point_def utf8_unreserved utf16_unescaped replace_escapes_other)
next
  case False
  have "\<forall>b\<in>set (utf8 p). is_byte b" using assms by (auto intro: utf8_bytes)
  from replace_escapes_bytes[OF this] False show ?thesis by (simp add: enc_point_def)
qed

text \<open>\<open>encodeURIComponent\<close> followed by the replacement is the UTF-8 encoding.\<close>

lemma replace_escapes_points:
  "\<forall>p\<in>set ps. scalar p \<Longrightarrow> replace_escapes (concat (map enc_point ps)) = concat (map utf8 ps)"
  by (induction ps) (simp_all add: replace_escapes_point)

lemma escape_octet_eq:
  "is_byte b \<Longrightarrow> escape_octet b = 37 # hex_digit_lower (b div 16) # hex_digit_lower (b mod 16) # []"
  by (auto simp: escape_octet_def hex_string_def js_def hex_digit_lower_def Let_def is_byte_def)

lemma pct_escape_octet: "is_byte b \<Longrightarrow> pct (escape_octet b @ r) = Some (b, r)"
  using pct_lower[of b r] by (simp add: escape_octet_eq)

lemma decode_utf8:
  "\<forall>p\<in>set ps. scalar p \<Longrightarrow>
   decodeURIComponent (concat (map escape_octet (concat (map utf8 ps)))) = Some (concat (map utf16 ps))"
proof (induction ps)
  case (Cons p ps)
  then have p: "scalar p" by simp
  have "decodeURIComponent (concat (map escape_octet (utf8 p)) @ r)
      = map_option ((@) (utf16 p)) (decodeURIComponent r)" for r
    using p by (rule decode_pct_points[OF pct_escape_octet, rotated 2]) (auto simp: escape_octet_eq)
  with Cons show ?case by simp
qed simp

lemma b64EncodeUnicode_eq:
  assumes "units s" and "b64EncodeUnicode s = Some t"
  obtains ps where "code_points s = Some ps" "list_all is_byte (concat (map utf8 ps))"
    "btoa (concat (map utf8 ps)) = Some t"
proof -
  from assms(2) obtain ps where ps: "code_points s = Some ps"
    and t: "btoa (replace_escapes (concat (map enc_point ps))) = Some t"
    by (auto simp: b64EncodeUnicode_def encodeURIComponent_def split: bind_splits)
  have sc: "\<forall>p\<in>set ps. scalar p" using code_points_scalar[OF assms(1) ps] by simp
  then have "list_all is_byte (concat (map utf8 ps))"
    by (auto simp: list_all_iff intro: utf8_bytes)
  with that[OF ps] t sc show ?thesis by (simp add: replace_escapes_points)
qed

theorem b64unicode_inverse [roundtrip]:
  assumes "units s" and "b64EncodeUnicode s = Some t"
  shows "b64DecodeUnicode t = Some s"
proof -
  from assms obtain ps where ps: "code_points s = Some ps"
    and b: "list_all is_byte (concat (map utf8 ps))" "btoa (concat (map utf8 ps)) = Some t"
    by (rule b64EncodeUnicode_eq)
  with code_points_scalar[OF assms(1) ps] show ?thesis
    by (simp add: b64DecodeUnicode_def atob_btoa[OF b] decode_utf8)
qed

theorem b64utf8safe_inverse [roundtrip]:
  assumes "units s" and "b64encutf8safe s = Some t"
  shows "b64decutf8safe t = Some s"
proof -
  from assms(2) obtain u where u: "b64EncodeUnicode s = Some u" "t = to_url_alphabet u"
    by (auto simp: b64encutf8safe_def)
  from assms(1) u(1) obtain ps where ps: "code_points s = Some ps"
    and b: "list_all is_byte (concat (map utf8 ps))" "btoa (concat (map utf8 ps)) = Some u"
    by (rule b64EncodeUnicode_eq)
  then have "from_url_alphabet t = u"
    using u(2) by (auto simp: btoa_bytes to_url_alphabet_text[OF b(1)] from_url_alphabet_text[OF b(1)])
  then show ?thesis using b64unicode_inverse[OF assms(1) u(1)] by (simp add: b64decutf8safe_def)
qed

lemma b64encutf8safe_unreserved [js_safe]:
  assumes "units s" and "b64encutf8safe s = Some t"
  shows "\<forall>c\<in>set t. unreserved c"
proof -
  from assms(2) obtain u where u: "b64EncodeUnicode s = Some u" "t = to_url_alphabet u"
    by (auto simp: b64encutf8safe_def)
  from assms(1) u(1) obtain ps where b: "list_all is_byte (concat (map utf8 ps))"
      "btoa (concat (map utf8 ps)) = Some u"
    by (rule b64EncodeUnicode_eq)
  then have "b64encsafe (concat (map utf8 ps)) = Some t" by (simp add: b64encsafe_def u(2))
  with b(1) show ?thesis by (rule b64encsafe_unreserved)
qed

lemma b64EncodeUnicode_defined: "well_formed s \<Longrightarrow> \<exists>t. b64EncodeUnicode s = Some t"
proof -
  assume w: "well_formed s"
  then obtain ps where ps: "code_points s = Some ps" and u: "units s" by (auto simp: well_formed_def)
  have sc: "\<forall>p\<in>set ps. scalar p" using code_points_scalar[OF u ps] by simp
  then have "list_all is_byte (concat (map utf8 ps))"
    by (auto simp: list_all_iff intro: utf8_bytes)
  with ps sc show ?thesis
    by (simp add: b64EncodeUnicode_def encodeURIComponent_def replace_escapes_points btoa_bytes)
qed

end
