(* ===== verification/Js_Object.thy ===== *)
theory Js_Object
  imports Js_String
begin

text \<open>
  Plain ECMAScript objects used as dictionaries: association lists in creation order with
  distinct keys. \<open>own_entries\<close> is the order \<open>for (key in o)\<close> visits own
  properties in: array indices ascending, then the other keys in creation order. The names every
  object inherits from \<open>Object.prototype\<close> matter to this program twice: they are truthy
  in a lookup table, and an own property called \<open>hasOwnProperty\<close> makes the next
  \<open>o.hasOwnProperty(...)\<close> throw a \<open>TypeError\<close>.
\<close>

type_synonym 'v obj = "(jstr \<times> 'v) list"

definition obj_get :: "'v obj \<Rightarrow> jstr \<Rightarrow> 'v option" where
  "obj_get ob k = map_of ob k"

definition has_key :: "'v obj \<Rightarrow> jstr \<Rightarrow> bool" where
  "has_key ob k \<longleftrightarrow> k \<in> set (map fst ob)"

fun obj_put :: "'v obj \<Rightarrow> jstr \<Rightarrow> 'v \<Rightarrow> 'v obj" where
  "obj_put [] k v = [(k, v)]"
| "obj_put ((k', v') # ob) k v = (if k' = k then (k, v) # ob else (k', v') # obj_put ob k v)"

text \<open>
  \<open>o[k] = v\<close>. Assigning \<open>__proto__\<close> never creates an own property: it calls the
  inherited setter, which ignores a string, and no lookup of this program sees a prototype that is
  an array.
\<close>

definition obj_set :: "'v obj \<Rightarrow> jstr \<Rightarrow> 'v \<Rightarrow> 'v obj" where
  "obj_set ob k v = (if k = js ''__proto__'' then ob else obj_put ob k v)"

section \<open>Enumeration order\<close>

definition is_digit :: "cu \<Rightarrow> bool" where
  "is_digit c \<longleftrightarrow> 48 \<le> c \<and> c \<le> 57"

definition dec_value :: "jstr \<Rightarrow> int" where
  "dec_value s = fold (\<lambda>c n. 10 * n + (c - 48)) s 0"

text \<open>An array index: a canonical decimal numeral below \<open>2^32 - 1\<close>.\<close>

definition array_index :: "jstr \<Rightarrow> bool" where
  "array_index s \<longleftrightarrow> s \<noteq> [] \<and> list_all is_digit s \<and> (s = [48] \<or> hd s \<noteq> 48) \<and> dec_value s < 4294967295"

definition own_entries :: "'v obj \<Rightarrow> (jstr \<times> 'v) list" where
  "own_entries ob = sort_key (\<lambda>(k, v). dec_value k) (filter (\<lambda>(k, v). array_index k) ob)
     @ filter (\<lambda>(k, v). \<not> array_index k) ob"

section \<open>Inherited names\<close>

definition proto_names :: "jstr list" where
  "proto_names = map js [''constructor'', ''__defineGetter__'', ''__defineSetter__'', ''hasOwnProperty'',
     ''__lookupGetter__'', ''__lookupSetter__'', ''isPrototypeOf'', ''propertyIsEnumerable'',
     ''toString'', ''valueOf'', ''__proto__'', ''toLocaleString'']"

text \<open>\<open>table[k]\<close> as a truth value, for a literal table whose values are all \<open>true\<close>.\<close>

definition in_table :: "string list \<Rightarrow> jstr \<Rightarrow> bool" where
  "in_table ks k \<longleftrightarrow> k \<in> set (map js ks) \<or> k \<in> set proto_names"

text \<open>\<open>table[k] === true\<close>: inherited names do not count.\<close>

definition strictly_in_table :: "string list \<Rightarrow> jstr \<Rightarrow> bool" where
  "strictly_in_table ks k \<longleftrightarrow> k \<in> set (map js ks)"

definition callable_has_own :: "'v obj \<Rightarrow> bool" where
  "callable_has_own ob \<longleftrightarrow> \<not> has_key ob (js ''hasOwnProperty'')"

text \<open>\<open>o.hasOwnProperty(k)\<close>; \<open>None\<close> is the \<open>TypeError\<close>.\<close>

definition has_own :: "'v obj \<Rightarrow> jstr \<Rightarrow> bool option" where
  "has_own ob k = (if callable_has_own ob then Some (has_key ob k) else None)"

section \<open>Facts\<close>

lemma obj_get_Nil [simp]: "obj_get [] k = None"
  by (simp add: obj_get_def)

lemma obj_get_Cons: "obj_get ((k', v) # ob) k = (if k' = k then Some v else obj_get ob k)"
  by (simp add: obj_get_def)

lemma obj_get_put: "obj_get (obj_put ob k v) k' = (if k' = k then Some v else obj_get ob k')"
  by (induction ob k v rule: obj_put.induct) (auto simp: obj_get_def)

lemma obj_get_set:
  "obj_get (obj_set ob k v) k' = (if k' = k \<and> k \<noteq> js ''__proto__'' then Some v else obj_get ob k')"
  by (auto simp: obj_set_def obj_get_put)

lemma keys_obj_put: "set (map fst (obj_put ob k v)) = insert k (set (map fst ob))"
  by (induction ob k v rule: obj_put.induct) auto

lemma distinct_obj_put: "distinct (map fst ob) \<Longrightarrow> distinct (map fst (obj_put ob k v))"
  by (induction ob k v rule: obj_put.induct) (auto simp flip: set_map simp: keys_obj_put simp del: set_map)

lemma distinct_obj_set: "distinct (map fst ob) \<Longrightarrow> distinct (map fst (obj_set ob k v))"
  by (simp add: obj_set_def distinct_obj_put)

lemma obj_put_fresh: "k \<notin> set (map fst ob) \<Longrightarrow> obj_put ob k v = ob @ [(k, v)]"
  by (induction ob k v rule: obj_put.induct) auto

lemma has_key_get: "has_key ob k \<longleftrightarrow> obj_get ob k \<noteq> None"
  by (simp add: has_key_def obj_get_def map_of_eq_None_iff)

lemma set_own_entries: "set (own_entries ob) = set ob"
  by (auto simp: own_entries_def)

lemma distinct_own_entries:
  assumes "distinct (map fst ob)"
  shows "distinct (map fst (own_entries ob))"
proof -
  let ?P = "\<lambda>(k, v). array_index k"
  have "distinct (map fst (filter ?P ob))" "distinct (map fst (filter (\<lambda>x. \<not> ?P x) ob))"
    using assms by (auto simp: distinct_map_filter)
  moreover have "distinct (map fst (sort_key (\<lambda>(k, v). dec_value k) (filter ?P ob)))"
    using calculation(1) by (metis (no_types, lifting) distinct_map distinct_sort set_sort)
  moreover have "fst ` set (filter ?P ob) \<inter> fst ` set (filter (\<lambda>x. \<not> ?P x) ob) = {}"
    by auto
  ultimately show ?thesis by (simp add: own_entries_def case_prod_unfold)
qed

lemma obj_get_member: "distinct (map fst ob) \<Longrightarrow> obj_get ob k = Some v \<longleftrightarrow> (k, v) \<in> set ob"
  by (simp add: obj_get_def map_of_eq_Some_iff)

lemma obj_get_ext:
  assumes "distinct (map fst a)" "distinct (map fst b)" "set a = set b"
  shows "obj_get a k = obj_get b k"
proof (cases "obj_get b k")
  case None
  then have "k \<notin> fst ` set a" using assms(3) by (simp add: obj_get_def map_of_eq_None_iff)
  then have "obj_get a k = None" by (metis obj_get_def map_of_eq_None_iff)
  with None show ?thesis by simp
next
  case (Some v)
  then show ?thesis using assms by (metis obj_get_member)
qed

lemma obj_get_own_entries:
  "distinct (map fst ob) \<Longrightarrow> obj_get (own_entries ob) k = obj_get ob k"
  by (rule obj_get_ext) (simp_all add: distinct_own_entries set_own_entries)

lemma own_entries_plain:
  assumes "\<forall>k\<in>set (map fst ob). \<not> array_index k"
  shows "own_entries ob = ob"
proof -
  have "filter (\<lambda>(k, v). array_index k) ob = []"
    and "filter (\<lambda>(k, v). \<not> array_index k) ob = ob"
    using assms by (auto simp: filter_empty_conv filter_id_conv)
  then show ?thesis by (simp add: own_entries_def)
qed

lemma fold_obj_put:
  "distinct (map fst ms) \<Longrightarrow> fst ` set ms \<inter> fst ` set acc = {} \<Longrightarrow>
   fold (\<lambda>(k, v) ob. obj_put ob k v) ms acc = acc @ ms"
proof (induction ms arbitrary: acc)
  case (Cons m ms)
  obtain k v where m: "m = (k, v)" by (cases m)
  have "obj_put acc k v = acc @ [(k, v)]" using Cons.prems m by (intro obj_put_fresh) force
  then show ?case using Cons m by auto
qed simp

end
