(* ===== verification/Query_String.thy ===== *)
theory Query_String
  imports Uri_Component Js_Object
begin

text \<open>
  The query-string layer of \<open>server_url.js\<close>: \<open>parseQuery\<close> (97-132),
  \<open>queryMapToString\<close> (634-643), \<open>isYamlListLikeKey\<close> (645-652),
  \<open>decodeURIComponentSafe\<close> (388-395), and \<open>decodeFragment\<close> (83-95). An
  exception that leaves the function is \<open>None\<close>.
\<close>

section \<open>decodeURIComponentSafe and decodeFragment\<close>

definition decodeURIComponentSafe :: "jstr \<Rightarrow> jstr" where
  "decodeURIComponentSafe value = (case decodeURIComponent value of Some d \<Rightarrow> d | None \<Rightarrow> value)"

text \<open>
  The loop decodes until nothing changes; a decoding error ends it with the last string that
  decoded. It ends because a changing step shrinks the string.
\<close>

function decode_loop :: "jstr \<Rightarrow> jstr" where
  "decode_loop fragment =
     (case decodeURIComponent fragment of
        None \<Rightarrow> fragment
      | Some decoded \<Rightarrow> if decoded = fragment then fragment else decode_loop decoded)"
  by pat_completeness auto
termination
  by (relation "measure length") (auto dest: decode_uri_shrinks)

declare decode_loop.simps [simp del]

definition decodeFragment :: "jstr \<Rightarrow> jstr" where
  "decodeFragment fragment = (if \<not> truthy fragment then [] else decode_loop fragment)"

lemma decode_loop_final:
  "decodeURIComponent (decode_loop s) = None \<or> decodeURIComponent (decode_loop s) = Some (decode_loop s)"
proof (induction s rule: decode_loop.induct)
  case (1 s)
  show ?case
  proof (cases "decodeURIComponent s")
    case None
    then show ?thesis by (simp add: decode_loop.simps[of s])
  next
    case (Some d)
    with 1 show ?thesis by (cases "d = s") (simp_all add: decode_loop.simps[of s])
  qed
qed

lemma decode_loop_fixed:
  "decodeURIComponent s = None \<or> decodeURIComponent s = Some s \<Longrightarrow> decode_loop s = s"
  by (subst decode_loop.simps) auto

lemma decode_loop_step: "decodeURIComponent s = Some t \<Longrightarrow> decode_loop s = decode_loop t"
  by (subst decode_loop.simps) (auto simp: decode_loop_fixed)

lemma decode_loop_length: "length (decode_loop s) \<le> length s"
proof (induction s rule: decode_loop.induct)
  case (1 s)
  show ?case
  proof (cases "decodeURIComponent s")
    case (Some d)
    with 1 decode_uri_shrinks[OF Some] show ?thesis
      by (cases "d = s") (auto simp: decode_loop.simps[of s])
  qed (simp add: decode_loop.simps[of s])
qed

text \<open>A string the loop leaves alone: it has no decodable escape sequence structure.\<close>

definition stable :: "jstr \<Rightarrow> bool" where
  "stable s \<longleftrightarrow> decodeURIComponent s = None \<or> decodeURIComponent s = Some s"

lemma stable_no_percent: "37 \<notin> set s \<Longrightarrow> stable s"
  by (simp add: stable_def decode_uri_id)

lemma decodeFragment_encoded:
  assumes "units s" "stable s" "encodeURIComponent s = Some t"
  shows "decodeFragment t = s"
proof -
  have "decodeURIComponent t = Some s" using assms(1,3) by (rule decode_encode_uri)
  then have "decode_loop t = s"
    using assms(2) by (auto simp: decode_loop_step stable_def decode_loop_fixed)
  then show ?thesis
    using encode_nonempty[OF assms(3)] by (auto simp: decodeFragment_def truthy_def)
qed

section \<open>parseQuery\<close>

definition yaml_list_like :: "string list" where
  "yaml_list_like = [''alpn'', ''dns'', ''host-key'', ''host-key-algorithms'']"

definition isYamlListLikeKey :: "jstr \<Rightarrow> bool" where
  "isYamlListLikeKey key \<longleftrightarrow> strictly_in_table yaml_list_like key"

text \<open>
  One parameter. A key that does not decode is kept as written (the \<open>catch\<close>); a repeated
  key keeps the last value, or joins the values with a comma for the list-like keys. When an
  earlier parameter was called \<open>hasOwnProperty\<close>, the call throws in the \<open>try\<close> and
  again in the \<open>catch\<close>, and leaves the function.
\<close>

definition parse_param :: "jstr \<Rightarrow> jstr obj \<Rightarrow> jstr obj option" where
  "parse_param p query =
     (case index_of (js ''='') p of
        None \<Rightarrow> Some query
      | Some i \<Rightarrow>
          let key = decodeURIComponentSafe (take i p);
              value = drop (i + 1) p
          in do {
            owned \<leftarrow> has_own query key;
            Some (obj_set query key
              (case obj_get query key of
                 Some old \<Rightarrow>
                   if owned \<and> (isYamlListLikeKey key \<or> key = js ''port'' \<or> key = js ''protocol'')
                   then old @ js '','' @ value else value
               | None \<Rightarrow> value))
          })"

definition parseQuery :: "jstr \<Rightarrow> jstr obj option" where
  "parseQuery search =
     (if 1 < length search then fold_opt parse_param (js_split (js ''&'') (drop 1 search)) []
      else Some [])"

section \<open>queryMapToString\<close>

definition enc_pair :: "jstr \<times> jstr \<Rightarrow> jstr option" where
  "enc_pair kv = do {
     k \<leftarrow> encodeURIComponent (fst kv);
     v \<leftarrow> encodeURIComponent (snd kv);
     Some (k @ js ''='' @ v)
   }"

definition queryMapToString :: "jstr obj \<Rightarrow> jstr option" where
  "queryMapToString queryMap =
     (if queryMap \<noteq> [] \<and> \<not> callable_has_own queryMap then None
      else map_option (js_join (js ''&''))
             (map_opt enc_pair (filter (\<lambda>(k, v). truthy v) (own_entries queryMap))))"

section \<open>Parsing what was printed\<close>

text \<open>
  Keys a query object can carry faithfully: well-formed, and neither \<open>__proto__\<close> nor
  \<open>hasOwnProperty\<close>.
\<close>

definition plain_key :: "jstr \<Rightarrow> bool" where
  "plain_key k \<longleftrightarrow> units k \<and> k \<noteq> js ''__proto__'' \<and> k \<noteq> js ''hasOwnProperty''"

lemma js_amp [simp]: "js ''&'' = [38]" "js ''='' = [61]" "js '','' = [44]" "js ''%'' = [37]"
  by (simp_all add: js_def)

lemma uri_safe_not: "uri_safe c \<Longrightarrow> c \<noteq> 38 \<and> c \<noteq> 61 \<and> c \<noteq> 35 \<and> c \<noteq> 63 \<and> c \<noteq> 47 \<and> c \<noteq> 58 \<and> c \<noteq> 64 \<and> c \<noteq> 44"
  by (auto simp: uri_safe_def unreserved_def alnum_def)

lemma encoded_chars:
  "units s \<Longrightarrow> encodeURIComponent s = Some t \<Longrightarrow>
   38 \<notin> set t \<and> 61 \<notin> set t \<and> 35 \<notin> set t \<and> 63 \<notin> set t \<and> 47 \<notin> set t \<and> 58 \<notin> set t \<and> 64 \<notin> set t \<and> 44 \<notin> set t"
  using encode_uri_safe[of s t] uri_safe_not by blast

lemma decode_safe_encoded [roundtrip]:
  "units s \<Longrightarrow> encodeURIComponent s = Some t \<Longrightarrow> decodeURIComponentSafe t = s"
  by (simp add: decodeURIComponentSafe_def decode_encode_uri)

lemma index_of_eq_encoded:
  "units s \<Longrightarrow> encodeURIComponent s = Some k \<Longrightarrow> index_of [61] (k @ 61 # v) = Some (length k)"
proof -
  assume "units s" "encodeURIComponent s = Some k"
  then have "61 \<notin> set k" using encoded_chars by blast
  then have "takeWhile (\<lambda>x. x \<noteq> 61) (k @ 61 # v) = k" by (intro takeWhile_stop) auto
  then show ?thesis by (simp add: index_of_single)
qed

lemma parse_param_fresh:
  assumes "plain_key k" "encodeURIComponent k = Some k'" "k \<notin> set (map fst q)" "callable_has_own q"
  shows "parse_param (k' @ 61 # v) q = Some (q @ [(k, v)])"
    and "callable_has_own (q @ [(k, v)])"
proof -
  have u: "units k" using assms(1) by (simp add: plain_key_def)
  have "obj_get q k = None"
    using assms(3) by (simp add: obj_get_def map_of_eq_None_iff)
  then show "parse_param (k' @ 61 # v) q = Some (q @ [(k, v)])"
    using assms u
    by (simp add: parse_param_def index_of_eq_encoded[OF u assms(2)] decode_safe_encoded[OF u assms(2)]
        Let_def has_own_def obj_set_def plain_key_def obj_put_fresh)
  show "callable_has_own (q @ [(k, v)])"
    using assms by (auto simp: callable_has_own_def has_key_def plain_key_def)
qed

lemma enc_pair_Some:
  "enc_pair (k, v) = Some p \<longleftrightarrow>
   (\<exists>k' v'. encodeURIComponent k = Some k' \<and> encodeURIComponent v = Some v' \<and> p = k' @ 61 # v')"
  by (auto simp: enc_pair_def split: bind_splits)

lemma parse_params:
  assumes "map_opt enc_pair es = Some ps" "\<forall>k\<in>set (map fst es). plain_key k"
    "distinct (map fst (q @ es))" "callable_has_own q"
  shows "fold_opt parse_param ps q = Some (q @ map (\<lambda>(k, v). (k, the (encodeURIComponent v))) es)"
  using assms
proof (induction es arbitrary: q ps)
  case (Cons e es)
  obtain k v where e: "e = (k, v)" by (cases e)
  from Cons.prems(1) e obtain k' v' ps' where enc: "encodeURIComponent k = Some k'" "encodeURIComponent v = Some v'"
    and ps: "ps = (k' @ 61 # v') # ps'" "map_opt enc_pair es = Some ps'"
    by (auto simp: enc_pair_Some split: option.splits)
  have k: "plain_key k" "k \<notin> set (map fst q)" using Cons.prems e by auto
  note fresh = parse_param_fresh[OF k(1) enc(1) k(2) Cons.prems(4), of v']
  have "fold_opt parse_param ps' (q @ [(k, v')])
      = Some ((q @ [(k, v')]) @ map (\<lambda>(k, v). (k, the (encodeURIComponent v))) es)"
    using Cons.prems e ps(2) fresh(2) by (intro Cons.IH) auto
  with fresh(1) ps e enc show ?case by simp
qed simp

lemma enc_pair_no_amp:
  assumes "enc_pair (k, v) = Some p" "units k" "units v"
  shows "38 \<notin> set p"
proof -
  from assms(1) obtain k' v' where "encodeURIComponent k = Some k'" "encodeURIComponent v = Some v'"
    "p = k' @ 61 # v'" by (auto simp: enc_pair_Some)
  with assms(2,3) encoded_chars[of k k'] encoded_chars[of v v'] show ?thesis by auto
qed

text \<open>The entries a printed query carries: the ones with a non-empty value.\<close>

definition printed_entries :: "jstr obj \<Rightarrow> (jstr \<times> jstr) list" where
  "printed_entries q = filter (\<lambda>(k, v). truthy v) (own_entries q)"

definition plain_query :: "jstr obj \<Rightarrow> bool" where
  "plain_query q \<longleftrightarrow> distinct (map fst q) \<and> (\<forall>(k, v)\<in>set q. plain_key k \<and> units v)"

lemma parse_print_query:
  assumes "plain_query q" and "queryMapToString q = Some t"
  shows "parseQuery (63 # t) = Some (map (\<lambda>(k, v). (k, the (encodeURIComponent v))) (printed_entries q))"
proof -
  let ?es = "printed_entries q"
  from assms obtain ps where ps: "map_opt enc_pair ?es = Some ps" and t: "t = js_join [38] ps"
    by (auto simp: queryMapToString_def printed_entries_def split: if_splits)
  have keys: "\<forall>k\<in>set (map fst ?es). plain_key k"
    and vals: "\<forall>(k, v)\<in>set ?es. units k \<and> units v"
    using assms(1) by (auto simp: printed_entries_def set_own_entries plain_query_def plain_key_def)
  have dist: "distinct (map fst ([] @ ?es))"
    using assms(1) distinct_own_entries[of q]
    by (auto simp: printed_entries_def plain_query_def distinct_map_filter)
  have own: "callable_has_own ([] :: jstr obj)" by (simp add: callable_has_own_def has_key_def)
  note parsed = parse_params[OF ps keys dist own]
  show ?thesis
  proof (cases "?es = []")
    case True
    with ps t show ?thesis by (simp add: parseQuery_def)
  next
    case False
    have amp: "\<forall>p\<in>set ps. 38 \<notin> set p"
      using map_opt_mem[OF ps] vals by (fastforce dest: enc_pair_no_amp)
    from ps False have "ps \<noteq> []" by (cases ?es) (auto split: option.splits)
    moreover have "t \<noteq> []"
      using ps False t by (cases ?es) (auto simp: enc_pair_Some split: option.splits intro: js_join_nonempty)
    ultimately show ?thesis using parsed amp t
      by (simp add: parseQuery_def js_split_join Suc_lessI)
  qed
qed

text \<open>The lookups of the parsed object: encoded values, and nothing else.\<close>

lemma parse_print_lookup:
  assumes "plain_query q" and "queryMapToString q = Some t"
  shows "\<exists>q'. parseQuery (63 # t) = Some q' \<and>
    (\<forall>k. obj_get q' k = (case obj_get q k of
       Some v \<Rightarrow> if truthy v then Some (the (encodeURIComponent v)) else None | None \<Rightarrow> None))"
proof -
  let ?q' = "map (\<lambda>(k, v). (k, the (encodeURIComponent v))) (printed_entries q)"
  have d: "distinct (map fst q)" using assms(1) by (simp add: plain_query_def)
  have d': "distinct (map fst ?q')"
    using distinct_own_entries[OF d] by (simp add: printed_entries_def distinct_map_filter comp_def case_prod_unfold)
  have "obj_get ?q' k = (case obj_get q k of
       Some v \<Rightarrow> if truthy v then Some (the (encodeURIComponent v)) else None | None \<Rightarrow> None)" for k
  proof -
    have iff: "obj_get ?q' k = Some w \<longleftrightarrow> (\<exists>v. obj_get q k = Some v \<and> truthy v \<and> w = the (encodeURIComponent v))" for w
      unfolding obj_get_member[OF d'] obj_get_member[OF d]
      by (auto simp: printed_entries_def set_own_entries)
    show ?thesis
      by (cases "obj_get ?q' k") (use iff in \<open>force split: option.splits\<close>)+
  qed
  with parse_print_query[OF assms] show ?thesis by blast
qed

end
