(* ===== verification/Js_Regex.thy ===== *)
theory Js_Regex
  imports Js_String
begin

text \<open>
  Backtracking regular expressions with captures, as far as the program's expressions need
  them. \<open>re_run\<close> lists the ways to match a prefix in the order the backtracking matcher
  of ECMAScript tries them (greedy repetitions longest first, an optional part before its absence,
  an alternative before the next), each with the rest of the input and the captures; a match is the
  first of them.
\<close>

type_synonym caps = "nat \<Rightarrow> jstr option"

datatype re =
    Chr "cu \<Rightarrow> bool"           \<comment> \<open>one unit of a class\<close>
  | Many "cu \<Rightarrow> bool"          \<comment> \<open>\<open>[...]*\<close>\<close>
  | Many1 "cu \<Rightarrow> bool"         \<comment> \<open>\<open>[...]+\<close>\<close>
  | Cat re re
  | Opt re                       \<comment> \<open>\<open>(?:r)?\<close>\<close>
  | Grp nat re                   \<comment> \<open>capturing group\<close>
  | End                          \<comment> \<open>\<open>$\<close>\<close>
  | Alt re re                    \<comment> \<open>\<open>a|b\<close>\<close>

fun re_run :: "re \<Rightarrow> jstr \<times> caps \<Rightarrow> (jstr \<times> caps) list" where
  "re_run (Chr P) (s, c) = (case s of [] \<Rightarrow> [] | x # t \<Rightarrow> if P x then [(t, c)] else [])"
| "re_run (Many P) (s, c) = map (\<lambda>n. (drop n s, c)) (rev [0..<Suc (length (takeWhile P s))])"
| "re_run (Many1 P) (s, c) = map (\<lambda>n. (drop n s, c)) (rev [1..<Suc (length (takeWhile P s))])"
| "re_run (Cat a b) x = concat (map (re_run b) (re_run a x))"
| "re_run (Opt a) (s, c) = filter (\<lambda>y. length (fst y) < length s) (re_run a (s, c)) @ [(s, c)]"
| "re_run (Grp i a) (s, c) =
     map (\<lambda>(t, d). (t, d(i := Some (take (length s - length t) s)))) (re_run a (s, c))"
| "re_run End (s, c) = (if s = [] then [(s, c)] else [])"
| "re_run (Alt a b) x = re_run a x @ re_run b x"

definition re_first :: "re \<Rightarrow> jstr \<times> caps \<Rightarrow> (jstr \<times> caps) option" where
  "re_first r x = (case re_run r x of [] \<Rightarrow> None | y # _ \<Rightarrow> Some y)"

text \<open>\<open>s.match(/^r/)\<close>: the captures of the first match.\<close>

definition re_match :: "re \<Rightarrow> jstr \<Rightarrow> caps option" where
  "re_match r s = map_option snd (re_first r (s, \<lambda>_. None))"

lemma re_first_None: "re_first r x = None \<longleftrightarrow> re_run r x = []"
  by (auto simp: re_first_def split: list.splits)

lemma re_first_member: "re_first r x = Some y \<Longrightarrow> y \<in> set (re_run r x)"
  unfolding re_first_def by (cases "re_run r x") simp_all

lemma re_first_Cat:
  "re_first a x = Some y \<Longrightarrow> re_first b y = Some z \<Longrightarrow> re_first (Cat a b) x = Some z"
  by (auto simp: re_first_def split: list.splits)

lemma re_run_Cat_member:
  "y \<in> set (re_run (Cat a b) x) \<longleftrightarrow> (\<exists>t d. (t, d) \<in> set (re_run a x) \<and> y \<in> set (re_run b (t, d)))"
  by auto

lemma concat_map_assoc:
  "concat (map f (concat (map g xs))) = concat (map (\<lambda>x. concat (map f (g x))) xs)"
  by (induction xs) simp_all

lemma re_run_Cat_assoc: "re_run (Cat (Cat a b) d) x = re_run (Cat a (Cat b d)) x"
proof -
  have "re_run (Cat b d) = (\<lambda>x. concat (map (re_run d) (re_run b x)))"
    by (rule ext) simp
  then show ?thesis by (simp add: concat_map_assoc)
qed

lemma re_first_Cat_assoc: "re_first (Cat (Cat a b) d) x = re_first (Cat a (Cat b d)) x"
  by (simp add: re_first_def re_run_Cat_assoc del: re_run.simps)

lemma re_first_Grp:
  "re_first (Grp i a) (s, c) =
     map_option (\<lambda>(t, d). (t, d(i := Some (take (length s - length t) s)))) (re_first a (s, c))"
  by (auto simp: re_first_def split: list.splits)

lemma re_first_Opt_some:
  "re_first a (s, c) = Some (t, d) \<Longrightarrow> length t < length s \<Longrightarrow> re_first (Opt a) (s, c) = Some (t, d)"
  by (auto simp: re_first_def split: list.splits)

lemma re_first_Opt_none: "re_first a (s, c) = None \<Longrightarrow> re_first (Opt a) (s, c) = Some (s, c)"
  by (auto simp: re_first_def split: list.splits)

lemma re_first_Chr: "re_first (Chr P) (s, c) = (case s of [] \<Rightarrow> None | x # t \<Rightarrow> if P x then Some (t, c) else None)"
  by (auto simp: re_first_def split: list.splits)

lemma re_first_Many: "re_first (Many P) (s, c) = Some (dropWhile P s, c)"
  by (simp add: re_first_def drop_length_takeWhile)

lemma re_first_End: "re_first End (s, c) = (if s = [] then Some (s, c) else None)"
  by (simp add: re_first_def)

text \<open>
  A greedy repetition followed by \<open>b\<close> stops at the longest prefix after which \<open>b\<close>
  matches.
\<close>

lemma first_concat_map_rev:
  assumes "n0 \<le> m" and "f n0 \<noteq> []" and "\<And>n. n0 < n \<Longrightarrow> n \<le> m \<Longrightarrow> f n = []"
  shows "\<exists>ys. concat (map f (rev [0..<Suc m])) = f n0 @ ys"
  using assms
proof (induction m)
  case 0
  then show ?case by simp
next
  case (Suc m)
  show ?case
  proof (cases "n0 = Suc m")
    case True
    then show ?thesis by simp
  next
    case False
    with Suc.prems have "n0 \<le> m" "f (Suc m) = []" by auto
    with Suc show ?thesis by simp
  qed
qed

lemma re_first_Grp_Many:
  assumes "n0 \<le> length (takeWhile P s)"
    and "re_first b (drop n0 s, c(i := Some (take n0 s))) = Some z"
    and "\<And>n. n0 < n \<Longrightarrow> n \<le> length (takeWhile P s) \<Longrightarrow> re_first b (drop n s, c(i := Some (take n s))) = None"
  shows "re_first (Cat (Grp i (Many P)) b) (s, c) = Some z"
proof -
  let ?f = "\<lambda>n. re_run b (drop n s, c(i := Some (take n s)))"
  have le: "n \<le> length (takeWhile P s) \<Longrightarrow> length s - (length s - n) = n" for n
    using length_takeWhile_le[of P s] by linarith
  have "concat (map (re_run b) (re_run (Grp i (Many P)) (s, c)))
      = concat (map ?f (rev [0..<Suc (length (takeWhile P s))]))"
    by (rule arg_cong[where f = concat]) (auto simp: le simp del: upt_Suc)
  moreover obtain ys where "concat (map ?f (rev [0..<Suc (length (takeWhile P s))])) = ?f n0 @ ys"
    using first_concat_map_rev[of n0 "length (takeWhile P s)" ?f] assms
    by (auto simp: re_first_None simp flip: re_first_None)
  ultimately show ?thesis using assms(2)
    by (auto simp: re_first_def split: list.splits)
qed

lemma re_first_Grp_Many_none:
  assumes "\<And>n. n \<le> length (takeWhile P s) \<Longrightarrow> re_first b (drop n s, c(i := Some (take n s))) = None"
  shows "re_first (Cat (Grp i (Many P)) b) (s, c) = None"
proof -
  have le: "n \<le> length (takeWhile P s) \<Longrightarrow> length s - (length s - n) = n" for n
    using length_takeWhile_le[of P s] by linarith
  show ?thesis using assms by (auto simp: re_first_None le less_Suc_eq_le simp del: upt_Suc)
qed

section \<open>Parts that cannot consume a given unit\<close>

text \<open>
  When no class of \<open>r\<close> contains \<open>x\<close>, every match of \<open>r\<close> leaves the input
  from the first \<open>x\<close> on untouched.
\<close>

fun avoids :: "cu \<Rightarrow> re \<Rightarrow> bool" where
  "avoids x (Chr P) \<longleftrightarrow> \<not> P x"
| "avoids x (Many P) \<longleftrightarrow> \<not> P x"
| "avoids x (Many1 P) \<longleftrightarrow> \<not> P x"
| "avoids x (Cat a b) \<longleftrightarrow> avoids x a \<and> avoids x b"
| "avoids x (Opt a) \<longleftrightarrow> avoids x a"
| "avoids x (Grp i a) \<longleftrightarrow> avoids x a"
| "avoids x End \<longleftrightarrow> True"
| "avoids x (Alt a b) \<longleftrightarrow> avoids x a \<and> avoids x b"

lemma dropWhile_drop_takeWhile:
  "\<not> P x \<Longrightarrow> n \<le> length (takeWhile P s) \<Longrightarrow> dropWhile (\<lambda>y. y \<noteq> x) (drop n s) = dropWhile (\<lambda>y. y \<noteq> x) s"
proof (induction n arbitrary: s)
  case (Suc n)
  then obtain a t where "s = a # t" by (cases s) auto
  with Suc show ?case by (auto split: if_splits)
qed simp

lemma avoids_keeps:
  "avoids x r \<Longrightarrow> (t, d) \<in> set (re_run r (s, c)) \<Longrightarrow> dropWhile (\<lambda>y. y \<noteq> x) t = dropWhile (\<lambda>y. y \<noteq> x) s"
proof (induction r arbitrary: s c t d)
  case (Cat a b)
  then show ?case by fastforce
next
  case (Many P)
  then show ?case by (auto simp: dropWhile_drop_takeWhile less_Suc_eq_le simp del: upt_Suc)
next
  case (Many1 P)
  then show ?case by (auto simp: dropWhile_drop_takeWhile less_Suc_eq_le simp del: upt_Suc)
qed (auto split: list.splits if_splits)

end
