(* ===== verification/Url_Parse.thy ===== *)
theory Url_Parse
  imports Js_Regex Query_String
begin

text \<open>
  \<open>parseUrl\<close> of \<open>server_url.js\<close> (46-81). \<open>parseUrl_re\<close> is the code's
  regular expression, group by group; \<open>parseUrl\<close> is a direct scanner, which the import
  functions use; \<open>parseUrl_eq\<close> proves them equal. When the expression does not match
  (a line terminator in the fragment) the code asks the platform's \<open>URL\<close> constructor, which
  is the parameter \<open>new_url\<close> (\<open>None\<close> is its exception).
\<close>

record url =
  u_hash :: jstr
  u_host :: jstr
  u_hostname :: jstr
  u_href :: jstr
  u_origin :: jstr
  u_pathname :: jstr
  u_port :: jstr
  u_protocol :: jstr
  u_search :: jstr
  u_username :: jstr
  u_password :: jstr

section \<open>The regular expression\<close>

text \<open>The class of \<open>[^:\/?#]\<close>, and the dot.\<close>

definition word_cu :: "cu \<Rightarrow> bool" where
  "word_cu c \<longleftrightarrow> c \<noteq> 58 \<and> c \<noteq> 47 \<and> c \<noteq> 63 \<and> c \<noteq> 35"

definition dot :: "cu \<Rightarrow> bool" where
  "dot c \<longleftrightarrow> \<not> is_lt c"

definition scheme_re :: re where
  "scheme_re = Grp 2 (Cat (Many1 word_cu) (Chr (\<lambda>c. c = 58)))"

definition userinfo_re :: re where
  "userinfo_re = Cat (Cat (Grp 4 (Many word_cu)) (Opt (Cat (Chr (\<lambda>c. c = 58)) (Grp 5 (Many word_cu))))) (Chr (\<lambda>c. c = 64))"

definition hostport_re :: re where
  "hostport_re = Cat (Grp 6 (Many word_cu)) (Opt (Cat (Chr (\<lambda>c. c = 58)) (Grp 7 (Many word_cu))))"

definition origin_re :: re where
  "origin_re = Grp 1 (Cat (Opt scheme_re)
     (Cat (Chr (\<lambda>c. c = 47)) (Cat (Chr (\<lambda>c. c = 47)) (Grp 3 (Cat (Opt userinfo_re) hostport_re)))))"

definition tail_re :: re where
  "tail_re = Cat (Grp 8 (Many (\<lambda>c. c \<noteq> 63 \<and> c \<noteq> 35)))
     (Cat (Opt (Grp 9 (Cat (Chr (\<lambda>c. c = 63)) (Many (\<lambda>c. c \<noteq> 35)))))
       (Cat (Opt (Grp 10 (Cat (Chr (\<lambda>c. c = 35)) (Many dot)))) End))"

definition url_re :: re where
  "url_re = Cat (Opt origin_re) tail_re"

definition grp :: "caps \<Rightarrow> nat \<Rightarrow> jstr" where
  "grp m i = (case m i of Some s \<Rightarrow> s | None \<Rightarrow> [])"

definition url_of_match :: "caps \<Rightarrow> jstr \<Rightarrow> url" where
  "url_of_match m s =
     \<lparr>u_hash = grp m 10, u_host = grp m 3, u_hostname = grp m 6, u_href = s, u_origin = grp m 1,
      u_pathname = or_else (grp m 8) (if truthy (grp m 1) then js ''/'' else []),
      u_port = grp m 7, u_protocol = grp m 2, u_search = grp m 9,
      u_username = grp m 4, u_password = grp m 5\<rparr>"

definition parseUrl_re :: "(jstr \<Rightarrow> url option) \<Rightarrow> jstr \<Rightarrow> url option" where
  "parseUrl_re new_url s =
     (case re_match url_re s of
        None \<Rightarrow> new_url s
      | Some m \<Rightarrow> Some (url_of_match m s))"

section \<open>The direct scanner\<close>

definition before_last :: "cu \<Rightarrow> jstr \<Rightarrow> jstr" where
  "before_last c s = rev (drop 1 (dropWhile (\<lambda>x. x \<noteq> c) (rev s)))"

definition scheme_length :: "jstr \<Rightarrow> nat option" where
  "scheme_length s =
     (let a = takeWhile word_cu s in
      if a \<noteq> [] \<and> starts_with (js ''://'') (dropWhile word_cu s) then Some (length a + 1)
      else if starts_with (js ''//'') s then Some 0 else None)"

text \<open>User name and password of an authority, when an at sign ends them, and what follows.\<close>

definition userinfo :: "jstr \<Rightarrow> (jstr \<times> jstr option \<times> jstr) option" where
  "userinfo r =
     (let u = takeWhile word_cu r; r1 = dropWhile word_cu r in
      if r1 \<noteq> [] \<and> hd r1 = 58 \<and> 64 \<in> set (takeWhile word_cu (tl r1)) then
        (let p = before_last 64 (takeWhile word_cu (tl r1))
         in Some (u, Some p, drop (length u + 1 + length p + 1) r))
      else if 64 \<in> set u then
        (let u' = before_last 64 u in Some (u', None, drop (length u' + 1) r))
      else None)"

text \<open>Host name, port, and the rest after the authority.\<close>

definition hostport :: "jstr \<Rightarrow> jstr \<times> jstr option \<times> jstr" where
  "hostport r =
     (let h = takeWhile word_cu r; r1 = dropWhile word_cu r in
      if r1 \<noteq> [] \<and> hd r1 = 58 then (h, Some (takeWhile word_cu (tl r1)), dropWhile word_cu (tl r1))
      else (h, None, r1))"

definition fragment_ok :: "jstr \<Rightarrow> bool" where
  "fragment_ok s \<longleftrightarrow> list_all (\<lambda>c. \<not> is_lt c) (dropWhile (\<lambda>c. c \<noteq> 35) s)"

text \<open>The captures of the scan, by group number.\<close>

definition tail_caps :: "jstr \<Rightarrow> caps \<Rightarrow> caps" where
  "tail_caps r m =
     (let m8 = m(8 := Some (takeWhile (\<lambda>c. c \<noteq> 63 \<and> c \<noteq> 35) r));
          r9 = dropWhile (\<lambda>c. c \<noteq> 63 \<and> c \<noteq> 35) r;
          m9 = (if r9 \<noteq> [] \<and> hd r9 = 63 then m8(9 := Some (takeWhile (\<lambda>c. c \<noteq> 35) r9)) else m8);
          r10 = dropWhile (\<lambda>c. c \<noteq> 35) r9
      in if r10 \<noteq> [] then m9(10 := Some r10) else m9)"

definition authority_caps :: "jstr \<Rightarrow> caps \<Rightarrow> jstr \<times> caps" where
  "authority_caps r m =
     (let (m5, r2) = (case userinfo r of
                        None \<Rightarrow> (m, r)
                      | Some (u, None, r2) \<Rightarrow> (m(4 := Some u), r2)
                      | Some (u, Some p, r2) \<Rightarrow> (m(4 := Some u, 5 := Some p), r2));
          (h, port, r3) = hostport r2;
          m6 = m5(6 := Some h);
          m7 = (case port of None \<Rightarrow> m6 | Some p \<Rightarrow> m6(7 := Some p))
      in (r3, m7(3 := Some (take (length r - length r3) r))))"

definition origin_caps :: "jstr \<Rightarrow> jstr \<times> caps" where
  "origin_caps s =
     (case scheme_length s of
        None \<Rightarrow> (s, \<lambda>_. None)
      | Some n \<Rightarrow>
          let m2 = (if n = 0 then (\<lambda>_. None) else (\<lambda>_. None)(2 := Some (take n s)));
              (r, m) = authority_caps (drop (n + 2) s) m2
          in (r, m(1 := Some (take (length s - length r) s))))"

definition parseUrl :: "(jstr \<Rightarrow> url option) \<Rightarrow> jstr \<Rightarrow> url option" where
  "parseUrl new_url s =
     (if fragment_ok s then (let (r, m) = origin_caps s in Some (url_of_match (tail_caps r m) s))
      else new_url s)"

section \<open>The scanner computes the first match\<close>

lemma tail_first:
  assumes "fragment_ok s"
  shows "re_first tail_re (s, m) = Some ([], tail_caps s m)"
proof -
  let ?P = "\<lambda>c::cu. c \<noteq> 63 \<and> c \<noteq> 35"
  define r9 where "r9 = dropWhile ?P s"
  define m8 where "m8 = m(8 := Some (takeWhile ?P s))"
  define m9 where "m9 = (if r9 \<noteq> [] \<and> hd r9 = 63 then m8(9 := Some (takeWhile (\<lambda>c. c \<noteq> 35) r9)) else m8)"
  define r10 where "r10 = dropWhile (\<lambda>c::cu. c \<noteq> 35) r9"
  have frag: "r10 = dropWhile (\<lambda>c. c \<noteq> 35) s"
    unfolding r10_def r9_def
    by (rule dropWhile_dropWhile_until) simp
  have 8: "re_first (Grp 8 (Many ?P)) (s, m) = Some (r9, m8)"
    by (simp add: re_first_Grp re_first_Many r9_def m8_def take_minus_dropWhile)
  have 9: "re_first (Opt (Grp 9 (Cat (Chr (\<lambda>c. c = 63)) (Many (\<lambda>c. c \<noteq> 35))))) (r9, m8) = Some (r10, m9)"
  proof (cases "r9 \<noteq> [] \<and> hd r9 = 63")
    case True
    then obtain t where t: "r9 = 63 # t" by (cases r9) auto
    have "re_first (Cat (Chr (\<lambda>c. c = 63)) (Many (\<lambda>c. c \<noteq> 35))) (r9, m8) = Some (r10, m8)"
      by (rule re_first_Cat[of _ _ "(t, m8)"]) (simp_all add: t re_first_Chr re_first_Many r10_def)
    moreover have "length r10 < length r9" using t length_dropWhile_le[of "\<lambda>c. c \<noteq> 35" t] by (simp add: r10_def)
    ultimately show ?thesis
      by (intro re_first_Opt_some) (simp_all add: re_first_Grp m9_def t r10_def take_Suc_minus_dropWhile)
  next
    case False
    then have "r9 = [] \<or> hd r9 = 35"
      using hd_dropWhile[of ?P s] unfolding r9_def by blast
    then have "r10 = r9" by (auto simp: r10_def dropWhile_id)
    moreover have "re_first (Cat (Chr (\<lambda>c. c = 63)) (Many (\<lambda>c. c \<noteq> 35))) (r9, m8) = None"
      using False by (cases r9) (simp_all add: re_first_None)
    ultimately show ?thesis
      using False by (auto intro!: re_first_Opt_none simp: m9_def re_first_Grp)
  qed
  have 10: "re_first (Cat (Opt (Grp 10 (Cat (Chr (\<lambda>c. c = 35)) (Many dot)))) End) (r10, m9)
      = Some ([], tail_caps s m)"
  proof -
    have tc: "tail_caps s m = (if r10 \<noteq> [] then m9(10 := Some r10) else m9)"
      by (simp add: tail_caps_def r10_def m9_def m8_def r9_def Let_def)
    show ?thesis
    proof (cases "r10 = []")
      case True
      have "re_first (Opt (Grp 10 (Cat (Chr (\<lambda>c. c = 35)) (Many dot)))) (r10, m9) = Some (r10, m9)"
        by (rule re_first_Opt_none) (simp add: True re_first_None)
      then show ?thesis using True
        by (intro re_first_Cat[of _ _ "([], m9)"]) (simp_all add: re_first_End tc)
    next
      case False
      then have h: "hd r10 = 35" using hd_dropWhile[of "\<lambda>c. c \<noteq> 35" s] frag by auto
      with False obtain t where t: "r10 = 35 # t" by (cases r10) auto
      have dots: "dropWhile dot t = []"
        using assms unfolding fragment_ok_def frag[symmetric] t by (simp add: dot_def list_all_iff)
      have "re_first (Cat (Chr (\<lambda>c. c = 35)) (Many dot)) (r10, m9) = Some ([], m9)"
        by (rule re_first_Cat[of _ _ "(t, m9)"]) (simp_all add: t re_first_Chr re_first_Many dots)
      then have "re_first (Opt (Grp 10 (Cat (Chr (\<lambda>c. c = 35)) (Many dot)))) (r10, m9)
          = Some ([], m9(10 := Some r10))"
        using t by (intro re_first_Opt_some) (simp_all add: re_first_Grp)
      then show ?thesis using False
        by (intro re_first_Cat[of _ _ "([], m9(10 := Some r10))"]) (simp_all add: re_first_End tc)
    qed
  qed
  show ?thesis unfolding tail_re_def
    by (rule re_first_Cat[OF 8 re_first_Cat[OF 9 10]])
qed

lemma hash_end:
  assumes "\<not> (t = [] \<or> (\<exists>u. t = 35 # u \<and> list_all dot u))"
  shows "re_run (Cat (Opt (Grp 10 (Cat (Chr (\<lambda>c. c = 35)) (Many dot)))) End) (t, d) = []"
proof -
  obtain x u where t: "t = x # u" using assms by (cases t) auto
  show ?thesis
  proof (cases "x = 35")
    case True
    with assms t have "\<not> list_all dot u" by simp
    then have "\<not> length u \<le> length (takeWhile dot u)"
      by (auto simp: list_all_iff dest: takeWhile_full)
    with t True show ?thesis by (auto simp: less_Suc_eq_le simp del: upt_Suc)
  qed (simp add: t)
qed

lemma is_lt_35: "\<not> is_lt 35"
  by (simp add: is_lt_def)

lemma tail_none:
  assumes "\<not> fragment_ok s"
  shows "re_run tail_re (s, m) = []"
proof (rule ccontr)
  assume "re_run tail_re (s, m) \<noteq> []"
  then obtain y where "y \<in> set (re_run tail_re (s, m))" by (cases "re_run tail_re (s, m)") auto
  then obtain t1 d1 t d where
    t1: "(t1, d1) \<in> set (re_run (Grp 8 (Many (\<lambda>c. c \<noteq> 63 \<and> c \<noteq> 35))) (s, m))"
    and t: "(t, d) \<in> set (re_run (Opt (Grp 9 (Cat (Chr (\<lambda>c. c = 63)) (Many (\<lambda>c. c \<noteq> 35))))) (t1, d1))"
    and y: "y \<in> set (re_run (Cat (Opt (Grp 10 (Cat (Chr (\<lambda>c. c = 35)) (Many dot)))) End) (t, d))"
    unfolding tail_re_def
    re_run_Cat_member[of y "Grp 8 (Many (\<lambda>c. c \<noteq> 63 \<and> c \<noteq> 35))"]
    re_run_Cat_member[of y "Opt (Grp 9 (Cat (Chr (\<lambda>c. c = 63)) (Many (\<lambda>c. c \<noteq> 35))))"]
    by blast
  have "dropWhile (\<lambda>y. y \<noteq> 35) t1 = dropWhile (\<lambda>y. y \<noteq> 35) s"
    using t1 by (rule avoids_keeps[rotated]) simp
  moreover have "dropWhile (\<lambda>y. y \<noteq> 35) t = dropWhile (\<lambda>y. y \<noteq> 35) t1"
    using t by (rule avoids_keeps[rotated]) simp
  ultimately have "dropWhile (\<lambda>y. y \<noteq> 35) t = dropWhile (\<lambda>y. y \<noteq> 35) s" by simp
  with assms have "\<not> fragment_ok t" by (simp add: fragment_ok_def)
  moreover have "t = [] \<or> (\<exists>u. t = 35 # u \<and> list_all dot u)"
  proof (rule ccontr)
    assume "\<not> (t = [] \<or> (\<exists>u. t = 35 # u \<and> list_all dot u))"
    from hash_end[OF this, of d] y show False by (simp del: re_run.simps)
  qed
  moreover have "t = [] \<or> (\<exists>u. t = 35 # u \<and> list_all dot u) \<Longrightarrow> fragment_ok t"
    unfolding fragment_ok_def dot_def by (auto simp: is_lt_35 list_all_iff)
  ultimately show False by blast
qed


lemma re_first_Cat_Opt:
  assumes "\<And>y. y \<in> set (re_run a (s, c)) \<Longrightarrow> length (fst y) < length s"
  shows "re_first (Cat (Opt a) b) (s, c) =
    (case re_first (Cat a b) (s, c) of Some z \<Rightarrow> Some z | None \<Rightarrow> re_first b (s, c))"
proof -
  have "filter (\<lambda>y. length (fst y) < length s) (re_run a (s, c)) = re_run a (s, c)"
    using assms by (simp add: filter_id_conv)
  then have "re_run (Cat (Opt a) b) (s, c) = re_run (Cat a b) (s, c) @ re_run b (s, c)"
    by simp
  then show ?thesis unfolding re_first_def
    by (auto simp del: re_run.simps split: list.splits)
qed

lemma re_first_Cat_Chr:
  "re_first (Cat (Chr P) b) (s, c) = (case s of [] \<Rightarrow> None | x # t \<Rightarrow> if P x then re_first b (t, c) else None)"
  by (auto simp: re_first_def split: list.splits)

lemma before_last_split:
  assumes "x \<in> set l"
  shows "\<exists>r. l = before_last x l @ x # r \<and> x \<notin> set r"
proof -
  from assms obtain a r where l: "l = a @ x # r" and r: "x \<notin> set r"
    by (meson split_list_last)
  have "before_last x l = a"
    unfolding before_last_def l using r by (simp add: dropWhile_append2 dropWhile_append)
  with l r show ?thesis by metis
qed

text \<open>A greedy class that contains \<open>x\<close>, followed by \<open>x\<close>, stops at its last \<open>x\<close>.\<close>

lemma re_first_until_last:
  assumes "P x"
  shows "re_first (Cat (Grp i (Many P)) (Chr (\<lambda>c. c = x))) (s, m) =
    (if x \<in> set (takeWhile P s)
     then let p = before_last x (takeWhile P s) in Some (drop (length p + 1) s, m(i := Some p))
     else None)"
proof (cases "x \<in> set (takeWhile P s)")
  case True
  define p where "p = before_last x (takeWhile P s)"
  from before_last_split[OF True] obtain r where
    r: "takeWhile P s = p @ x # r" "x \<notin> set r" unfolding p_def by blast
  have s: "s = p @ x # r @ dropWhile P s"
    by (metis append.assoc append_Cons r(1) takeWhile_dropWhile_id)
  have no: "re_first (Chr (\<lambda>c. c = x)) (drop n s, m(i := Some (take n s))) = None"
    if "length p < n" "n \<le> length (takeWhile P s)" for n
  proof -
    have "hd (drop n s) \<noteq> x \<or> drop n s = []"
    proof (cases "n = length (takeWhile P s)")
      case True
      then have "drop n s = dropWhile P s" by (simp add: drop_length_takeWhile)
      then show ?thesis using assms hd_dropWhile[of P s] by auto
    next
      case False
      define k where "k = n - length p - 1"
      have n: "n = length p + Suc k" "k < length r"
        using that False r(1) by (auto simp: k_def)
      have "drop n s = drop k (r @ dropWhile P s)"
        by (subst s) (simp add: n)
      then have "hd (drop n s) = r ! k"
        using n by (simp add: hd_drop_conv_nth nth_append)
      then show ?thesis using r(2) n by auto
    qed
    then show ?thesis by (cases "drop n s") (auto simp: re_first_Chr)
  qed
  have "re_first (Cat (Grp i (Many P)) (Chr (\<lambda>c. c = x))) (s, m) =
      Some (drop (length p + 1) s, m(i := Some p))"
  proof (rule re_first_Grp_Many[of "length p"])
    show "length p \<le> length (takeWhile P s)" using r by simp
    have tk: "take (length p) s = p" "drop (length p) s = x # drop (length p + 1) s"
      by (subst s, simp, subst (1 2) s, simp)
    then show "re_first (Chr (\<lambda>c. c = x)) (drop (length p) s, m(i := Some (take (length p) s))) =
      Some (drop (length p + 1) s, m(i := Some p))" by (simp add: re_first_Chr)
  qed (rule no)
  then show ?thesis using True by (simp add: p_def Let_def)
next
  case False
  have "re_first (Cat (Grp i (Many P)) (Chr (\<lambda>c. c = x))) (s, m) = None"
  proof (rule re_first_Grp_Many_none)
    fix n assume n: "n \<le> length (takeWhile P s)"
    have "hd (drop n s) \<noteq> x \<or> drop n s = []"
    proof (cases "n = length (takeWhile P s)")
      case True
      then have "drop n s = dropWhile P s" by (simp add: drop_length_takeWhile)
      then show ?thesis using assms hd_dropWhile[of P s] by auto
    next
      case neq: False
      with n have "n < length (takeWhile P s)" by simp
      then have "n < length s" "s ! n = takeWhile P s ! n"
        using length_takeWhile_le[of P s] by (auto simp: takeWhile_nth)
      then show ?thesis using False \<open>n < length (takeWhile P s)\<close>
        by (metis hd_drop_conv_nth nth_mem)
    qed
    then show "re_first (Chr (\<lambda>c. c = x)) (drop n s, m(i := Some (take n s))) = None"
      by (cases "drop n s") (auto simp: re_first_Chr)
  qed
  with False show ?thesis by simp
qed

lemma re_first_Cat_cong:
  assumes "\<And>y. y \<in> set (re_run a x) \<Longrightarrow> re_first b y = re_first b' y"
  shows "re_first (Cat a b) x = re_first (Cat a b') x"
proof -
  let ?h = "\<lambda>ys. case ys of [] \<Rightarrow> None | z # _ \<Rightarrow> Some z"
  have app: "?h (xs @ zs) = (case ?h xs of None \<Rightarrow> ?h zs | Some z \<Rightarrow> Some z)"
    for xs zs :: "(jstr \<times> caps) list"
    by (cases xs) auto
  have "?h (concat (map (re_run b) ys)) = ?h (concat (map (re_run b') ys))"
    if "\<forall>y\<in>set ys. re_first b y = re_first b' y" for ys
    using that
  proof (induction ys)
    case (Cons y ys)
    then have 1: "?h (re_run b y) = ?h (re_run b' y)" by (simp add: re_first_def)
    from Cons have 2: "?h (concat (map (re_run b) ys)) = ?h (concat (map (re_run b') ys))" by simp
    show ?case by (simp only: list.map concat.simps app 1 2)
  qed simp
  with assms show ?thesis by (simp add: re_first_def)
qed

lemma re_run_Grp_Many:
  "set (re_run (Grp i (Many P)) (s, c)) = {(drop n s, c(i := Some (take n s))) | n. n \<le> length (takeWhile P s)}"
proof -
  have le: "n \<le> length (takeWhile P s) \<Longrightarrow> length s - (length s - n) = n" for n
    using length_takeWhile_le[of P s] by linarith
  show ?thesis by (auto simp: le image_iff less_Suc_eq_le simp del: upt_Suc)
qed

definition pass_at :: re where
  "pass_at = Cat (Opt (Cat (Chr (\<lambda>c. c = 58)) (Grp 5 (Many word_cu)))) (Chr (\<lambda>c. c = 64))"

lemma word_64 [simp]: "word_cu 64" and word_58 [simp]: "\<not> word_cu 58"
  by (simp_all add: word_cu_def)

lemma pass_first:
  "re_first pass_at (t, c) =
    (if t \<noteq> [] \<and> hd t = 58 \<and> 64 \<in> set (takeWhile word_cu (tl t))
     then let p = before_last 64 (takeWhile word_cu (tl t)) in Some (drop (length p + 1) (tl t), c(5 := Some p))
     else re_first (Chr (\<lambda>c. c = 64)) (t, c))"
proof -
  have shorter: "length (fst y) < length t"
    if "y \<in> set (re_run (Cat (Chr (\<lambda>c. c = 58)) (Grp 5 (Many word_cu))) (t, c))" for y
    using that by (cases t) (auto split: if_splits)
  have "re_first (Cat (Cat (Chr (\<lambda>c. c = 58)) (Grp 5 (Many word_cu))) (Chr (\<lambda>c. c = 64))) (t, c) =
    (case t of [] \<Rightarrow> None | x # u \<Rightarrow>
      if x = 58 \<and> 64 \<in> set (takeWhile word_cu u)
      then let p = before_last 64 (takeWhile word_cu u) in Some (drop (length p + 1) u, c(5 := Some p))
      else None)"
    unfolding re_first_Cat_assoc re_first_Cat_Chr
    by (cases t) (simp_all add: re_first_until_last)
  moreover have "re_first pass_at (t, c) =
      (case re_first (Cat (Cat (Chr (\<lambda>c. c = 58)) (Grp 5 (Many word_cu))) (Chr (\<lambda>c. c = 64))) (t, c) of
         Some z \<Rightarrow> Some z | None \<Rightarrow> re_first (Chr (\<lambda>c. c = 64)) (t, c))"
    unfolding pass_at_def by (rule re_first_Cat_Opt) (rule shorter)
  ultimately show ?thesis by (cases t) (simp_all add: Let_def)
qed

lemma userinfo_first:
  "re_first userinfo_re (r, m) =
    (case userinfo r of
       None \<Rightarrow> None
     | Some (u, None, r2) \<Rightarrow> Some (r2, m(4 := Some u))
     | Some (u, Some p, r2) \<Rightarrow> Some (r2, m(4 := Some u, 5 := Some p)))"
proof -
  define u where "u = takeWhile word_cu r"
  define r1 where "r1 = dropWhile word_cu r"
  have eq: "re_first userinfo_re (r, m) = re_first (Cat (Grp 4 (Many word_cu)) pass_at) (r, m)"
    unfolding userinfo_re_def re_first_Cat_assoc pass_at_def ..
  show ?thesis
  proof (cases "r1 \<noteq> [] \<and> hd r1 = 58 \<and> 64 \<in> set (takeWhile word_cu (tl r1))")
    case True
    define p where "p = before_last 64 (takeWhile word_cu (tl r1))"
    have d: "drop (length u + 1 + length p + 1) r = drop (length p + 1) (tl r1)"
    proof -
      have "r1 = drop (length u) r" by (simp add: r1_def u_def drop_length_takeWhile)
      then have "tl r1 = drop (length u + 1) r" by (metis Suc_eq_plus1 drop_Suc tl_drop)
      then show ?thesis by (simp add: add.commute add.left_commute)
    qed
    have "re_first (Cat (Grp 4 (Many word_cu)) pass_at) (r, m) =
        Some (drop (length p + 1) (tl r1), m(4 := Some u, 5 := Some p))"
    proof (rule re_first_Grp_Many[of "length u"])
      have tk: "drop (length u) r = r1" "take (length u) r = u"
        by (simp_all add: u_def r1_def drop_length_takeWhile take_length_takeWhile)
      show "re_first pass_at (drop (length u) r, m(4 := Some (take (length u) r))) =
          Some (drop (length p + 1) (tl r1), m(4 := Some u, 5 := Some p))"
        using True by (simp add: pass_first tk p_def Let_def)
    qed (simp_all add: u_def)
    moreover have "userinfo r = Some (u, Some p, drop (length u + 1 + length p + 1) r)"
      using True by (simp add: userinfo_def u_def r1_def p_def Let_def)
    ultimately show ?thesis using d by (simp add: eq)
  next
    case False
    have chr: "re_first pass_at y = re_first (Chr (\<lambda>c. c = 64)) y"
      if y: "y \<in> set (re_run (Grp 4 (Many word_cu)) (r, m))" for y
    proof -
      from y obtain n where n: "n \<le> length u" and y': "y = (drop n r, m(4 := Some (take n r)))"
        unfolding re_run_Grp_Many u_def by blast
      have "\<not> (drop n r \<noteq> [] \<and> hd (drop n r) = 58 \<and> 64 \<in> set (takeWhile word_cu (tl (drop n r))))"
      proof (cases "n = length u")
        case True
        then have "drop n r = r1" by (simp add: u_def r1_def drop_length_takeWhile)
        with False show ?thesis by simp
      next
        case neq: False
        with n have lt: "n < length u" by simp
        then have "n < length r" "r ! n = u ! n"
          using length_takeWhile_le[of word_cu r] by (auto simp: u_def takeWhile_nth)
        moreover have "word_cu (u ! n)"
          using lt nth_mem[OF lt] set_takeWhileD unfolding u_def by fast
        ultimately show ?thesis by (auto simp: hd_drop_conv_nth)
      qed
      then show ?thesis unfolding y' pass_first by (rule if_not_P)
    qed
    have "re_first userinfo_re (r, m) = re_first (Cat (Grp 4 (Many word_cu)) (Chr (\<lambda>c. c = 64))) (r, m)"
      unfolding eq by (rule re_first_Cat_cong) (rule chr)
    with False show ?thesis
      by (auto simp: re_first_until_last userinfo_def u_def r1_def Let_def)
  qed
qed

lemma hostport_first:
  "re_first hostport_re (r, m) =
    (let (h, port, r3) = hostport r in
     Some (r3, (case port of None \<Rightarrow> m(6 := Some h) | Some p \<Rightarrow> m(6 := Some h, 7 := Some p))))"
proof -
  define h where "h = takeWhile word_cu r"
  define r1 where "r1 = dropWhile word_cu r"
  have 6: "re_first (Grp 6 (Many word_cu)) (r, m) = Some (r1, m(6 := Some h))"
    by (simp add: re_first_Grp re_first_Many r1_def h_def take_minus_dropWhile)
  show ?thesis
  proof (cases "r1 \<noteq> [] \<and> hd r1 = 58")
    case True
    then obtain t where t: "r1 = 58 # t" by (cases r1) auto
    have "re_first (Cat (Chr (\<lambda>c. c = 58)) (Grp 7 (Many word_cu))) (r1, m(6 := Some h))
        = Some (dropWhile word_cu t, m(6 := Some h, 7 := Some (takeWhile word_cu t)))"
      by (simp add: re_first_Cat_Chr t re_first_Grp re_first_Many take_minus_dropWhile)
    then have "re_first (Opt (Cat (Chr (\<lambda>c. c = 58)) (Grp 7 (Many word_cu)))) (r1, m(6 := Some h))
        = Some (dropWhile word_cu t, m(6 := Some h, 7 := Some (takeWhile word_cu t)))"
      by (rule re_first_Opt_some) (simp add: t less_Suc_eq_le length_dropWhile_le)
    from re_first_Cat[OF 6 this] show ?thesis
      unfolding hostport_re_def hostport_def h_def[symmetric] r1_def[symmetric] by (simp add: t)
  next
    case False
    then have "re_first (Cat (Chr (\<lambda>c. c = 58)) (Grp 7 (Many word_cu))) (r1, m(6 := Some h)) = None"
      by (cases r1) (simp_all add: re_first_Cat_Chr)
    from re_first_Cat[OF 6 re_first_Opt_none[OF this]] show ?thesis using False
      unfolding hostport_re_def hostport_def h_def[symmetric] r1_def[symmetric] by (auto simp: Let_def)
  qed
qed

lemma before_last_length: "x \<in> set l \<Longrightarrow> length (before_last x l) < length l"
  using before_last_split[of x l] by (metis length_append length_Cons less_add_Suc1 add_Suc_right)

lemma userinfo_shorter:
  assumes "userinfo r = Some (u, p, r2)"
  shows "length r2 < length r"
proof -
  have "r \<noteq> []" using assms by (auto simp: userinfo_def)
  then show ?thesis using assms
    by (auto simp: userinfo_def Let_def split: if_splits)
qed

lemma authority_first:
  "re_first (Grp 3 (Cat (Opt userinfo_re) hostport_re)) (r, m) = Some (authority_caps r m)"
proof -
  have 1: "re_first (Opt userinfo_re) (r, m) =
    (case userinfo r of
       None \<Rightarrow> Some (r, m)
     | Some (u, None, r2) \<Rightarrow> Some (r2, m(4 := Some u))
     | Some (u, Some p, r2) \<Rightarrow> Some (r2, m(4 := Some u, 5 := Some p)))"
  proof (cases "userinfo r")
    case None
    then show ?thesis using userinfo_first[of r m] by (simp add: re_first_Opt_none)
  next
    case (Some x)
    obtain u p r2 where x: "x = (u, p, r2)" by (cases x) auto
    with Some have "length r2 < length r" by (simp add: userinfo_shorter)
    with Some x userinfo_first[of r m] show ?thesis
      by (cases p) (simp_all add: re_first_Opt_some)
  qed
  define q where "q = (case userinfo r of
       None \<Rightarrow> (r, m)
     | Some (u, None, r2) \<Rightarrow> (r2, m(4 := Some u))
     | Some (u, Some p, r2) \<Rightarrow> (r2, m(4 := Some u, 5 := Some p)))"
  obtain r2 m5 where q: "q = (r2, m5)" by (cases q)
  have "re_first (Opt userinfo_re) (r, m) = Some (r2, m5)"
    using 1 q unfolding q_def by (auto split: option.splits)
  from re_first_Cat[OF this hostport_first[of r2 m5, unfolded split_def Let_def]]
  have "re_first (Cat (Opt userinfo_re) hostport_re) (r, m) =
    (case hostport r2 of (h, port, r3) \<Rightarrow>
       Some (r3, (case port of None \<Rightarrow> m5(6 := Some h) | Some p \<Rightarrow> m5(6 := Some h, 7 := Some p))))"
    by (simp add: split_def)
  moreover have "(case userinfo r of
        None \<Rightarrow> (m, r)
      | Some (u, None, r2) \<Rightarrow> (m(4 := Some u), r2)
      | Some (u, Some p, r2) \<Rightarrow> (m(4 := Some u, 5 := Some p), r2)) = (m5, r2)"
    using q unfolding q_def by (auto split: option.splits)
  ultimately show ?thesis
    unfolding authority_caps_def re_first_Grp
    by (cases "hostport r2") (simp split: option.splits)
qed

lemma scheme_run:
  "re_run scheme_re (s, m) =
    (if takeWhile word_cu s \<noteq> [] \<and> dropWhile word_cu s \<noteq> [] \<and> hd (dropWhile word_cu s) = 58
     then (let n = length (takeWhile word_cu s) + 1 in [(drop n s, m(2 := Some (take n s)))])
     else [])"
proof -
  define k where "k = length (takeWhile word_cu s)"
  have k: "k \<le> length s" by (simp add: k_def length_takeWhile_le)
  have dk: "drop k s = dropWhile word_cu s" by (simp add: k_def drop_length_takeWhile)
  have no: "re_run (Chr (\<lambda>c. c = 58)) (drop n s, m) = []" if "n < k" for n
  proof -
    have "n < length s" "s ! n = takeWhile word_cu s ! n"
      using that k by (auto simp: k_def takeWhile_nth)
    moreover have "word_cu (takeWhile word_cu s ! n)"
      using that nth_mem[of n "takeWhile word_cu s"] set_takeWhileD unfolding k_def by fast
    ultimately have "drop n s = s ! n # drop (Suc n) s" "word_cu (s ! n)"
      by (metis Cons_nth_drop_Suc, simp)
    then show ?thesis by auto
  qed
  have "concat (map (\<lambda>n. re_run (Chr (\<lambda>c. c = 58)) (drop n s, m)) (rev [1..<Suc k]))
      = (if k = 0 then [] else re_run (Chr (\<lambda>c. c = 58)) (drop k s, m))"
  proof (cases k)
    case (Suc j)
    have "concat (map (\<lambda>n. re_run (Chr (\<lambda>c. c = 58)) (drop n s, m)) (rev [1..<k])) = []"
      using no by (auto simp del: re_run.simps)
    then show ?thesis using Suc by (simp del: re_run.simps)
  qed simp
  then have run: "re_run (Cat (Many1 word_cu) (Chr (\<lambda>c. c = 58))) (s, m) =
      (if k = 0 then [] else re_run (Chr (\<lambda>c. c = 58)) (drop k s, m))"
    by (simp add: k_def[symmetric] comp_def del: re_run.simps(1) upt_Suc)
  show ?thesis
  proof (cases "dropWhile word_cu s")
    case Nil
    then show ?thesis unfolding scheme_re_def Nil using run[unfolded dk Nil]
      by (simp del: re_run.simps(4))
  next
    case (Cons x t)
    then have d: "drop (Suc k) s = t" using dk by (metis drop_Suc list.sel(3) tl_drop)
    then have l: "length s - length t = Suc k" using dk Cons k
      by (metis Suc_diff_Suc diff_diff_cancel length_drop length_Cons le_imp_less_Suc diff_Suc_eq_diff_pred drop_Suc_Cons drop_eq_Nil2 leI linorder_not_less order.strict_iff_order not_less_eq_eq)
    show ?thesis unfolding scheme_re_def using run dk Cons d l
      by (auto simp del: re_run.simps(4) simp: k_def Let_def)
  qed
qed


lemma authority_caps_length: "length (fst (authority_caps r m)) \<le> length r"
proof -
  have hp: "length (snd (snd (hostport x))) \<le> length x" for x
    by (auto simp: hostport_def Let_def intro: length_dropWhile_le order.trans[OF length_dropWhile_le])
      (metis length_dropWhile_le length_tl le_diff_conv order.trans trans_le_add1)
  show ?thesis
  proof (cases "userinfo r")
    case None
    then show ?thesis using hp[of r] by (simp add: authority_caps_def split_def Let_def)
  next
    case (Some x)
    obtain u p r2 where x: "x = (u, p, r2)" by (cases x) auto
    with Some have "length r2 < length r" by (simp add: userinfo_shorter)
    with hp[of r2] Some x show ?thesis
      by (cases p) (simp_all add: authority_caps_def split_def Let_def)
  qed
qed

lemma origin_first: "re_first (Opt origin_re) (s, \<lambda>_. None) = Some (origin_caps s)"
proof -
  define auth where "auth = Grp 3 (Cat (Opt userinfo_re) hostport_re)"
  define rest where "rest = Cat (Chr (\<lambda>c. c = 47)) (Cat (Chr (\<lambda>c. c = 47)) auth)"
  have rest: "re_first rest (t, m) =
      (if starts_with (js ''//'') t then Some (authority_caps (drop 2 t) m) else None)" for t m
    unfolding rest_def auth_def
    by (cases t rule: remdups_adj.cases)
      (auto simp: re_first_Cat_Chr authority_first starts_with_def js_def)
  let ?a = "takeWhile word_cu s" and ?d = "dropWhile word_cu s"
  let ?n = "length ?a + 1" and ?m = "(\<lambda>_. None) :: caps"
  have dn: "drop ?n s = tl ?d" by (metis Suc_eq_plus1 drop_Suc drop_length_takeWhile tl_drop)
  have shorter: "length (fst y) < length s" if "y \<in> set (re_run scheme_re (s, ?m))" for y
    using that by (cases s) (auto simp: scheme_run Let_def split: if_splits)
  have sch: "re_first (Cat scheme_re rest) (s, ?m) =
      (if ?a \<noteq> [] \<and> starts_with (js ''://'') ?d
       then Some (authority_caps (drop (?n + 2) s) (?m(2 := Some (take ?n s)))) else None)"
  proof (cases "?a \<noteq> [] \<and> ?d \<noteq> [] \<and> hd ?d = 58")
    case True
    then have "re_run (Cat scheme_re rest) (s, ?m) = re_run rest (tl ?d, ?m(2 := Some (take ?n s)))"
      using dn by (simp add: scheme_run Let_def)
    then have "re_first (Cat scheme_re rest) (s, ?m) = re_first rest (tl ?d, ?m(2 := Some (take ?n s)))"
      by (simp only: re_first_def)
    moreover have "starts_with (js ''://'') ?d \<longleftrightarrow> starts_with (js ''//'') (tl ?d)"
      using True by (cases ?d) (auto simp: starts_with_def js_def)
    moreover have "drop 2 (tl ?d) = drop (?n + 2) s" unfolding dn[symmetric] by (simp add: add.commute)
    ultimately show ?thesis using True unfolding rest by simp
  next
    case False
    then have "re_run (Cat scheme_re rest) (s, ?m) = []" unfolding re_run.simps(4) scheme_run by auto
    moreover have "starts_with (js ''://'') d \<Longrightarrow> d \<noteq> [] \<and> hd d = 58" for d
      by (cases d) (auto simp: starts_with_def js_def)
    with False have "\<not> (?a \<noteq> [] \<and> starts_with (js ''://'') ?d)" by blast
    ultimately show ?thesis by (auto simp: re_first_None)
  qed
  have inner: "re_first (Cat (Opt scheme_re) rest) (s, ?m) =
      (case scheme_length s of None \<Rightarrow> None
       | Some n \<Rightarrow> Some (authority_caps (drop (n + 2) s)
           (if n = 0 then ?m else ?m(2 := Some (take n s)))))"
  proof -
    have "re_first (Cat (Opt scheme_re) rest) (s, ?m) =
        (case re_first (Cat scheme_re rest) (s, ?m) of Some z \<Rightarrow> Some z | None \<Rightarrow> re_first rest (s, ?m))"
      by (rule re_first_Cat_Opt) (rule shorter)
    then show ?thesis unfolding sch rest scheme_length_def by (auto simp: Let_def numeral_2_eq_2)
  qed
  have bound: "n + 2 \<le> length s" if "scheme_length s = Some n" for n
  proof -
    have "length p \<le> length t" if "starts_with p t" for p t
      using that unfolding starts_with_def by (metis length_take min.cobounded1)
    from this[of "js ''://''" ?d] this[of "js ''//''" s] that
    show ?thesis
      using length_append[of ?a ?d] by (auto simp: scheme_length_def js_def Let_def split: if_splits)
  qed
  show ?thesis
  proof (cases "scheme_length s")
    case None
    then show ?thesis
      using inner unfolding origin_re_def rest_def[unfolded auth_def, symmetric]
      by (simp add: re_first_Opt_none re_first_Grp origin_caps_def)
  next
    case (Some n)
    obtain r m where rm: "authority_caps (drop (n + 2) s) (if n = 0 then ?m else ?m(2 := Some (take n s))) = (r, m)"
      by fastforce
    have "length r \<le> length (drop (n + 2) s)" using authority_caps_length rm by (metis fst_conv)
    with bound[OF Some] have "length r < length s" by simp
    with Some rm inner show ?thesis
      unfolding origin_re_def rest_def[unfolded auth_def, symmetric]
      by (simp add: re_first_Opt_some re_first_Grp origin_caps_def)
  qed
qed


theorem parseUrl_is_regex: "parseUrl new_url s = parseUrl_re new_url s"
proof -
  obtain r m where rm: "origin_caps s = (r, m)" by fastforce
  have avoid: "avoids 35 (Opt origin_re)"
    by (simp add: origin_re_def scheme_re_def userinfo_re_def hostport_re_def word_cu_def)
  have keep: "fragment_ok t \<longleftrightarrow> fragment_ok s" if "(t, d) \<in> set (re_run (Opt origin_re) (s, \<lambda>_. None))" for t d
    unfolding fragment_ok_def using avoids_keeps[OF avoid that] by simp
  have r: "fragment_ok r \<longleftrightarrow> fragment_ok s"
    by (rule keep[of r m]) (rule re_first_member, rule origin_first[of s, unfolded rm])
  show ?thesis
  proof (cases "fragment_ok s")
    case True
    have "re_first url_re (s, \<lambda>_. None) = Some ([], tail_caps r m)"
      unfolding url_re_def
      by (rule re_first_Cat[OF origin_first[of s, unfolded rm]]) (rule tail_first, simp add: r True)
    then show ?thesis using True rm by (simp add: parseUrl_def parseUrl_re_def re_match_def)
  next
    case False
    have "re_run tail_re y = []" if "y \<in> set (re_run (Opt origin_re) (s, \<lambda>_. None))" for y
    proof -
      obtain t d where y: "y = (t, d)" by (cases y)
      from keep[OF that[unfolded y]] False have "\<not> fragment_ok t" by blast
      then show ?thesis unfolding y by (rule tail_none)
    qed
    then have "re_run url_re (s, \<lambda>_. None) = []"
      unfolding url_re_def re_run.simps(4) by (simp del: re_run.simps)
    then have "re_first url_re (s, \<lambda>_. None) = None"
      by (simp only: re_first_None)
    then show ?thesis using False by (simp add: parseUrl_def parseUrl_re_def re_match_def)
  qed
qed

section \<open>The components of a printed address\<close>

definition show_userinfo :: "(jstr \<times> jstr option) option \<Rightarrow> jstr" where
  "show_userinfo ui =
     (case ui of None \<Rightarrow> []
      | Some (u, None) \<Rightarrow> u @ [64]
      | Some (u, Some p) \<Rightarrow> u @ 58 # p @ [64])"

definition show_port :: "jstr option \<Rightarrow> jstr" where
  "show_port p = (case p of None \<Rightarrow> [] | Some q \<Rightarrow> 58 # q)"

text \<open>No delimiter of an address: what user, password, host and port may hold.\<close>

definition atom :: "jstr \<Rightarrow> bool" where
  "atom s \<longleftrightarrow> list_all (\<lambda>c. word_cu c \<and> c \<noteq> 64) s"

definition tail_start :: "jstr \<Rightarrow> bool" where
  "tail_start t \<longleftrightarrow> t = [] \<or> hd t = 47 \<or> hd t = 63 \<or> hd t = 35"

lemma tail_start_stop: "tail_start t \<Longrightarrow> t = [] \<or> \<not> word_cu (hd t)"
  by (auto simp: tail_start_def word_cu_def)

lemma atom_word: "atom s \<Longrightarrow> \<forall>c\<in>set s. word_cu c"
  and atom_64: "atom s \<Longrightarrow> 64 \<notin> set s"
  by (auto simp: atom_def list_all_iff)

lemma word_stop:
  assumes "atom s" and "t = [] \<or> \<not> word_cu (hd t)"
  shows "takeWhile word_cu (s @ t) = s" "dropWhile word_cu (s @ t) = t"
  using assms by (auto intro!: takeWhile_stop dropWhile_stop dest: atom_word)

lemma before_last_snoc: "64 \<notin> set h \<Longrightarrow> before_last 64 (u @ 64 # h) = u"
  by (simp add: before_last_def dropWhile_append2 dropWhile_append)

lemma hostport_print:
  assumes "atom h" "\<And>p. port = Some p \<Longrightarrow> atom p" "tail_start t"
  shows "hostport (h @ show_port port @ t) = (h, port, t)"
proof (cases port)
  case None
  from tail_start_stop[OF assms(3)] have t: "t = [] \<or> \<not> word_cu (hd t)" .
  have "t = [] \<or> hd t \<noteq> 58" using assms(3) by (auto simp: tail_start_def)
  then show ?thesis using word_stop[OF assms(1) t] None
    by (auto simp: hostport_def show_port_def Let_def)
next
  case (Some p)
  have "word_cu 58 = False" by simp
  then have "takeWhile word_cu (h @ 58 # p @ t) = h" "dropWhile word_cu (h @ 58 # p @ t) = 58 # p @ t"
    using word_stop[OF assms(1), of "58 # p @ t"] by simp_all
  moreover have "takeWhile word_cu (p @ t) = p" "dropWhile word_cu (p @ t) = t"
    using word_stop[of p t] Some assms tail_start_stop by auto
  ultimately show ?thesis using Some by (simp add: hostport_def show_port_def Let_def)
qed

lemma userinfo_print:
  assumes h: "atom h" and port: "\<And>p. port = Some p \<Longrightarrow> atom p" and t: "tail_start t"
    and ui: "\<And>u p. ui = Some (u, p) \<Longrightarrow> atom u \<and> (\<forall>q. p = Some q \<longrightarrow> atom q)"
  shows "userinfo (show_userinfo ui @ h @ show_port port @ t) =
    (case ui of None \<Rightarrow> None | Some (u, p) \<Rightarrow> Some (u, p, h @ show_port port @ t))"
proof -
  let ?r = "h @ show_port port @ t"
  have stop: "t = [] \<or> \<not> word_cu (hd t)" by (rule tail_start_stop[OF t])
  have r: "takeWhile word_cu ?r = h" "dropWhile word_cu ?r = show_port port @ t"
    using word_stop[OF h, of "show_port port @ t"] stop
    by (auto simp: show_port_def split: option.splits)
  have no: "64 \<notin> set (takeWhile word_cu (tl (show_port port @ t)))" if "hd (show_port port @ t) = 58" "show_port port @ t \<noteq> []"
  proof (cases port)
    case None
    with that t show ?thesis by (auto simp: show_port_def tail_start_def)
  next
    case (Some q)
    then show ?thesis using word_stop[of q t] port[OF Some] stop
      by (auto simp: show_port_def dest: atom_64)
  qed
  show ?thesis
  proof (cases ui)
    case None
    then show ?thesis using no atom_64[OF h]
      by (auto simp: userinfo_def show_userinfo_def r Let_def)
  next
    case (Some x)
    obtain u p where x: "x = (u, p)" by (cases x)
    with ui Some have u: "atom u" and p: "\<And>q. p = Some q \<Longrightarrow> atom q" by auto
    show ?thesis
    proof (cases p)
      case None
      have "takeWhile word_cu (u @ 64 # ?r) = u @ 64 # h"
        "dropWhile word_cu (u @ 64 # ?r) = show_port port @ t"
        using atom_word[OF u] r by (simp_all add: takeWhile_append2 dropWhile_append2)
      with Some x None no show ?thesis
        by (auto simp: userinfo_def show_userinfo_def Let_def before_last_snoc atom_64[OF h])
    next
      case (Some q)
      have w: "takeWhile word_cu (u @ 58 # q @ 64 # ?r) = u"
        "dropWhile word_cu (u @ 58 # q @ 64 # ?r) = 58 # q @ 64 # ?r"
        using word_stop[OF u, of "58 # q @ 64 # ?r"] by simp_all
      have q: "takeWhile word_cu (q @ 64 # ?r) = q @ 64 # h"
        using atom_word[OF p[OF Some]] r by (simp add: takeWhile_append2)
      show ?thesis using \<open>ui = Some x\<close> x Some
        by (simp add: userinfo_def show_userinfo_def Let_def w q before_last_snoc atom_64[OF h])
    qed
  qed
qed

text \<open>
  The address a link has: scheme, user information, host, port, path, search and fragment.
\<close>

definition show_authority :: "(jstr \<times> jstr option) option \<Rightarrow> jstr \<Rightarrow> jstr option \<Rightarrow> jstr" where
  "show_authority ui h port = show_userinfo ui @ h @ show_port port"

lemma authority_print:
  assumes "atom h" "\<And>p. port = Some p \<Longrightarrow> atom p" "tail_start t"
    and "\<And>u p. ui = Some (u, p) \<Longrightarrow> atom u \<and> (\<forall>q. p = Some q \<longrightarrow> atom q)"
  shows "authority_caps (show_authority ui h port @ t) m =
    (t, (let m5 = (case ui of None \<Rightarrow> m | Some (u, None) \<Rightarrow> m(4 := Some u)
                    | Some (u, Some p) \<Rightarrow> m(4 := Some u, 5 := Some p));
             m7 = (case port of None \<Rightarrow> m5(6 := Some h) | Some p \<Rightarrow> m5(6 := Some h, 7 := Some p))
         in m7(3 := Some (show_authority ui h port))))"
proof -
  have u: "userinfo (show_authority ui h port @ t) =
      (case ui of None \<Rightarrow> None | Some (u, p) \<Rightarrow> Some (u, p, h @ show_port port @ t))"
    using userinfo_print[OF assms] by (simp add: show_authority_def)
  have hp: "hostport (h @ show_port port @ t) = (h, port, t)"
    by (rule hostport_print) (use assms in auto)
  have n: "ui = None \<Longrightarrow> show_authority ui h port @ t = h @ show_port port @ t"
    by (simp add: show_authority_def show_userinfo_def)
  show ?thesis
  proof (cases ui)
    case None
    from n[OF None] have "hostport (show_authority ui h port @ t) = (h, port, t)" by (simp only: hp)
    then show ?thesis using None u by (simp add: authority_caps_def Let_def)
  next
    case (Some x)
    obtain a p where x: "x = (a, p)" by (cases x)
    then show ?thesis using Some u by (cases p) (simp_all add: authority_caps_def hp Let_def)
  qed
qed

lemma parseUrl_print:
  assumes scheme: "sch \<noteq> []" "\<forall>c\<in>set sch. word_cu c"
    and host: "atom h" and port: "\<And>p. port = Some p \<Longrightarrow> atom p"
    and ui: "\<And>u p. ui = Some (u, p) \<Longrightarrow> atom u \<and> (\<forall>q. p = Some q \<longrightarrow> atom q)"
    and path: "path = [] \<or> hd path = 47" "63 \<notin> set path" "35 \<notin> set path"
    and search: "search = [] \<or> hd search = 63" "35 \<notin> set search"
    and frag: "frag = [] \<or> hd frag = 35" "\<forall>c\<in>set frag. \<not> is_lt c"
  shows "parseUrl nu (sch @ js ''://'' @ show_authority ui h port @ path @ search @ frag) =
    Some \<lparr>u_hash = frag, u_host = show_authority ui h port, u_hostname = h,
      u_href = sch @ js ''://'' @ show_authority ui h port @ path @ search @ frag,
      u_origin = sch @ js ''://'' @ show_authority ui h port,
      u_pathname = or_else path (js ''/''), u_port = (case port of None \<Rightarrow> [] | Some p \<Rightarrow> p),
      u_protocol = sch @ js '':'', u_search = search,
      u_username = (case ui of None \<Rightarrow> [] | Some (u, p) \<Rightarrow> u),
      u_password = (case ui of Some (u, Some p) \<Rightarrow> p | _ \<Rightarrow> [])\<rparr>"
proof -
  let ?au = "show_authority ui h port" and ?t = "path @ search @ frag"
  let ?s = "sch @ js ''://'' @ ?au @ ?t"
  have t: "tail_start ?t" using path search frag by (auto simp: tail_start_def hd_append)
  have noau: "35 \<notin> set ?au"
    using atom_word[OF host] ui port
    by (auto simp: show_authority_def show_userinfo_def show_port_def atom_def list_all_iff word_cu_def
        split: option.splits)
  have nosch: "35 \<notin> set sch" using scheme by (auto simp: word_cu_def)
  have pre: "\<forall>c\<in>set (sch @ js ''://'' @ ?au @ path @ search). c \<noteq> 35"
    using nosch noau path(3) search(2) by (auto simp: js_def)
  have fr: "dropWhile (\<lambda>c. c \<noteq> 35) ?s = frag"
    using dropWhile_stop[OF pre, of frag] frag(1) by simp
  have ok: "fragment_ok ?s" unfolding fragment_ok_def fr using frag(2) by (simp add: list_all_iff)
  have tw: "takeWhile word_cu ?s = sch" "dropWhile word_cu ?s = js ''://'' @ ?au @ ?t"
    using scheme(2) by (auto intro!: takeWhile_stop dropWhile_stop simp: js_def)
  have sl: "scheme_length ?s = Some (length sch + 1)"
    unfolding scheme_length_def tw using scheme(1) by (simp add: starts_with_def js_def)
  have dr: "drop (length sch + 1 + 2) ?s = ?au @ ?t" "take (length sch + 1) ?s = sch @ js '':''"
    by (simp_all add: js_def)
  note au = authority_print[where m = "(\<lambda>_. None)(2 := Some (sch @ js '':''))", OF host port t ui]
  obtain m where m: "authority_caps (?au @ ?t) ((\<lambda>_. None)(2 := Some (sch @ js '':''))) = (?t, m)"
    and m': "m 2 = Some (sch @ js '':'')" "m 3 = Some ?au" "m 6 = Some h" "m 7 = port"
      "m 4 = map_option fst ui" "m 5 = (case ui of Some (u, p) \<Rightarrow> p | None \<Rightarrow> None)"
      "m 8 = None" "m 9 = None" "m 10 = None"
    using au by (cases ui; cases port) (auto split: option.splits simp: Let_def)
  have oc: "origin_caps ?s = (?t, m(1 := Some (sch @ js ''://'' @ ?au)))"
    unfolding origin_caps_def sl using dr m by (simp add: js_def numeral_3_eq_3)
  have p8: "takeWhile (\<lambda>c. c \<noteq> 63 \<and> c \<noteq> 35) ?t = path" "dropWhile (\<lambda>c. c \<noteq> 63 \<and> c \<noteq> 35) ?t = search @ frag"
    using path search(1) frag(1)
    by (cases search; cases frag; auto intro!: takeWhile_stop dropWhile_stop)+
  have p9: "takeWhile (\<lambda>c. c \<noteq> 35) (search @ frag) = search" "dropWhile (\<lambda>c. c \<noteq> 35) (search @ frag) = frag"
    using search frag by (auto intro!: takeWhile_stop dropWhile_stop)
  have q: "search @ frag \<noteq> [] \<and> hd (search @ frag) = 63 \<longleftrightarrow> search \<noteq> []"
    using search frag by (auto simp: hd_append)
  define M where "M = tail_caps ?t (m(1 := Some (sch @ js ''://'' @ ?au)))"
  have g: "grp M i =
      (if i = 10 then frag else if i = 9 then search else if i = 8 then path
       else if i = 1 then sch @ js ''://'' @ ?au else case m i of Some x \<Rightarrow> x | None \<Rightarrow> [])" for i
    unfolding M_def tail_caps_def p8 p9 Let_def q using m'
    by (auto simp: grp_def)
  have "parseUrl nu ?s = Some (url_of_match M ?s)"
    unfolding parseUrl_def using ok oc by (simp add: M_def)
  moreover have "(case map_option fst ui of None \<Rightarrow> [] | Some x \<Rightarrow> x) = (case ui of None \<Rightarrow> [] | Some (u, p) \<Rightarrow> u)"
    "(case (case ui of None \<Rightarrow> None | Some (u, p) \<Rightarrow> p) of None \<Rightarrow> [] | Some x \<Rightarrow> x) =
      (case ui of Some (u, Some p) \<Rightarrow> p | _ \<Rightarrow> [])"
    by (auto split: option.splits)
  ultimately show ?thesis by (simp add: url_of_match_def g m')
qed

end
