(* ===== verification/Codec_Properties.thy ===== *)
theory Codec_Properties
  imports Base64 Query_String Url_Parse
begin

text \<open>The properties of the codecs a sharing link is made of.\<close>

text \<open>
  C38: decodeURIComponent inverts encodeURIComponent, and base64 with UTF-8 in the URL alphabet
  inverts as well: for every well-formed string both encoders succeed and both decoders return the
  string.
\<close>

theorem text_codecs_roundtrip:
  assumes "well_formed s"
  shows "(\<exists>t. encodeURIComponent s = Some t \<and> decodeURIComponent t = Some s) \<and>
    (\<exists>t. b64encutf8safe s = Some t \<and> b64decutf8safe t = Some s \<and> (\<forall>c\<in>set t. unreserved c))"
proof -
  have u: "units s" using assms by (simp add: well_formed_def)
  obtain t where t: "encodeURIComponent s = Some t" using encode_well_formed[OF assms] by blast
  obtain b where b: "b64EncodeUnicode s = Some b" using b64EncodeUnicode_defined[OF assms] by blast
  then have "b64encutf8safe s = Some (to_url_alphabet b)" by (simp add: b64encutf8safe_def)
  with t show ?thesis
    using decode_encode_uri[OF u t] b64utf8safe_inverse[OF u] b64encutf8safe_unreserved[OF u] by blast
qed

theorem text_codecs_roundtrip_witness:
  "\<exists>t. encodeURIComponent [26085, 0xD83D, 0xDE00] = Some t \<and> decodeURIComponent t = Some [26085, 0xD83D, 0xDE00]"
proof -
  have "well_formed [26085, 0xD83D, 0xDE00]" by (simp add: well_formed_def is_low_def is_high_def)
  from text_codecs_roundtrip[OF this] show ?thesis by blast
qed

text \<open>
  C25: the direct scanner used throughout the model computes exactly what the code's regular
  expression does, captures included, for every string.
\<close>

theorem parseUrl_equals_regex: "parseUrl new_url s = parseUrl_re new_url s"
  by (rule parseUrl_is_regex)

text \<open>
  C39: decodeFragment ends on every string (the loop is total), its result cannot be decoded any
  further, and it never grows.
\<close>

theorem decodeFragment_fixpoint:
  "let r = decodeFragment s in length r \<le> length s \<and> (decodeURIComponent r = None \<or> decodeURIComponent r = Some r)"
  using decode_loop_final[of s] decode_loop_length[of s]
  by (cases s) (simp_all add: decodeFragment_def truthy_def decode_uri_id Let_def)

text \<open>
  A query printed by queryMapToString reads back by parseQuery: every key with a non-empty value
  has the encoded value, and no other key exists.
\<close>

theorem query_roundtrip:
  assumes "plain_query q" and "queryMapToString q = Some t"
  shows "\<exists>q'. parseQuery (63 # t) = Some q' \<and>
    (\<forall>k. map_option decodeURIComponentSafe (obj_get q' k) =
       (case obj_get q k of Some v \<Rightarrow> if truthy v then Some v else None | None \<Rightarrow> None))"
proof -
  obtain q' where q': "parseQuery (63 # t) = Some q'"
    and look: "\<And>k. obj_get q' k = (case obj_get q k of
       Some v \<Rightarrow> if truthy v then Some (the (encodeURIComponent v)) else None | None \<Rightarrow> None)"
    using parse_print_lookup[OF assms] by blast
  have enc: "decodeURIComponentSafe (the (encodeURIComponent v)) = v" if "obj_get q k = Some v" "truthy v" for k v
  proof -
    have kv: "(k, v) \<in> set q" using that(1) by (auto simp: obj_get_def dest: map_of_SomeD)
    then have u: "units v" using assms(1) by (auto simp: plain_query_def)
    from assms(2) obtain ps where "map_opt enc_pair (printed_entries q) = Some ps"
      by (auto simp: queryMapToString_def printed_entries_def split: if_splits)
    moreover have "(k, v) \<in> set (printed_entries q)" using kv that(2) by (simp add: printed_entries_def set_own_entries)
    ultimately have "enc_pair (k, v) \<noteq> None" by (metis map_opt_None_iff option.distinct(1))
    then obtain t' where "encodeURIComponent v = Some t'" by (auto simp: enc_pair_Some)
    with u show ?thesis by (simp add: decode_safe_encoded)
  qed
  show ?thesis using q' look enc by (auto split: option.splits)
qed

theorem query_roundtrip_witness:
  "\<exists>q'. parseQuery (63 # js ''a%26b=c%20d'') = Some q' \<and>
    map_option decodeURIComponentSafe (obj_get q' (js ''a&b'')) = Some (js ''c d'')"
proof -
  have p: "plain_query [(js ''a&b'', js ''c d''), (js ''z'', [])]"
    by (simp add: plain_query_def plain_key_def js_def)
  have q: "queryMapToString [(js ''a&b'', js ''c d''), (js ''z'', [])] = Some (js ''a%26b=c%20d'')"
    by code_simp
  have "obj_get [(js ''a&b'', js ''c d''), (js ''z'', [])] (js ''a&b'') = Some (js ''c d'')"
    by (simp add: obj_get_def)
  moreover obtain q' where "parseQuery (63 # js ''a%26b=c%20d'') = Some q'"
    and "\<forall>k. map_option decodeURIComponentSafe (obj_get q' k) =
       (case obj_get [(js ''a&b'', js ''c d''), (js ''z'', [])] k of Some v \<Rightarrow> if truthy v then Some v else None | None \<Rightarrow> None)"
    using query_roundtrip[OF p q] by (elim exE conjE)
  moreover from this(2) have "map_option decodeURIComponentSafe (obj_get q' (js ''a&b'')) =
       (case obj_get [(js ''a&b'', js ''c d''), (js ''z'', [])] (js ''a&b'') of
          Some v \<Rightarrow> if truthy v then Some v else None | None \<Rightarrow> None)" by (rule spec)
  ultimately have "map_option decodeURIComponentSafe (obj_get q' (js ''a&b'')) = Some (js ''c d'')"
    by (simp only: option.case truthy_simps) simp
  with \<open>parseQuery (63 # js ''a%26b=c%20d'') = Some q'\<close> show ?thesis by blast
qed

definition word_groups :: "caps \<Rightarrow> bool" where
  "word_groups m \<longleftrightarrow> (\<forall>i\<in>{4, 5, 6, 7}. \<forall>c\<in>set (grp m i). word_cu c)"

lemma word_groups_upd:
  "word_groups m \<Longrightarrow> (\<forall>c\<in>set s. word_cu c) \<Longrightarrow> word_groups (m(i := Some s))"
  "word_groups m \<Longrightarrow> i \<notin> {4, 5, 6, 7} \<Longrightarrow> word_groups (m(i := x))"
  by (auto simp: word_groups_def grp_def)

lemma before_last_subset: "x \<in> set l \<Longrightarrow> set (before_last x l) \<subseteq> set l"
  using before_last_split[of x l] by (metis set_append Un_upper1)

lemma userinfo_words:
  assumes "userinfo r = Some (u, p, r2)"
  shows "\<forall>c\<in>set u. word_cu c" "p = Some q \<Longrightarrow> \<forall>c\<in>set q. word_cu c"
  using assms before_last_subset[of 64 "takeWhile word_cu r"]
    before_last_subset[of 64 "takeWhile word_cu (tl (dropWhile word_cu r))"]
  by (auto simp: userinfo_def Let_def dest!: set_takeWhileD split: if_splits)

lemma authority_words:
  assumes "word_groups m"
  shows "word_groups (snd (authority_caps r m))"
proof -
  obtain m5 r2 where pair: "(case userinfo r of None \<Rightarrow> (m, r) | Some (u, None, r2) \<Rightarrow> (m(4 := Some u), r2)
      | Some (u, Some p, r2) \<Rightarrow> (m(4 := Some u, 5 := Some p), r2)) = (m5, r2)"
    by fastforce
  have m5: "word_groups m5"
    using assms userinfo_words[of r] pair by (auto intro!: word_groups_upd(1) split: option.splits)
  have hp: "\<forall>c\<in>set (fst (hostport x)). word_cu c" "fst (snd (hostport x)) = Some p \<Longrightarrow> \<forall>c\<in>set p. word_cu c" for x p
    by (auto simp: hostport_def Let_def dest!: set_takeWhileD split: if_splits)
  show ?thesis unfolding authority_caps_def pair
    using m5 hp[of r2] by (cases "hostport r2") (auto simp: Let_def word_groups_upd split: option.splits)
qed

text \<open>
  No component of an address the expression matches holds a delimiter: host name, port, user and
  password have no colon, slash, question mark or hash; so the host name of an IPv6 address in
  brackets is cut at its first colon.
\<close>

theorem parseUrl_atoms:
  assumes "fragment_ok s" and "parseUrl new_url s = Some u"
  shows "\<forall>c\<in>set (u_hostname u) \<union> set (u_port u) \<union> set (u_username u) \<union> set (u_password u). word_cu c"
proof -
  have start: "word_groups (\<lambda>_. None)" by (simp add: word_groups_def grp_def)
  have "word_groups (snd (origin_caps s))"
  proof (cases "scheme_length s")
    case (Some n)
    let ?m = "if n = 0 then (\<lambda>_. None) else (\<lambda>_. None)(2 := Some (take n s))"
    have "word_groups ?m" using start word_groups_upd(2)[OF start, of 2] by simp
    from authority_words[OF this, of "drop (n + 2) s"] Some show ?thesis
      by (simp add: origin_caps_def split_def Let_def word_groups_upd(2))
  qed (simp add: origin_caps_def start)
  then have "word_groups (tail_caps (fst (origin_caps s)) (snd (origin_caps s)))"
    unfolding tail_caps_def Let_def by (simp add: word_groups_upd(2))
  moreover have "u = url_of_match (tail_caps (fst (origin_caps s)) (snd (origin_caps s))) s"
    using assms by (simp add: parseUrl_def split_def Let_def)
  ultimately show ?thesis by (auto simp: url_of_match_def word_groups_def)
qed

theorem parseUrl_atoms_witness:
  "map_option u_hostname (parseUrl (\<lambda>_. None) (js ''ss://u@[::1]:80/'')) = Some (js ''['') \<and> word_cu (hd (js ''[''))"
proof -
  have f: "fragment_ok (js ''ss://u@[::1]:80/'')" by code_simp
  have h: "map_option u_hostname (parseUrl (\<lambda>_. None) (js ''ss://u@[::1]:80/'')) = Some (js ''['')" by code_simp
  then obtain u where u: "parseUrl (\<lambda>_. None) (js ''ss://u@[::1]:80/'') = Some u" "u_hostname u = js ''[''" by auto
  from parseUrl_atoms[OF f u(1)] u(2) h show ?thesis by (simp add: js_def)
qed

end
