(* ===== verification/Form_Dom.thy ===== *)
theory Form_Dom
  imports Js_String
begin

text \<open>
  The form layer of \<open>server_url.js\<close> (134-386 and 795-822): the elements of a LuCI
  page by field of the one section being edited, reading and writing a field, and the dynamic list
  rows. The page is an explicit state. What the browser keeps of a value assigned to an element
  (an input drops line terminators, a select takes only its options) is the element's own function
  \<open>keeps\<close>, and what a CodeMirror editor keeps is \<open>cm_keeps\<close>. Events and clicks
  are recorded in the trace in the order they are dispatched; the handlers the LuCI framework
  attaches to them are not part of the repository. A retry timer is an entry of
  \<open>timers\<close>.
\<close>

section \<open>The page\<close>

text \<open>How an element is found: by name, by name with brackets, or only by its id.\<close>

datatype name_kind = Plain | Bracket | Id_only

record combo =
  opts :: "jstr list"
  sel :: jstr

record element =
  ekind :: name_kind
  etag :: jstr
  etype :: jstr
  evalue :: jstr
  echecked :: bool
  cm_next :: "jstr option"    \<comment> \<open>text of the editor that is the next sibling\<close>
  cm_parent :: "jstr option"  \<comment> \<open>text of an editor elsewhere under the parent\<close>
  keeps :: "jstr \<Rightarrow> jstr"
  cm_keeps :: "jstr \<Rightarrow> jstr"
  in_list :: bool             \<comment> \<open>an \<open>input\<close> inside the dynamic list container\<close>
  ecombo :: "combo option"    \<comment> \<open>its \<open>cbi.combobox\<close> select\<close>

text \<open>
  The elements of a field in document order; the image buttons of its dynamic list container
  (by \<open>src\<close>), \<open>None\<close> when there is no container.
\<close>

record control =
  els :: "element list"
  buttons :: "jstr list option"

datatype target = Elem string nat | Combo string nat

datatype event = Ev_input target | Ev_change target | Ev_click string nat

text \<open>
  A value of the free parameters: a string, the printed form of a number or boolean, or a list.
\<close>

datatype yscalar = YStr jstr | YRaw jstr

datatype pvalue = POne yscalar | PList "yscalar list"

record import_state =
  commentsText :: jstr
  params :: "(jstr \<times> pvalue) list"

record page =
  controls :: "string \<Rightarrow> control"
  timers :: "(string \<times> jstr \<times> nat) list"
  trace :: "event list"
  importing :: "import_state option"  \<comment> \<open>\<open>currentImportOtherParamsState\<close>\<close>
  status :: "(string \<times> jstr) option"  \<comment> \<open>class and text of the status element\<close>

section \<open>Finding elements\<close>

definition isMultiValueField :: "string \<Rightarrow> bool" where
  "isMultiValueField field \<longleftrightarrow> field \<in> set [''alpn'', ''ws_headers'', ''http_headers'', ''h2_host'',
     ''http_path'', ''dns'', ''host_key'', ''host_key_algorithms'']"

text \<open>Positions of the elements with a given kind of name.\<close>

definition named :: "name_kind \<Rightarrow> element list \<Rightarrow> nat list" where
  "named k es = filter (\<lambda>i. ekind (es ! i) = k) [0..<length es]"

definition getFormElements :: "page \<Rightarrow> string \<Rightarrow> nat list" where
  "getFormElements pg field =
     (let es = els (controls pg field) in
      if isMultiValueField field \<and> named Bracket es \<noteq> [] then named Bracket es
      else if named Plain es \<noteq> [] then named Plain es
      else if named Bracket es \<noteq> [] then named Bracket es
      else take 1 (named Id_only es))"

definition getDynamicListInputs :: "page \<Rightarrow> string \<Rightarrow> nat list" where
  "getDynamicListInputs pg field =
     (case buttons (controls pg field) of
        None \<Rightarrow> []
      | Some _ \<Rightarrow> (let es = els (controls pg field) in
          filter (\<lambda>i. in_list (es ! i) \<and> ekind (es ! i) \<noteq> Id_only) [0..<length es]))"

section \<open>One element\<close>

datatype cm_place = At_next | At_parent

definition getCodeMirrorInstance :: "element \<Rightarrow> cm_place option" where
  "getCodeMirrorInstance e =
     (if to_lower (etag e) \<noteq> js ''textarea'' then None
      else if cm_next e \<noteq> None then Some At_next
      else if cm_parent e \<noteq> None then Some At_parent
      else None)"

definition getElementValue :: "element \<Rightarrow> jstr" where
  "getElementValue e =
     (case getCodeMirrorInstance e of
        Some At_next \<Rightarrow> the (cm_next e)
      | Some At_parent \<Rightarrow> the (cm_parent e)
      | None \<Rightarrow> evalue e)"

text \<open>\<open>/^(1|true|on|yes)$/i\<close>\<close>

definition checked_word :: "jstr \<Rightarrow> bool" where
  "checked_word s \<longleftrightarrow> to_lower s \<in> set (map js [''1'', ''true'', ''on'', ''yes''])"

definition put_element :: "element \<Rightarrow> jstr \<Rightarrow> element" where
  "put_element e normalized =
     (if to_lower (etype e) = js ''checkbox'' then
        (let e1 = e\<lparr>echecked := checked_word normalized\<rparr>
         in if truthy (evalue e1) then e1 else e1\<lparr>evalue := js ''1''\<rparr>)
      else if to_lower (etype e) = js ''radio'' then e\<lparr>echecked := (evalue e = normalized)\<rparr>
      else
        (let e1 = e\<lparr>evalue := keeps e normalized\<rparr>;
             t = cm_keeps e normalized
         in case getCodeMirrorInstance e1 of
              None \<Rightarrow> e1
            | Some At_next \<Rightarrow> e1\<lparr>cm_next := Some t, evalue := keeps e t\<rparr>
            | Some At_parent \<Rightarrow> e1\<lparr>cm_parent := Some t, evalue := keeps e t\<rparr>))"

definition upd_element :: "string \<Rightarrow> nat \<Rightarrow> (element \<Rightarrow> element) \<Rightarrow> page \<Rightarrow> page" where
  "upd_element field i g pg =
     (let c = controls pg field
      in pg\<lparr>controls := (controls pg)(field := c\<lparr>els := (els c)[i := g (els c ! i)]\<rparr>)\<rparr>)"

definition dispatchFieldChange :: "target \<Rightarrow> page \<Rightarrow> page" where
  "dispatchFieldChange t pg = pg\<lparr>trace := trace pg @ [Ev_input t, Ev_change t]\<rparr>"

definition setElementValue :: "string \<Rightarrow> nat \<Rightarrow> jstr \<Rightarrow> page \<Rightarrow> page" where
  "setElementValue field i value pg =
     dispatchFieldChange (Elem field i) (upd_element field i (\<lambda>e. put_element e value) pg)"

section \<open>Dynamic lists\<close>

definition insert_before_blank :: "jstr \<Rightarrow> jstr list \<Rightarrow> jstr list" where
  "insert_before_blank x os = takeWhile (\<lambda>y. y \<noteq> []) os @ x # dropWhile (\<lambda>y. y \<noteq> []) os"

text \<open>The select of a combo box; a value it lacks is inserted before the blank option.\<close>

definition put_combo :: "jstr \<Rightarrow> combo \<Rightarrow> combo" where
  "put_combo v c =
     (if v \<in> set (opts c) then c\<lparr>sel := v\<rparr>
      else if v = [] then c\<lparr>sel := []\<rparr>
      else c\<lparr>opts := insert_before_blank v (opts c), sel := v\<rparr>)"

definition syncDynamicListSelect :: "string \<Rightarrow> nat \<Rightarrow> jstr \<Rightarrow> page \<Rightarrow> page" where
  "syncDynamicListSelect field i value pg =
     (case ecombo (els (controls pg field) ! i) of
        None \<Rightarrow> pg
      | Some c \<Rightarrow> dispatchFieldChange (Combo field i)
          (upd_element field i (\<lambda>e. e\<lparr>ecombo := Some (put_combo value c)\<rparr>) pg))"

text \<open>
  Clicks the last button whose image is \<open>add.gif\<close>; the row it adds appears by the
  framework's own handler.
\<close>

definition tryExpandDynamicListRows :: "string \<Rightarrow> nat \<Rightarrow> page \<Rightarrow> page" where
  "tryExpandDynamicListRows field targetCount pg =
     (case buttons (controls pg field) of
        None \<Rightarrow> pg
      | Some bs \<Rightarrow>
          if targetCount \<le> length (getDynamicListInputs pg field) then pg
          else (case filter (\<lambda>i. js_includes (to_lower (bs ! i)) (js ''add.gif'')) (rev [0..<length bs]) of
                  [] \<Rightarrow> pg
                | i # _ \<Rightarrow> pg\<lparr>trace := trace pg @ [Ev_click field i]\<rparr>))"

definition normalizeListValue :: "jstr \<Rightarrow> jstr list" where
  "normalizeListValue value =
     (let str = trim value in
      if str = [] then [] else filter truthy (map trim (js_split (js '','') str)))"

section \<open>Writing and reading a field\<close>

definition item_at :: "jstr list \<Rightarrow> nat \<Rightarrow> jstr" where
  "item_at vs i = (if i < length vs then vs ! i else [])"

definition setRows :: "string \<Rightarrow> nat list \<Rightarrow> jstr list \<Rightarrow> page \<Rightarrow> page" where
  "setRows field is vs pg =
     fold (\<lambda>(n, i) p. syncDynamicListSelect field i (item_at vs n) (setElementValue field i (item_at vs n) p))
       (enumerate 0 is) pg"

definition schedule :: "string \<Rightarrow> jstr \<Rightarrow> nat \<Rightarrow> page \<Rightarrow> page" where
  "schedule field value retry pg = pg\<lparr>timers := timers pg @ [(field, value, retry)]\<rparr>"

definition primary :: "element list \<Rightarrow> nat list \<Rightarrow> nat" where
  "primary es is =
     (case filter (\<lambda>i. to_lower (etype (es ! i)) \<noteq> js ''hidden'') is of
        [] \<Rightarrow> hd is
      | i # _ \<Rightarrow> i)"

definition setFormValue_retry :: "nat \<Rightarrow> string \<Rightarrow> jstr \<Rightarrow> page \<Rightarrow> page" where
  "setFormValue_retry retries field value pg =
     (let multi = isMultiValueField field;
          listValues = normalizeListValue value;
          targetCount = max 1 (length listValues);
          dynInputs = getDynamicListInputs pg field;
          elements = getFormElements pg field
      in if multi \<and> dynInputs \<noteq> [] \<and> length dynInputs < targetCount \<and> retries < 30 then
           schedule field value (retries + 1) (tryExpandDynamicListRows field targetCount pg)
         else if multi \<and> dynInputs \<noteq> [] then setRows field dynInputs listValues pg
         else if elements = [] \<and> retries < 30 then schedule field value (retries + 1) pg
         else if elements = [] then pg
         else if multi \<and> 1 < length elements then
           fold (\<lambda>(n, i) p. setElementValue field i (item_at listValues n) p) (enumerate 0 elements) pg
         else setElementValue field (primary (els (controls pg field)) elements) value pg)"

definition setFormValue :: "string \<Rightarrow> jstr \<Rightarrow> page \<Rightarrow> page" where
  "setFormValue = setFormValue_retry 0"

definition joined_values :: "element list \<Rightarrow> nat list \<Rightarrow> jstr" where
  "joined_values es is = js_join (js '','') (filter truthy (map (\<lambda>i. getElementValue (es ! i)) is))"

definition getFormValue :: "page \<Rightarrow> string \<Rightarrow> jstr" where
  "getFormValue pg field =
     (let es = els (controls pg field);
          dynInputs = getDynamicListInputs pg field;
          elements = getFormElements pg field
      in if isMultiValueField field \<and> dynInputs \<noteq> [] then joined_values es dynInputs
         else if elements = [] then []
         else if length elements = 1 \<or> \<not> isMultiValueField field then getElementValue (es ! hd elements)
         else joined_values es elements)"

section \<open>The laws of a form\<close>

text \<open>
  What the import and export functions rely on: a field reads back what the platform keeps of
  the value written, and no other field changes.
\<close>

locale form_store =
  fixes get :: "'p \<Rightarrow> string \<Rightarrow> jstr"
    and put :: "string \<Rightarrow> jstr \<Rightarrow> 'p \<Rightarrow> 'p"
    and ok :: "'p \<Rightarrow> bool"
    and kept :: "'p \<Rightarrow> string \<Rightarrow> jstr \<Rightarrow> jstr"
  assumes get_put: "ok p \<Longrightarrow> get (put f v p) g = (if g = f then kept p f v else get p g)"
    and ok_put: "ok p \<Longrightarrow> ok (put f v p)"
    and kept_put: "ok p \<Longrightarrow> kept (put f v p) = kept p"
begin

definition puts :: "(string \<times> jstr) list \<Rightarrow> 'p \<Rightarrow> 'p" where
  "puts kvs p = fold (\<lambda>(f, v). put f v) kvs p"

lemma puts_invariant: "ok p \<Longrightarrow> ok (puts kvs p) \<and> kept (puts kvs p) = kept p"
  unfolding puts_def by (induction kvs arbitrary: p) (auto simp: ok_put kept_put)

lemma get_puts:
  "ok p \<Longrightarrow> get (puts kvs p) g = (case map_of (rev kvs) g of Some v \<Rightarrow> kept p g v | None \<Rightarrow> get p g)"
proof (induction kvs arbitrary: p)
  case (Cons kv kvs)
  obtain f v where kv: "kv = (f, v)" by (cases kv)
  have "get (puts kvs (put f v p)) g =
      (case map_of (rev kvs) g of Some v \<Rightarrow> kept p g v | None \<Rightarrow> get (put f v p) g)"
    using Cons by (simp add: ok_put kept_put split: option.splits)
  then show ?case using Cons.prems kv
    by (auto simp: puts_def get_put map_add_def split: option.splits)
qed (simp add: puts_def)

lemma put_put: "ok p \<Longrightarrow> get (put f w (put f v p)) = get (put f w p)"
  by (rule ext) (simp add: get_put ok_put kept_put)

lemma put_commute: "ok p \<Longrightarrow> f \<noteq> g \<Longrightarrow> get (put f v (put g w p)) = get (put g w (put f v p))"
  by (rule ext) (simp add: get_put ok_put kept_put)

end

section \<open>Pages of plain fields\<close>

text \<open>
  A page whose every field is one element: a text element (an input, a select or a textarea, with
  or without an editor) or a checkbox, and no dynamic list.
\<close>

definition checkbox :: "element \<Rightarrow> bool" where
  "checkbox e \<longleftrightarrow> to_lower (etype e) = js ''checkbox''"

definition text_element :: "element \<Rightarrow> bool" where
  "text_element e \<longleftrightarrow> to_lower (etype e) \<noteq> js ''radio'' \<and> (checkbox e \<longrightarrow> getCodeMirrorInstance e = None)"

definition text_control :: "control \<Rightarrow> bool" where
  "text_control c \<longleftrightarrow> (case els c of [e] \<Rightarrow> text_element e | _ \<Rightarrow> False) \<and> buttons c = None"

definition text_page :: "page \<Rightarrow> bool" where
  "text_page pg \<longleftrightarrow> (\<forall>f. text_control (controls pg f))"

text \<open>
  What a field keeps of a value: the editor's form of it, or the element's. A checkbox keeps the
  value it stands for, and is ticked or not.
\<close>

definition kept_element :: "element \<Rightarrow> jstr \<Rightarrow> jstr" where
  "kept_element e v =
     (if checkbox e then or_else (evalue e) (js ''1'')
      else if getCodeMirrorInstance e = None then keeps e v else cm_keeps e v)"

definition kept_text :: "page \<Rightarrow> string \<Rightarrow> jstr \<Rightarrow> jstr" where
  "kept_text pg f v = kept_element (hd (els (controls pg f))) v"

lemma one_checked: "checked_word (js ''1'')"
  by (simp add: checked_word_def js_def to_lower_def lower_cu_def)

definition is_checkbox :: "page \<Rightarrow> string \<Rightarrow> bool" where
  "is_checkbox pg f \<longleftrightarrow> checkbox (hd (els (controls pg f)))"

definition ticked :: "page \<Rightarrow> string \<Rightarrow> bool" where
  "ticked pg f \<longleftrightarrow> echecked (hd (els (controls pg f)))"

lemma put_element_text:
  assumes "text_element e"
  shows "getElementValue (put_element e v) = kept_element e v" "text_element (put_element e v)"
    "kept_element (put_element e v) = kept_element e" "ekind (put_element e v) = ekind e"
    "checkbox (put_element e v) = checkbox e"
    "echecked (put_element e v) = (if checkbox e then checked_word v else echecked e)"
  using assms
  by (auto simp: put_element_def text_element_def getElementValue_def getCodeMirrorInstance_def checkbox_def
      kept_element_def or_else_def truthy_def js_def Let_def fun_eq_iff)

lemma text_elements:
  assumes "text_control (controls pg f)"
  shows "\<exists>e. els (controls pg f) = [e] \<and> text_element e" "getDynamicListInputs pg f = []"
    "getFormElements pg f = [0]"
proof -
  from assms obtain e where e: "els (controls pg f) = [e]" "text_element e"
    by (auto simp: text_control_def split: list.splits)
  then show "\<exists>e. els (controls pg f) = [e] \<and> text_element e" by blast
  show "getDynamicListInputs pg f = []" using assms by (simp add: getDynamicListInputs_def text_control_def)
  show "getFormElements pg f = [0]" using e
    by (cases "ekind e") (auto simp: getFormElements_def named_def Let_def)
qed

lemma setFormValue_text:
  assumes "text_control (controls pg f)"
  shows "setFormValue f v pg = setElementValue f 0 v pg"
  using text_elements[OF assms]
  by (auto simp: setFormValue_def setFormValue_retry_def Let_def primary_def)

lemma getFormValue_text:
  assumes "text_control (controls pg f)"
  shows "getFormValue pg f = getElementValue (hd (els (controls pg f)))"
  using text_elements[OF assms] by (auto simp: getFormValue_def Let_def hd_conv_nth)

lemma controls_set:
  "controls (setElementValue f i v pg) =
     (controls pg)(f := (controls pg f)\<lparr>els := (els (controls pg f))[i := put_element (els (controls pg f) ! i) v]\<rparr>)"
  by (simp add: setElementValue_def dispatchFieldChange_def upd_element_def Let_def)

lemma text_put_control:
  assumes "text_control (controls pg f)"
  shows "\<exists>e. els (controls pg f) = [e] \<and> text_element e \<and>
    controls (setFormValue f v pg) = (controls pg)(f := (controls pg f)\<lparr>els := [put_element e v]\<rparr>)"
proof -
  obtain e where e: "els (controls pg f) = [e]" "text_element e"
    using text_elements[OF assms] by blast
  with setFormValue_text[OF assms] show ?thesis by (auto simp: controls_set)
qed

lemma text_control_put:
  "text_control (controls pg f) \<Longrightarrow> text_control (controls pg g) \<Longrightarrow> text_control (controls (setFormValue f v pg) g)"
  using text_put_control[of pg f v] by (auto simp: text_control_def put_element_text)

lemma text_page_put: "text_page pg \<Longrightarrow> text_page (setFormValue f v pg)"
  by (simp add: text_page_def text_control_put)

lemma get_put_text:
  assumes "text_page pg"
  shows "getFormValue (setFormValue f v pg) g = (if g = f then kept_text pg f v else getFormValue pg g)"
proof -
  have f: "text_control (controls pg f)" and g: "text_control (controls pg g)"
    using assms by (auto simp: text_page_def)
  obtain e where e: "els (controls pg f) = [e]" "text_element e"
    "controls (setFormValue f v pg) = (controls pg)(f := (controls pg f)\<lparr>els := [put_element e v]\<rparr>)"
    using text_put_control[OF f, of v] by blast
  show ?thesis
    using getFormValue_text[OF text_control_put[OF f g, of v]] getFormValue_text[OF g] e
    by (simp add: put_element_text kept_text_def)
qed

lemma kept_text_put: "text_page pg \<Longrightarrow> kept_text (setFormValue f v pg) = kept_text pg"
proof -
  assume "text_page pg"
  then have f: "text_control (controls pg f)" by (simp add: text_page_def)
  obtain e where "els (controls pg f) = [e]" "text_element e"
    "controls (setFormValue f v pg) = (controls pg)(f := (controls pg f)\<lparr>els := [put_element e v]\<rparr>)"
    using text_put_control[OF f, of v] by blast
  then show ?thesis by (auto simp: fun_eq_iff kept_text_def put_element_text)
qed

text \<open>Writing a field ticks or unticks its checkbox, and no other.\<close>

lemma ticked_put:
  assumes "text_page pg"
  shows "is_checkbox (setFormValue f v pg) = is_checkbox pg"
    "ticked (setFormValue f v pg) g = (if g = f \<and> is_checkbox pg f then checked_word v else ticked pg g)"
proof -
  have f: "text_control (controls pg f)" using assms by (simp add: text_page_def)
  obtain e where "els (controls pg f) = [e]" "text_element e"
    "controls (setFormValue f v pg) = (controls pg)(f := (controls pg f)\<lparr>els := [put_element e v]\<rparr>)"
    using text_put_control[OF f, of v] by blast
  then show "is_checkbox (setFormValue f v pg) = is_checkbox pg"
    "ticked (setFormValue f v pg) g = (if g = f \<and> is_checkbox pg f then checked_word v else ticked pg g)"
    by (auto simp: fun_eq_iff is_checkbox_def ticked_def put_element_text)
qed

interpretation text_form: form_store getFormValue setFormValue text_page kept_text
  by unfold_locales (simp_all add: get_put_text text_page_put kept_text_put)

section \<open>Dynamic lists\<close>

text \<open>A field shown as a dynamic list whose rows are text inputs.\<close>

definition list_control :: "control \<Rightarrow> bool" where
  "list_control c \<longleftrightarrow> buttons c \<noteq> None \<and> els c \<noteq> [] \<and>
     (\<forall>e\<in>set (els c). in_list e \<and> ekind e \<noteq> Id_only \<and> text_element e)"

definition row_element :: "element \<Rightarrow> jstr \<Rightarrow> element" where
  "row_element e v =
     (let e1 = put_element e v
      in case ecombo e1 of None \<Rightarrow> e1 | Some c \<Rightarrow> e1\<lparr>ecombo := Some (put_combo v c)\<rparr>)"

lemma put_element_frame: "in_list (put_element e v) = in_list e" "ekind (put_element e v) = ekind e"
  by (auto simp: put_element_def Let_def split: option.splits cm_place.splits)

lemma getElementValue_combo: "getElementValue (e\<lparr>ecombo := c\<rparr>) = getElementValue e"
  by (simp add: getElementValue_def getCodeMirrorInstance_def)

lemma row_element_value:
  "text_element e \<Longrightarrow> getElementValue (row_element e v) = kept_element e v"
  by (auto simp: row_element_def Let_def put_element_text getElementValue_combo split: option.splits)

lemma row_element_frame: "in_list (row_element e v) = in_list e" "ekind (row_element e v) = ekind e"
  by (auto simp: row_element_def Let_def put_element_frame split: option.splits)

lemma controls_row:
  assumes "i < length (els (controls pg f))"
  shows "controls (syncDynamicListSelect f i v (setElementValue f i v pg)) =
    (controls pg)(f := (controls pg f)\<lparr>els := (els (controls pg f))[i := row_element (els (controls pg f) ! i) v]\<rparr>)"
  using assms
  by (auto simp: syncDynamicListSelect_def setElementValue_def dispatchFieldChange_def upd_element_def
      row_element_def Let_def split: option.splits)

lemma controls_setRows:
  assumes "k \<le> length (els (controls pg f))"
  shows "controls (fold (\<lambda>(n, i) p. syncDynamicListSelect f i (item_at vs n) (setElementValue f i (item_at vs n) p))
      (enumerate 0 [0..<k]) pg) =
    (controls pg)(f := (controls pg f)\<lparr>els :=
      map (\<lambda>i. row_element (els (controls pg f) ! i) (item_at vs i)) [0..<k] @ drop k (els (controls pg f))\<rparr>)"
  using assms
proof (induction k)
  case 0
  then show ?case by simp
next
  case (Suc k)
  let ?es = "els (controls pg f)"
  let ?done = "map (\<lambda>i. row_element (?es ! i) (item_at vs i)) [0..<k]"
  have k: "k < length ?es" using Suc.prems by simp
  have "enumerate 0 [0..<Suc k] = enumerate 0 [0..<k] @ [(k, k)]"
    by (simp add: enumerate_append_eq)
  moreover have "(?done @ drop k ?es) ! k = ?es ! k" "k < length (?done @ drop k ?es)"
    using k by (simp_all add: nth_append)
  moreover have "(?done @ drop k ?es)[k := x] = ?done @ x # drop (Suc k) ?es" for x
    using k by (simp add: list_update_append Cons_nth_drop_Suc[symmetric])
  ultimately show ?case using Suc
    by (auto simp: controls_row fun_upd_def)
qed

lemma normalized_items: "x \<in> set (normalizeListValue v) \<Longrightarrow> truthy x"
  by (auto simp: normalizeListValue_def Let_def split: if_splits)

lemma items_truthy:
  assumes "length vs \<le> n" "\<forall>x\<in>set vs. truthy x"
  shows "filter truthy (map (item_at vs) [0..<n]) = vs"
proof -
  have "map (item_at vs) [0..<n] = vs @ replicate (n - length vs) []"
    using assms(1) by (intro nth_equalityI) (auto simp: item_at_def nth_append)
  then show ?thesis using assms(2) by (simp add: filter_id_conv)
qed

lemma getFormValue_cong: "controls a g = controls b g \<Longrightarrow> getFormValue a g = getFormValue b g"
  unfolding getFormValue_def getDynamicListInputs_def getFormElements_def by (simp only: Let_def)

lemma set_dynamic_list:
  assumes "isMultiValueField f" "list_control (controls pg f)"
    and rows: "length (normalizeListValue v) \<le> length (els (controls pg f))"
    and kept: "\<And>e x. e \<in> set (els (controls pg f)) \<Longrightarrow> x = [] \<or> x \<in> set (normalizeListValue v) \<Longrightarrow> kept_element e x = x"
  shows "getFormValue (setFormValue f v pg) f = js_join (js '','') (normalizeListValue v)"
    and "g \<noteq> f \<Longrightarrow> getFormValue (setFormValue f v pg) g = getFormValue pg g"
    and "timers (setFormValue f v pg) = timers pg"
proof -
  let ?es = "els (controls pg f)" and ?vs = "normalizeListValue v"
  let ?n = "length ?es"
  have e: "i < ?n \<Longrightarrow> in_list (?es ! i) \<and> ekind (?es ! i) \<noteq> Id_only \<and> text_element (?es ! i)" for i
    using assms(2) by (auto simp: list_control_def)
  have n: "?n \<noteq> 0" using assms(2) by (auto simp: list_control_def)
  have dyn: "getDynamicListInputs pg f = [0..<?n]"
    using assms(2) e by (auto simp: getDynamicListInputs_def list_control_def Let_def filter_id_conv)
  have set: "setFormValue f v pg = setRows f [0..<?n] ?vs pg"
  proof -
    have "\<not> ?n < max 1 (length ?vs)" using rows n by (auto simp: max_def)
    then show ?thesis using assms(1) n
      by (simp add: setFormValue_def setFormValue_retry_def Let_def dyn)
  qed
  let ?es' = "map (\<lambda>i. row_element (?es ! i) (item_at ?vs i)) [0..<?n]"
  have c: "controls (setFormValue f v pg) = (controls pg)(f := (controls pg f)\<lparr>els := ?es'\<rparr>)"
    using controls_setRows[of ?n pg f ?vs] unfolding set setRows_def by simp
  have "getDynamicListInputs (setFormValue f v pg) f = [0..<?n]"
    using assms(2) e by (auto simp: getDynamicListInputs_def list_control_def Let_def c filter_id_conv row_element_frame)
  moreover have "map (\<lambda>i. getElementValue (?es' ! i)) [0..<?n] = map (item_at ?vs) [0..<?n]"
  proof (rule map_cong[OF refl])
    fix i assume "i \<in> set [0..<?n]"
    then have i: "i < ?n" by simp
    have "item_at ?vs i = [] \<or> item_at ?vs i \<in> set ?vs" by (simp add: item_at_def)
    with i e[OF i] kept[OF nth_mem[OF i]] show "getElementValue (?es' ! i) = item_at ?vs i"
      by (simp add: row_element_value)
  qed
  then have "joined_values ?es' [0..<?n] = js_join (js '','') (filter truthy (map (item_at ?vs) [0..<?n]))"
    by (simp only: joined_values_def)
  moreover have "filter truthy (map (item_at ?vs) [0..<?n]) = ?vs"
    by (rule items_truthy[OF rows]) (auto dest: normalized_items)
  ultimately show "getFormValue (setFormValue f v pg) f = js_join (js '','') ?vs"
    using assms(1) n by (simp add: getFormValue_def Let_def c)
  show "g \<noteq> f \<Longrightarrow> getFormValue (setFormValue f v pg) g = getFormValue pg g"
    by (rule getFormValue_cong) (simp add: c)
  have "timers (fold (\<lambda>(n, i) p. syncDynamicListSelect f i (item_at vs n) (setElementValue f i (item_at vs n) p)) xs p) = timers p"
    for vs xs p
    by (induction xs arbitrary: p)
      (auto simp: syncDynamicListSelect_def setElementValue_def dispatchFieldChange_def upd_element_def Let_def
        split: option.splits)
  then show "timers (setFormValue f v pg) = timers pg" by (simp add: set setRows_def)
qed

section \<open>Retry timers\<close>

text \<open>
  One step of the page's event loop: a retry timer fires and calls \<open>setFormValue\<close> again,
  or the framework or the user changes the page without touching the timers.
\<close>

inductive page_step :: "page \<Rightarrow> nat \<Rightarrow> page \<Rightarrow> bool" where
  fire: "timers pg = xs @ (field, v, r) # ys \<Longrightarrow>
         page_step pg 1 (setFormValue_retry r field v (pg\<lparr>timers := xs @ ys\<rparr>))"
| react: "timers pg' = timers pg \<Longrightarrow> page_step pg 0 pg'"

inductive_cases page_stepE: "page_step pg n pg'"

text \<open>A run, with the number of timers that fired.\<close>

inductive page_run :: "page \<Rightarrow> nat \<Rightarrow> page \<Rightarrow> bool" where
  stop: "page_run pg 0 pg"
| next_step: "page_step pg m pg1 \<Longrightarrow> page_run pg1 n pg2 \<Longrightarrow> page_run pg (m + n) pg2"

definition timers_ok :: "page \<Rightarrow> bool" where
  "timers_ok pg \<longleftrightarrow> (\<forall>(f, v, r)\<in>set (timers pg). r \<le> 30)"

definition budget :: "page \<Rightarrow> nat" where
  "budget pg = (\<Sum>(f, v, r)\<leftarrow>timers pg. 31 - r)"

lemma timers_frame:
  "timers (setElementValue f i v pg) = timers pg"
  "timers (syncDynamicListSelect f i v pg) = timers pg"
  "timers (tryExpandDynamicListRows f n pg) = timers pg"
  by (auto simp: setElementValue_def syncDynamicListSelect_def dispatchFieldChange_def upd_element_def
      tryExpandDynamicListRows_def Let_def split: option.splits list.splits)

lemma timers_fold_rows:
  "timers (fold (\<lambda>(n, i) p. setElementValue f i (h n) p) xs pg) = timers pg"
  "timers (setRows f is vs pg) = timers pg"
proof -
  show "timers (fold (\<lambda>(n, i) p. setElementValue f i (h n) p) xs pg) = timers pg"
    by (induction xs arbitrary: pg) (auto simp: timers_frame)
  have "timers (fold (\<lambda>(n, i) p. syncDynamicListSelect f i (item_at vs n) (setElementValue f i (item_at vs n) p)) xs pg)
      = timers pg" for xs
    by (induction xs arbitrary: pg) (auto simp: timers_frame)
  then show "timers (setRows f is vs pg) = timers pg" by (simp add: setRows_def)
qed

text \<open>Writing a field adds at most one timer, with a larger count, and none from 30 on.\<close>

lemma setFormValue_timers:
  "timers (setFormValue_retry r f v pg) = timers pg \<or>
   r < 30 \<and> timers (setFormValue_retry r f v pg) = timers pg @ [(f, v, r + 1)]"
  by (simp add: setFormValue_retry_def Let_def timers_frame timers_fold_rows schedule_def)

lemma timers_ok_retry: "timers_ok pg \<Longrightarrow> timers_ok (setFormValue_retry r f v pg)"
  using setFormValue_timers[of r f v pg] by (auto simp: timers_ok_def)

lemma step_budget: "page_step pg n pg' \<Longrightarrow> timers_ok pg \<Longrightarrow> timers_ok pg' \<and> n + budget pg' \<le> budget pg"
proof (induction rule: page_step.induct)
  case (fire pg xs field v r ys)
  let ?q = "pg\<lparr>timers := xs @ ys\<rparr>"
  have r: "r \<le> 30" and q: "timers_ok ?q" using fire by (auto simp: timers_ok_def)
  have b: "budget pg = budget ?q + (31 - r)" using fire by (simp add: budget_def)
  have "budget (setFormValue_retry r field v ?q) \<le> budget ?q + (31 - (r + 1))"
    using setFormValue_timers[of r field v ?q] by (auto simp: budget_def)
  with b r timers_ok_retry[OF q] show ?case by simp
qed (simp add: timers_ok_def budget_def)

lemma run_budget: "page_run pg n pg' \<Longrightarrow> timers_ok pg \<Longrightarrow> timers_ok pg' \<and> n + budget pg' \<le> budget pg"
  by (induction rule: page_run.induct) (auto dest!: step_budget)

end
