(* ===== verification/Other_Params.thy ===== *)
theory Other_Params
  imports Query_String Form_Dom
begin

text \<open>
  The free-text field \<open>other_parameters\<close> of \<open>server_url.js\<close> (397-710): YAML
  lines at a fixed indentation, which an import fills with the query parameters it has no field for
  and an export reads back into the query. A parameter value is a scalar or a list; a scalar is a
  string, or the printed form of a number or boolean.
\<close>

section \<open>Lines\<close>

text \<open>\<open>replace(/\r\n?/g, '\n')\<close>.\<close>

fun norm_newlines :: "jstr \<Rightarrow> jstr" where
  "norm_newlines [] = []"
| "norm_newlines (c # s) =
     (if c = 13 then 10 # (case s of [] \<Rightarrow> [] | d # t \<Rightarrow> if d = 10 then norm_newlines t else norm_newlines s)
      else c # norm_newlines s)"

definition text_lines :: "jstr \<Rightarrow> jstr list" where
  "text_lines text = (let source = norm_newlines text in if source = [] then [] else js_split [10] source)"

definition strip_leading_nl :: "jstr \<Rightarrow> jstr" where
  "strip_leading_nl s = dropWhile (\<lambda>c. c = 10) s"

definition strip_trailing_nl :: "jstr \<Rightarrow> jstr" where
  "strip_trailing_nl s = rev (dropWhile (\<lambda>c. c = 10) (rev s))"

definition blank_line :: "jstr \<Rightarrow> bool" where
  "blank_line l \<longleftrightarrow> list_all is_ws l"

definition comment_line :: "jstr \<Rightarrow> bool" where
  "comment_line l \<longleftrightarrow> (case dropWhile is_ws l of [] \<Rightarrow> False | c # _ \<Rightarrow> c = 35)"

definition outdented :: "jstr \<Rightarrow> bool" where
  "outdented l \<longleftrightarrow> (case l of [] \<Rightarrow> False | c # _ \<Rightarrow> \<not> is_ws c)"

definition key_cu :: "cu \<Rightarrow> bool" where
  "key_cu c \<longleftrightarrow> alnum c \<or> c = 95 \<or> c = 45"

text \<open>\<open>/^ {4}([A-Za-z0-9_-]+):\s*(.*)$/\<close>: the key and the rest.\<close>

definition key_line :: "jstr \<Rightarrow> (jstr \<times> jstr) option" where
  "key_line l =
     (let k = takeWhile key_cu (drop 4 l); r = dropWhile key_cu (drop 4 l); rest = dropWhile is_ws (drop 1 r) in
      if starts_with (js ''    '') l \<and> k \<noteq> [] \<and> starts_with (js '':'') r \<and> list_all (\<lambda>c. \<not> is_lt c) rest
      then Some (k, rest) else None)"

text \<open>\<open>/^ {6}-\s*(.*)$/\<close>.\<close>

definition item_line :: "jstr \<Rightarrow> jstr option" where
  "item_line l =
     (let rest = dropWhile is_ws (drop 7 l) in
      if starts_with (js ''      -'') l \<and> list_all (\<lambda>c. \<not> is_lt c) rest then Some rest else None)"

section \<open>Scalars and blocks\<close>

definition stripYamlQuotes :: "jstr \<Rightarrow> jstr" where
  "stripYamlQuotes value =
     (let v = trim value in
      if 2 \<le> length v \<and> (hd v = 34 \<and> last v = 34 \<or> hd v = 39 \<and> last v = 39)
      then butlast (tl v) else v)"

text \<open>\<open>/^(true|false|null)$/i\<close> and \<open>/^-?\d+(\.\d+)?$/\<close>.\<close>

definition yaml_word :: "jstr \<Rightarrow> bool" where
  "yaml_word v \<longleftrightarrow> to_lower v \<in> set (map js [''true'', ''false'', ''null''])"

definition yaml_number :: "jstr \<Rightarrow> bool" where
  "yaml_number v =
     (let u = (if starts_with (js ''-'') v then drop 1 v else v);
          whole = takeWhile is_digit u; r = dropWhile is_digit u
      in whole \<noteq> [] \<and> (r = [] \<or> hd r = 46 \<and> tl r \<noteq> [] \<and> list_all is_digit (tl r)))"

fun replace_with :: "cu \<Rightarrow> jstr \<Rightarrow> jstr \<Rightarrow> jstr" where
  "replace_with c t [] = []"
| "replace_with c t (x # s) = (if x = c then t else [x]) @ replace_with c t s"

fun encodeYamlScalar :: "yscalar \<Rightarrow> jstr" where
  "encodeYamlScalar (YRaw t) = t"
| "encodeYamlScalar (YStr v) =
     (if yaml_word v \<or> yaml_number v then v
      else 34 # replace_with 34 [92, 34] (replace_with 92 [92, 92] v) @ [34])"

fun buildOtherParameterBlock :: "jstr \<Rightarrow> pvalue \<Rightarrow> jstr list" where
  "buildOtherParameterBlock key (PList vs) =
     (js ''    '' @ key @ js '':'') # map (\<lambda>v. js ''      - '' @ encodeYamlScalar v) vs"
| "buildOtherParameterBlock key (POne v) = [js ''    '' @ key @ js '': '' @ encodeYamlScalar v]"

definition keepOnlyCommentLines :: "jstr \<Rightarrow> jstr" where
  "keepOnlyCommentLines text =
     (let kept = filter (\<lambda>l. blank_line l \<or> comment_line l) (text_lines text)
      in js_join [10] (rev (dropWhile blank_line (rev kept))))"

section \<open>Building and updating the text\<close>

definition empty_value :: "pvalue \<Rightarrow> bool" where
  "empty_value v \<longleftrightarrow> v = POne (YStr [])"

definition param_lines :: "(jstr \<times> pvalue) list \<Rightarrow> jstr list" where
  "param_lines ps =
     fold (\<lambda>(key, v) lines. (if lines = [] then [] else lines @ [[]]) @ buildOtherParameterBlock key v)
       (filter (\<lambda>(key, v). \<not> empty_value v) ps) []"

definition rebuildOtherParametersFromState :: "import_state \<Rightarrow> jstr option" where
  "rebuildOtherParametersFromState st =
     (if params st \<noteq> [] \<and> \<not> callable_has_own (params st) then None
      else
        (let paramsText = js_join [10] (param_lines (own_entries (params st)));
             comments = strip_trailing_nl (norm_newlines (commentsText st))
         in Some (if truthy comments \<and> truthy paramsText then comments @ [10] @ paramsText
                  else or_else comments paramsText)))"

text \<open>The first line that sets \<open>key\<close>, and the lines of its block after it.\<close>

definition sets_key :: "jstr \<Rightarrow> jstr \<Rightarrow> bool" where
  "sets_key key l \<longleftrightarrow>
     (let p = js ''    '' @ key @ js '':''
      in starts_with p l \<and> list_all (\<lambda>c. \<not> is_lt c) (dropWhile is_ws (drop (length p) l)))"

definition block_end :: "jstr \<Rightarrow> bool" where
  "block_end l \<longleftrightarrow> key_line l \<noteq> None \<or> outdented l"

definition upsertOtherParameterText :: "jstr \<Rightarrow> jstr \<Rightarrow> pvalue \<Rightarrow> jstr" where
  "upsertOtherParameterText text key v =
     (let lines = text_lines text; block = buildOtherParameterBlock key v;
          before = takeWhile (\<lambda>l. \<not> sets_key key l) lines;
          after = dropWhile (\<lambda>l. \<not> sets_key key l) lines
      in strip_trailing_nl (strip_leading_nl (js_join [10]
           (if after = [] then (if lines \<noteq> [] \<and> last lines \<noteq> [] then lines @ [[]] else lines) @ block
            else before @ block @ dropWhile (\<lambda>l. \<not> block_end l) (tl after)))))"

section \<open>Parsing the text\<close>

text \<open>The items below a key, up to the next key or an outdented line; other lines are skipped.\<close>

fun list_items :: "jstr list \<Rightarrow> jstr list \<times> jstr list" where
  "list_items [] = ([], [])"
| "list_items (l # ls) =
     (case item_line l of
        Some v \<Rightarrow> (let (vs, r) = list_items ls in (stripYamlQuotes (trim v) # vs, r))
      | None \<Rightarrow> if block_end l then ([], l # ls) else list_items ls)"

lemma list_items_length: "length (snd (list_items ls)) \<le> length ls"
  by (induction ls rule: list_items.induct) (auto split: option.splits prod.splits)

text \<open>The value written on the key's own line.\<close>

definition inline_value :: "jstr \<Rightarrow> pvalue" where
  "inline_value rest =
     (if 2 \<le> length rest \<and> hd rest = 91 \<and> last rest = 93 \<and> list_all (\<lambda>c. \<not> is_lt c) rest then
        (let body = trim (butlast (tl rest))
         in PList (if body = [] then [] else map (\<lambda>p. YStr (stripYamlQuotes (trim p))) (js_split (js '','') body)))
      else POne (YStr (stripYamlQuotes rest)))"

function parse_lines :: "jstr list \<Rightarrow> pvalue obj \<Rightarrow> pvalue obj" where
  "parse_lines [] m = m"
| "parse_lines (l # ls) m =
     (case key_line l of
        None \<Rightarrow> parse_lines ls m
      | Some (key, r) \<Rightarrow>
          let rest = trim r in
          if rest \<noteq> [] then
            if hd rest = 35 then parse_lines ls m
            else parse_lines ls (obj_set m key (inline_value rest))
          else
            let (vs, ls') = list_items ls
            in parse_lines ls' (if vs \<noteq> [] then obj_set m key (PList (map YStr vs)) else m))"
  by pat_completeness auto
termination
proof (relation "measure (\<lambda>(ls, m). length ls)", goal_cases)
  case (5 l ls m x key r rest y vs ls')
  then have "ls' = snd (list_items ls)" by (metis snd_conv)
  then show ?case using list_items_length[of ls] by simp
qed auto

definition parseOtherParameters :: "jstr \<Rightarrow> pvalue obj" where
  "parseOtherParameters text = parse_lines (text_lines text) []"

section \<open>Parameters of a query\<close>

definition getDefaultOtherParamSkipKeys :: "string list" where
  "getDefaultOtherParamSkipKeys =
     [''name'', ''type'', ''server'', ''port'', ''username'', ''password'', ''uuid'', ''token'']"

text \<open>\<open>String(v)\<close> of a scalar, and the value a query carries.\<close>

fun scalar_string :: "yscalar \<Rightarrow> jstr" where
  "scalar_string (YStr s) = s"
| "scalar_string (YRaw s) = s"

fun query_value :: "pvalue \<Rightarrow> jstr" where
  "query_value (POne v) = scalar_string v"
| "query_value (PList vs) = js_join (js '','') (map scalar_string vs)"

text \<open>
  \<open>keyMap && keyMap[key] ? keyMap[key] : key\<close>. The names inherited from
  \<open>Object.prototype\<close> do not get here: every caller drops them before, with the same kind of
  lookup in its table of keys to skip (\<open>in_table\<close>).
\<close>

definition map_key :: "(string \<times> string) list \<Rightarrow> jstr \<Rightarrow> jstr" where
  "map_key keyMap key = (case map_of (map (\<lambda>(a, b). (js a, js b)) keyMap) key of Some k \<Rightarrow> k | None \<Rightarrow> key)"

definition merge_entries :: "(string \<times> string) list \<Rightarrow> string list \<Rightarrow> (jstr \<times> pvalue) list \<Rightarrow> jstr obj \<Rightarrow> jstr obj" where
  "merge_entries keyMap skipKeys es queryMap =
     fold (\<lambda>(key, v) q. if in_table skipKeys key then q else obj_set q (map_key keyMap key) (query_value v))
       es queryMap"

definition mergeOtherParametersToQuery ::
  "page \<Rightarrow> jstr obj \<Rightarrow> (string \<times> string) list \<Rightarrow> string list \<Rightarrow> jstr obj option" where
  "mergeOtherParametersToQuery pg queryMap keyMap skipKeys =
     (let other = parseOtherParameters (getFormValue pg ''other_parameters'')
      in if other \<noteq> [] \<and> \<not> callable_has_own other then None
         else Some (merge_entries keyMap skipKeys (own_entries other) queryMap))"

fun normalizeUnknownParamValueByKey :: "jstr \<Rightarrow> pvalue \<Rightarrow> pvalue" where
  "normalizeUnknownParamValueByKey key (PList vs) =
     (if isYamlListLikeKey key
      then PList (map YStr (filter truthy (map (\<lambda>v. trim (scalar_string v)) vs))) else PList vs)"
| "normalizeUnknownParamValueByKey key (POne v) =
     (if isYamlListLikeKey key
      then PList (map YStr (filter truthy (map trim (js_split (js '','') (scalar_string v))))) else POne v)"

definition collect_entries :: "string list \<Rightarrow> (jstr \<times> jstr) list \<Rightarrow> pvalue obj" where
  "collect_entries knownKeys es =
     fold (\<lambda>(key, v) r. if in_table knownKeys key then r
        else obj_set r key (normalizeUnknownParamValueByKey key (POne (YStr (decodeURIComponentSafe v))))) es []"

definition collectUnknownQueryParams :: "jstr obj \<Rightarrow> string list \<Rightarrow> pvalue obj option" where
  "collectUnknownQueryParams query knownKeys =
     (if query \<noteq> [] \<and> \<not> callable_has_own query then None
      else Some (collect_entries knownKeys (own_entries query)))"

definition remapParamKeys :: "pvalue obj \<Rightarrow> (string \<times> string) list \<Rightarrow> pvalue obj option" where
  "remapParamKeys ps keyMap =
     (if ps \<noteq> [] \<and> \<not> callable_has_own ps then None
      else Some (fold (\<lambda>(key, v) r. (let k = map_key keyMap key in obj_set r k (normalizeUnknownParamValueByKey k v)))
             (own_entries ps) []))"

section \<open>The import state\<close>

definition beginImportOtherParameters :: "page \<Rightarrow> page" where
  "beginImportOtherParameters pg =
     (let cleaned = keepOnlyCommentLines (getFormValue pg ''other_parameters'')
      in (setFormValue ''other_parameters'' cleaned pg)
           \<lparr>importing := Some \<lparr>commentsText = cleaned, params = []\<rparr>\<rparr>)"

definition endImportOtherParameters :: "page \<Rightarrow> page" where
  "endImportOtherParameters pg = pg\<lparr>importing := None\<rparr>"

text \<open>
  Adds the parameters an import does not know: to the state of the import in progress, which is
  then printed into the field, or else into the text of the field itself. \<open>Inl pg\<close> is an
  exception that leaves the page as \<open>pg\<close>.
\<close>

definition mergeUnknownParamsToOtherParameters :: "pvalue obj \<Rightarrow> page \<Rightarrow> page + page" where
  "mergeUnknownParamsToOtherParameters ps pg =
     (if ps \<noteq> [] \<and> \<not> callable_has_own ps then Inl pg
      else
        (let es = filter (\<lambda>(k, v). \<not> empty_value v) (own_entries ps) in
         case importing pg of
           Some st \<Rightarrow>
             (let st' = st\<lparr>params := fold (\<lambda>(k, v) o'. obj_set o' k v) es (params st)\<rparr>;
                  pg' = pg\<lparr>importing := Some st'\<rparr>
              in if es = [] then Inr pg
                 else (case rebuildOtherParametersFromState st' of
                         None \<Rightarrow> Inl pg'
                       | Some t \<Rightarrow> Inr (setFormValue ''other_parameters'' t pg')))
         | None \<Rightarrow>
             if es = [] then Inr pg
             else Inr (setFormValue ''other_parameters''
                    (fold (\<lambda>(k, v) t. upsertOtherParameterText t k v) es
                       (getFormValue pg ''other_parameters'')) pg)))"

end
