(* ===== verification/Page_Stmt.thy ===== *)
theory Page_Stmt
  imports Other_Params
begin

text \<open>
  The statements of the import functions: a statement changes the page and either goes on,
  throws, or returns from the function. What a statement did to the page before it threw stays
  done, as in the code. \<open>assigns s kvs\<close> says that a statement, from every page, is the
  sequence of field writes \<open>kvs\<close>; it is composed along the program text, and the field
  values after it come from the laws of the form.
\<close>

datatype flow = Norm | Throw | Ret bool

type_synonym stmt = "page \<Rightarrow> flow \<times> page"

fun seq :: "stmt list \<Rightarrow> stmt" where
  "seq [] pg = (Norm, pg)"
| "seq (s # ss) pg = (case s pg of (Norm, pg') \<Rightarrow> seq ss pg' | r \<Rightarrow> r)"

definition put :: "string \<Rightarrow> jstr \<Rightarrow> stmt" where
  "put field v pg = (Norm, setFormValue field v pg)"

text \<open>The value is computed by an expression that may throw.\<close>

definition put_try :: "string \<Rightarrow> jstr option \<Rightarrow> stmt" where
  "put_try field v pg = (case v of None \<Rightarrow> (Throw, pg) | Some v' \<Rightarrow> put field v' pg)"

definition js_if :: "bool \<Rightarrow> stmt \<Rightarrow> stmt" where
  "js_if c s pg = (if c then s pg else (Norm, pg))"

definition js_if_else :: "bool \<Rightarrow> stmt \<Rightarrow> stmt \<Rightarrow> stmt" where
  "js_if_else c s t pg = (if c then s pg else t pg)"

definition ret :: "bool \<Rightarrow> stmt" where
  "ret b pg = (Ret b, pg)"

definition throw :: stmt where
  "throw pg = (Throw, pg)"

text \<open>\<open>var x = e\<close> where \<open>e\<close> may throw.\<close>

definition bind_try :: "'a option \<Rightarrow> ('a \<Rightarrow> stmt) \<Rightarrow> stmt" where
  "bind_try e k pg = (case e of None \<Rightarrow> (Throw, pg) | Some x \<Rightarrow> k x pg)"

text \<open>\<open>mergeUnknownParamsToOtherParameters(sid, e)\<close>.\<close>

definition merge_unknown :: "pvalue obj option \<Rightarrow> stmt" where
  "merge_unknown e pg =
     (case e of
        None \<Rightarrow> (Throw, pg)
      | Some ps \<Rightarrow> (case mergeUnknownParamsToOtherParameters ps pg of Inl pg' \<Rightarrow> (Throw, pg') | Inr pg' \<Rightarrow> (Norm, pg')))"

section \<open>What the form operations leave alone\<close>

lemma element_frame:
  "importing (setElementValue f i v pg) = importing pg" "status (setElementValue f i v pg) = status pg"
  "importing (syncDynamicListSelect f i v pg) = importing pg" "status (syncDynamicListSelect f i v pg) = status pg"
  "importing (tryExpandDynamicListRows f n pg) = importing pg" "status (tryExpandDynamicListRows f n pg) = status pg"
  by (auto simp: setElementValue_def syncDynamicListSelect_def dispatchFieldChange_def upd_element_def
      tryExpandDynamicListRows_def Let_def split: option.splits list.splits)

lemma fold_frame:
  "importing (fold (\<lambda>(n, i) p. setElementValue f i (h n) p) xs pg) = importing pg"
  "status (fold (\<lambda>(n, i) p. setElementValue f i (h n) p) xs pg) = status pg"
  "importing (setRows f is vs pg) = importing pg" "status (setRows f is vs pg) = status pg"
proof -
  show "importing (fold (\<lambda>(n, i) p. setElementValue f i (h n) p) xs pg) = importing pg"
    "status (fold (\<lambda>(n, i) p. setElementValue f i (h n) p) xs pg) = status pg"
    by (induction xs arbitrary: pg) (auto simp: element_frame)
  have "importing (fold (\<lambda>(n, i) p. syncDynamicListSelect f i (item_at vs n) (setElementValue f i (item_at vs n) p)) ys pg) = importing pg"
    "status (fold (\<lambda>(n, i) p. syncDynamicListSelect f i (item_at vs n) (setElementValue f i (item_at vs n) p)) ys pg) = status pg" for ys
    by (induction ys arbitrary: pg) (auto simp: element_frame)
  then show "importing (setRows f is vs pg) = importing pg" "status (setRows f is vs pg) = status pg"
    by (simp_all add: setRows_def)
qed

lemma setFormValue_frame [simp]:
  "importing (setFormValue f v pg) = importing pg" "status (setFormValue f v pg) = status pg"
  by (simp_all add: setFormValue_def setFormValue_retry_def Let_def element_frame fold_frame schedule_def)

lemma text_page_importing [simp]:
  "text_page (pg\<lparr>importing := x\<rparr>) = text_page pg" "getFormValue (pg\<lparr>importing := x\<rparr>) f = getFormValue pg f"
  "kept_text (pg\<lparr>importing := x\<rparr>) = kept_text pg"
  by (auto simp: text_page_def kept_text_def fun_eq_iff intro!: getFormValue_cong)

lemma text_page_status [simp]:
  "text_page (pg\<lparr>status := x\<rparr>) = text_page pg" "getFormValue (pg\<lparr>status := x\<rparr>) f = getFormValue pg f"
  "kept_text (pg\<lparr>status := x\<rparr>) = kept_text pg"
  by (auto simp: text_page_def kept_text_def fun_eq_iff intro!: getFormValue_cong)

section \<open>Statements that only write fields\<close>

abbreviation puts :: "(string \<times> jstr) list \<Rightarrow> page \<Rightarrow> page" where
  "puts \<equiv> text_form.puts"

lemma puts_simps: "puts [] pg = pg" "puts ((f, v) # kvs) pg = puts kvs (setFormValue f v pg)"
  "puts (kvs @ kvs') pg = puts kvs' (puts kvs pg)"
  by (simp_all add: text_form.puts_def)

lemma puts_frame [simp]: "importing (puts kvs pg) = importing pg" "status (puts kvs pg) = status pg"
  by (induction kvs arbitrary: pg) (auto simp: puts_simps)

definition assigns :: "stmt \<Rightarrow> (string \<times> jstr) list \<Rightarrow> bool" where
  "assigns s kvs \<longleftrightarrow> (\<forall>pg. s pg = (Norm, puts kvs pg))"

named_theorems assigns_intros \<open>composing assigns along the text of a function\<close>

lemma assigns_put [assigns_intros]: "assigns (put f v) [(f, v)]"
  by (simp add: assigns_def put_def puts_simps)

lemma assigns_put_try: "e = Some v \<Longrightarrow> assigns (put_try f e) [(f, v)]"
  by (simp add: assigns_def put_try_def put_def puts_simps)

lemma assigns_if [assigns_intros]: "(c \<Longrightarrow> assigns s kvs) \<Longrightarrow> assigns (js_if c s) (if c then kvs else [])"
  by (auto simp: assigns_def js_if_def puts_simps)

lemma assigns_if_else [assigns_intros]:
  "(c \<Longrightarrow> assigns s kvs) \<Longrightarrow> (\<not> c \<Longrightarrow> assigns t kvs') \<Longrightarrow> assigns (js_if_else c s t) (if c then kvs else kvs')"
  by (auto simp: assigns_def js_if_else_def)

lemma assigns_seq_Nil [assigns_intros]: "assigns (seq []) []"
  by (simp add: assigns_def puts_simps)

lemma assigns_seq_Cons [assigns_intros]:
  "assigns s kvs \<Longrightarrow> assigns (seq ss) kvs' \<Longrightarrow> assigns (seq (s # ss)) (kvs @ kvs')"
  by (simp add: assigns_def puts_simps)

lemma seq_append: "seq (ss @ ts) pg = (case seq ss pg of (Norm, pg') \<Rightarrow> seq ts pg' | r \<Rightarrow> r)"
  by (induction ss arbitrary: pg) (auto split: prod.splits flow.splits)

lemma seq_step: "assigns s kvs \<Longrightarrow> seq (s # ss) pg = seq ss (puts kvs pg)"
  by (simp add: assigns_def)

text \<open>Reading a field of a text page after such a statement.\<close>

lemma get_page_puts:
  "text_page pg \<Longrightarrow> getFormValue (puts kvs pg) g =
     (case map_of (rev kvs) g of Some v \<Rightarrow> kept_text pg g v | None \<Rightarrow> getFormValue pg g)"
  by (rule text_form.get_puts)

lemma puts_page:
  "text_page pg \<Longrightarrow> text_page (puts kvs pg)" "text_page pg \<Longrightarrow> kept_text (puts kvs pg) = kept_text pg"
  using text_form.puts_invariant[of pg kvs] by auto

text \<open>Merging no parameters changes nothing.\<close>

lemma merge_unknown_none: "merge_unknown (Some []) pg = (Norm, pg)"
  by (simp add: merge_unknown_def mergeUnknownParamsToOtherParameters_def own_entries_def split: option.splits)

section \<open>The last write to a field\<close>

definition last_write :: "(string \<times> jstr) list \<Rightarrow> string \<Rightarrow> jstr option" where
  "last_write kvs g = map_of (rev kvs) g"

text \<open>A later value where there is one.\<close>

definition later :: "'a option \<Rightarrow> 'a option \<Rightarrow> 'a option" where
  "later a b = (case b of None \<Rightarrow> a | Some v \<Rightarrow> Some v)"

lemma later_simps [form_simps, simp]: "later a None = a" "later None b = b" "later a (Some v) = Some v"
  by (simp_all add: later_def split: option.splits)

lemma last_write_simps [form_simps]:
  "last_write [] g = None"
  "last_write [(f, v)] g = (if f = g then Some v else None)"
  "last_write (a @ b) g = later (last_write a g) (last_write b g)"
  "last_write (if c then a else b) g = (if c then last_write a g else last_write b g)"
  by (simp_all add: last_write_def later_def map_add_def split: option.splits)

lemmas write_simps = form_simps if_True if_False if_cancel list.inject char.inject simp_thms

lemma get_last_write:
  "text_page pg \<Longrightarrow> getFormValue (puts kvs pg) g =
     (case last_write kvs g of Some v \<Rightarrow> kept_text pg g v | None \<Rightarrow> getFormValue pg g)"
  by (simp add: get_page_puts last_write_def)

lemma ticked_last_write:
  assumes "text_page pg"
  shows "is_checkbox (puts kvs pg) = is_checkbox pg"
    "ticked (puts kvs pg) g =
       (case last_write kvs g of Some v \<Rightarrow> if is_checkbox pg g then checked_word v else ticked pg g | None \<Rightarrow> ticked pg g)"
proof -
  have "is_checkbox (puts kvs pg) = is_checkbox pg \<and> ticked (puts kvs pg) g =
      (case last_write kvs g of Some v \<Rightarrow> if is_checkbox pg g then checked_word v else ticked pg g | None \<Rightarrow> ticked pg g)"
    using assms
  proof (induction kvs arbitrary: pg)
    case (Cons kv kvs)
    obtain f v where kv: "kv = (f, v)" by (cases kv)
    have lw: "last_write (kv # kvs) g = (case last_write kvs g of None \<Rightarrow> if f = g then Some v else None | Some w \<Rightarrow> Some w)"
      by (simp add: kv last_write_def map_add_def split: option.split)
    have put: "puts (kv # kvs) pg = puts kvs (setFormValue f v pg)" by (simp add: kv puts_simps)
    note IH = Cons.IH[OF text_page_put[OF Cons.prems, of f v]] and tick = ticked_put[OF Cons.prems, of f v]
    show ?case
    proof (cases "last_write kvs g")
      case None
      then show ?thesis unfolding put lw using IH tick(1) tick(2)[of g] by simp
    next
      case (Some w)
      then show ?thesis unfolding put lw using IH tick(1) tick(2)[of g] by simp
    qed
  qed (simp add: puts_simps last_write_simps)
  then show "is_checkbox (puts kvs pg) = is_checkbox pg"
    "ticked (puts kvs pg) g =
       (case last_write kvs g of Some v \<Rightarrow> if is_checkbox pg g then checked_word v else ticked pg g | None \<Rightarrow> ticked pg g)"
    by blast+
qed

text \<open>A function body: writes, the merge of the unknown parameters, success.\<close>

definition finishes :: "stmt \<Rightarrow> (string \<times> jstr) list \<Rightarrow> bool" where
  "finishes s kvs \<longleftrightarrow> (\<forall>pg. s pg = (Ret True, puts kvs pg))"

lemma finishes_end [assigns_intros]: "e = Some [] \<Longrightarrow> finishes (seq [merge_unknown e, ret True]) []"
  by (simp add: finishes_def merge_unknown_none ret_def puts_simps)

lemma finishes_Cons [assigns_intros]:
  "assigns s kvs \<Longrightarrow> finishes (seq ss) kvs' \<Longrightarrow> finishes (seq (s # ss)) (kvs @ kvs')"
  by (simp add: assigns_def finishes_def puts_simps)

lemma finishes_bind: "e = Some v \<Longrightarrow> finishes (k v) kvs \<Longrightarrow> finishes (bind_try e k) kvs"
  by (simp add: finishes_def bind_try_def)

lemma finishes_single: "finishes s kvs \<Longrightarrow> finishes (seq [s]) kvs"
  by (simp add: finishes_def)

lemma assigns_bind: "e = Some v \<Longrightarrow> assigns (k v) kvs \<Longrightarrow> assigns (bind_try e k) kvs"
  by (simp add: assigns_def bind_try_def)

lemma assigns_end: "e = Some [] \<Longrightarrow> assigns (seq [merge_unknown e]) []"
  by (simp add: assigns_def merge_unknown_none puts_simps)

lemma finishes_ret: "finishes (seq [ret True]) []"
  by (simp add: finishes_def ret_def puts_simps)

end
