(* ===== verification/Export_Links.thy ===== *)
theory Export_Links
  imports Base64 Url_Parse Page_Stmt
begin

text \<open>
  The export functions of \<open>server_url.js\<close> (824-1629, without vmess): each reads the form
  and prints a sharing link. The result is \<open>None\<close> when an exception leaves the function,
  \<open>Some None\<close> for \<open>null\<close>, \<open>Some (Some link)\<close> otherwise. A query is
  written as the list of its conditional assignments in program order.
\<close>

section \<open>Shared parts\<close>

text \<open>\<open>if (c) queryMap.k = v;\<close> for each entry.\<close>

definition query_of :: "(bool \<times> string \<times> jstr) list \<Rightarrow> jstr obj" where
  "query_of es = fold (\<lambda>(c, k, v) q. if c then obj_set q (js k) v else q) es []"

text \<open>\<open>'#' + encodeURIComponent(name)\<close> when there is a name.\<close>

definition name_part :: "jstr \<Rightarrow> jstr option" where
  "name_part name = (if truthy name then map_option ((@) (js ''#'')) (encodeURIComponent name) else Some [])"

text \<open>The query with the parameters of the free-text field, printed.\<close>

definition print_query :: "page \<Rightarrow> (bool \<times> string \<times> jstr) list \<Rightarrow> (string \<times> string) list \<Rightarrow> jstr option" where
  "print_query pg es keyMap = do {
     q \<leftarrow> mergeOtherParametersToQuery pg (query_of es) keyMap getDefaultOtherParamSkipKeys;
     queryMapToString q
   }"

text \<open>\<open>headers.split('Host:')[1].trim()\<close>.\<close>

definition host_header :: "jstr \<Rightarrow> jstr" where
  "host_header headers = trim (js_split (js ''Host:'') headers ! 1)"

definition has_host :: "jstr \<Rightarrow> bool" where
  "has_host headers \<longleftrightarrow> truthy headers \<and> js_includes headers (js ''Host:'')"

definition is_true :: "jstr \<Rightarrow> bool" where
  "is_true s \<longleftrightarrow> s = js ''true''"

section \<open>Shadowsocks\<close>

definition ss_plugin :: "page \<Rightarrow> jstr" where
  "ss_plugin pg =
     (let g = getFormValue pg; obfs = g ''obfs''; host = g ''host''; path = g ''path'' in
      if truthy obfs \<and> obfs \<noteq> js ''none'' then
        if obfs = js ''http'' \<or> obfs = js ''tls'' then
          js ''obfs-local;obfs='' @ obfs @ (if truthy host then js '';obfs-host='' @ host else [])
        else if obfs = js ''websocket'' then
          js ''v2ray-plugin;mode=websocket'' @ (if truthy host then js '';host='' @ host else [])
            @ (if truthy path then js '';path='' @ path else [])
            @ (if is_true (g ''tls'') then js '';tls=true'' else [])
        else []
      else [])"

definition exportSS :: "page \<Rightarrow> jstr option option" where
  "exportSS pg =
     (let g = getFormValue pg in
      if \<not> truthy (g ''server'') \<or> \<not> truthy (g ''port'') \<or> \<not> truthy (g ''password'') \<or> \<not> truthy (g ''cipher'')
      then Some None
      else do {
        userInfo \<leftarrow> b64encsafe (g ''cipher'' @ js '':'' @ g ''password'');
        query \<leftarrow> print_query pg
          [(truthy (ss_plugin pg), ''plugin'', ss_plugin pg),
           (is_true (g ''udp_over_tcp''), ''uot'', js ''1'')] [];
        name \<leftarrow> name_part (g ''name'');
        Some (Some (js ''ss://'' @ userInfo @ js ''@'' @ g ''server'' @ js '':'' @ g ''port'' @ js ''/?'' @ query @ name))
      })"

section \<open>ShadowsocksR\<close>

definition exportSSR :: "page \<Rightarrow> jstr option option" where
  "exportSSR pg =
     (let g = getFormValue pg in
      if \<not> truthy (g ''server'') \<or> \<not> truthy (g ''port'') \<or> \<not> truthy (g ''password'') \<or> \<not> truthy (g ''cipher'')
      then Some None
      else do {
        obfsparam \<leftarrow> b64encsafe (g ''obfs_param'');
        protoparam \<leftarrow> b64encsafe (g ''protocol_param'');
        remarks \<leftarrow> b64encutf8safe (g ''name'');
        q \<leftarrow> mergeOtherParametersToQuery pg
          (query_of [(True, ''obfsparam'', obfsparam), (True, ''protoparam'', protoparam), (True, ''remarks'', remarks)])
          [] getDefaultOtherParamSkipKeys;
        password \<leftarrow> b64encsafe (g ''password'');
        query \<leftarrow> queryMapToString q;
        link \<leftarrow> b64encsafe (g ''server'' @ js '':'' @ g ''port'' @ js '':'' @ g ''protocol'' @ js '':'' @ g ''cipher''
          @ js '':'' @ g ''obfs_ssr'' @ js '':'' @ password @ js ''/?'' @ query);
        Some (Some (js ''ssr://'' @ link))
      })"

section \<open>VLESS\<close>

definition vless_query :: "page \<Rightarrow> (bool \<times> string \<times> jstr) list" where
  "vless_query pg =
     (let g = getFormValue pg;
          obfs = g ''obfs_vless''; flow = g ''vless_flow''; tls = is_true (g ''tls'');
          pbk = g ''reality_public_key''; short = g ''reality_short_id'';
          xtls = truthy flow \<and> js_includes flow (js ''xtls'');
          ws = (obfs = js ''ws''); grpc = (obfs = js ''grpc''); xhttp = (obfs = js ''xhttp'')
      in [(obfs = js ''tcp'', ''encryption'', or_else (g ''vless_encryption'') (js ''none'')),
          (tls, ''security'', if xtls then js ''xtls'' else if truthy pbk \<or> truthy short then js ''reality'' else js ''tls''),
          (tls \<and> xtls, ''flow'', flow),
          (tls \<and> truthy (g ''servername''), ''sni'', g ''servername''),
          (truthy (g ''client_fingerprint''), ''fp'', g ''client_fingerprint''),
          (truthy pbk, ''pbk'', pbk),
          (truthy short, ''sid'', short),
          (True, ''type'', if ws then js ''ws'' else if grpc then js ''grpc'' else if xhttp then js ''xhttp'' else js ''tcp''),
          (ws \<and> truthy (g ''ws_path'') \<or> xhttp \<and> truthy (g ''xhttp_opts_path''), ''path'',
             if ws then g ''ws_path'' else g ''xhttp_opts_path''),
          (ws \<and> has_host (g ''ws_headers'') \<or> xhttp \<and> truthy (g ''xhttp_opts_host''), ''host'',
             if ws then host_header (g ''ws_headers'') else g ''xhttp_opts_host''),
          (grpc \<and> truthy (g ''grpc_service_name''), ''serviceName'', g ''grpc_service_name'')])"

definition exportVless :: "page \<Rightarrow> jstr option option" where
  "exportVless pg =
     (let g = getFormValue pg in
      if \<not> truthy (g ''server'') \<or> \<not> truthy (g ''port'') \<or> \<not> truthy (g ''uuid'') then Some None
      else do {
        query \<leftarrow> print_query pg (vless_query pg)
          [(''client-fingerprint'', ''fp''), (''public-key'', ''pbk''), (''short-id'', ''sid''),
           (''grpc-service-name'', ''serviceName'')];
        name \<leftarrow> name_part (g ''name'');
        Some (Some (js ''vless://'' @ g ''uuid'' @ js ''@'' @ g ''server'' @ js '':'' @ g ''port'' @ js ''?'' @ query @ name))
      })"

section \<open>Trojan\<close>

definition trojan_query :: "page \<Rightarrow> (bool \<times> string \<times> jstr) list" where
  "trojan_query pg =
     (let g = getFormValue pg; obfs = g ''obfs_trojan''; ws = (obfs = js ''ws''); grpc = (obfs = js ''grpc'')
      in [(truthy (g ''sni''), ''sni'', g ''sni''),
          (truthy (g ''alpn''), ''alpn'', g ''alpn''),
          (ws \<or> grpc, ''type'', if ws then js ''ws'' else js ''grpc''),
          (ws \<and> truthy (g ''ws_path''), ''path'', g ''ws_path''),
          (ws \<and> has_host (g ''ws_headers''), ''host'', host_header (g ''ws_headers'')),
          (grpc \<and> truthy (g ''grpc_service_name''), ''serviceName'', g ''grpc_service_name''),
          (is_true (g ''skip_cert_verify''), ''allowInsecure'', js ''1''),
          (truthy (g ''fingerprint''), ''pcs'', g ''fingerprint'')])"

definition exportTrojan :: "page \<Rightarrow> jstr option option" where
  "exportTrojan pg =
     (let g = getFormValue pg in
      if \<not> truthy (g ''server'') \<or> \<not> truthy (g ''port'') \<or> \<not> truthy (g ''password'') then Some None
      else do {
        password \<leftarrow> encodeURIComponent (g ''password'');
        query \<leftarrow> print_query pg (trojan_query pg)
          [(''client-fingerprint'', ''fp''), (''grpc-service-name'', ''serviceName'')];
        name \<leftarrow> name_part (g ''name'');
        Some (Some (js ''trojan://'' @ password @ js ''@'' @ g ''server'' @ js '':'' @ g ''port'' @ js ''/?'' @ query @ name))
      })"

section \<open>Hysteria\<close>

definition hysteria_query :: "page \<Rightarrow> (bool \<times> string \<times> jstr) list" where
  "hysteria_query pg =
     (let g = getFormValue pg
      in [(truthy (g ''hysteria_auth_str''), ''auth'', g ''hysteria_auth_str''),
          (truthy (g ''hysteria_protocol''), ''protocol'', g ''hysteria_protocol''),
          (truthy (g ''hysteria_up''), ''up'', g ''hysteria_up''),
          (truthy (g ''hysteria_down''), ''down'', g ''hysteria_down''),
          (truthy (g ''hysteria_obfs''), ''obfs'', g ''hysteria_obfs''),
          (truthy (g ''sni''), ''peer'', g ''sni''),
          (truthy (g ''alpn''), ''alpn'', g ''alpn''),
          (is_true (g ''skip_cert_verify''), ''insecure'', js ''1''),
          (truthy (g ''ports''), ''ports'', g ''ports''),
          (truthy (g ''hop_interval''), ''hop-interval'', g ''hop_interval''),
          (truthy (g ''recv_window_conn''), ''recv-window-conn'', g ''recv_window_conn''),
          (truthy (g ''recv_window''), ''recv-window'', g ''recv_window''),
          (is_true (g ''disable_mtu_discovery''), ''disable-mtu-discovery'', js ''1''),
          (is_true (g ''fast_open''), ''fast-open'', js ''1''),
          (truthy (g ''fingerprint''), ''fingerprint'', g ''fingerprint'')])"

definition exportHysteria :: "page \<Rightarrow> jstr option option" where
  "exportHysteria pg =
     (let g = getFormValue pg in
      if \<not> truthy (g ''server'') \<or> \<not> truthy (g ''port'') then Some None
      else do {
        query \<leftarrow> print_query pg (hysteria_query pg)
          [(''sni'', ''peer''), (''auth-str'', ''auth''), (''obfs-param'', ''obfsParam'')];
        name \<leftarrow> name_part (g ''name'');
        Some (Some (js ''hysteria://'' @ g ''server'' @ js '':'' @ g ''port'' @ js ''?'' @ query @ name))
      })"

section \<open>Hysteria 2\<close>

definition hysteria2_query :: "page \<Rightarrow> (bool \<times> string \<times> jstr) list" where
  "hysteria2_query pg =
     (let g = getFormValue pg
      in [(truthy (g ''hysteria_obfs''), ''obfs'', g ''hysteria_obfs''),
          (truthy (g ''obfs_password''), ''obfs-password'', g ''obfs_password''),
          (truthy (g ''hysteria_up''), ''up'', g ''hysteria_up''),
          (truthy (g ''hysteria_down''), ''down'', g ''hysteria_down''),
          (truthy (g ''sni''), ''sni'', g ''sni''),
          (truthy (g ''alpn''), ''alpn'', g ''alpn''),
          (is_true (g ''skip_cert_verify''), ''insecure'', js ''1''),
          (truthy (g ''fingerprint''), ''pinSHA256'', g ''fingerprint''),
          (truthy (g ''ports''), ''ports'', g ''ports''),
          (truthy (g ''hop_interval''), ''hop-interval'', g ''hop_interval''),
          (truthy (g ''initial_stream_receive_window''), ''initial-stream-receive-window'', g ''initial_stream_receive_window''),
          (truthy (g ''max_stream_receive_window''), ''max-stream-receive-window'', g ''max_stream_receive_window''),
          (truthy (g ''initial_connection_receive_window''), ''initial-connection-receive-window'',
             g ''initial_connection_receive_window''),
          (truthy (g ''max_connection_receive_window''), ''max-connection-receive-window'',
             g ''max_connection_receive_window'')])"

definition exportHysteria2 :: "page \<Rightarrow> jstr option option" where
  "exportHysteria2 pg =
     (let g = getFormValue pg in
      if \<not> truthy (g ''server'') \<or> \<not> truthy (g ''port'') then Some None
      else do {
        auth \<leftarrow> (if truthy (g ''password'') then map_option (\<lambda>p. p @ js ''@'') (encodeURIComponent (g ''password''))
                  else Some []);
        query \<leftarrow> print_query pg (hysteria2_query pg) [(''fingerprint'', ''pinSHA256'')];
        name \<leftarrow> name_part (g ''name'');
        Some (Some (js ''hysteria2://'' @ auth @ g ''server'' @ js '':'' @ g ''port'' @ js ''?'' @ query @ name))
      })"

section \<open>TUIC\<close>

definition tuic_query :: "page \<Rightarrow> (bool \<times> string \<times> jstr) list" where
  "tuic_query pg =
     (let g = getFormValue pg
      in [(truthy (g ''congestion_controller''), ''congestion_control'', g ''congestion_controller''),
          (truthy (g ''alpn''), ''alpn'', g ''alpn''),
          (truthy (g ''sni''), ''sni'', g ''sni''),
          (is_true (g ''disable_sni''), ''disable_sni'', js ''1''),
          (truthy (g ''udp_relay_mode''), ''udp_relay_mode'', g ''udp_relay_mode''),
          (is_true (g ''reduce_rtt''), ''reduce_rtt'', js ''1''),
          (truthy (g ''heartbeat_interval''), ''heartbeat-interval'', g ''heartbeat_interval''),
          (truthy (g ''request_timeout''), ''request-timeout'', g ''request_timeout''),
          (truthy (g ''max_udp_relay_packet_size''), ''max-udp-relay-packet-size'', g ''max_udp_relay_packet_size''),
          (truthy (g ''max_open_streams''), ''max-open-streams'', g ''max_open_streams''),
          (truthy (g ''fast_open''), ''fast-open'', g ''fast_open''),
          (truthy (g ''skip_cert_verify''), ''skip-cert-verify'', g ''skip_cert_verify'')])"

definition tuic_userinfo :: "page \<Rightarrow> jstr option" where
  "tuic_userinfo pg =
     (let g = getFormValue pg in
      if truthy (g ''password'') then do {
        u \<leftarrow> encodeURIComponent (g ''uuid'');
        p \<leftarrow> encodeURIComponent (g ''password'');
        Some (u @ js '':'' @ p @ js ''@'')
      }
      else if truthy (g ''token'') then map_option (\<lambda>t. t @ js ''@'') (encodeURIComponent (g ''token''))
      else Some [])"

definition exportTuic :: "page \<Rightarrow> jstr option option" where
  "exportTuic pg =
     (let g = getFormValue pg in
      if \<not> truthy (g ''server'') \<or> \<not> truthy (g ''port'') then Some None
      else do {
        auth \<leftarrow> tuic_userinfo pg;
        query \<leftarrow> print_query pg (tuic_query pg)
          [(''congestion-controller'', ''congestion_control''), (''disable-sni'', ''disable_sni''),
           (''udp-relay-mode'', ''udp_relay_mode''), (''reduce-rtt'', ''reduce_rtt'')];
        name \<leftarrow> name_part (g ''name'');
        Some (Some (js ''tuic://'' @ auth @ g ''server'' @ js '':'' @ g ''port'' @ js ''?'' @ query @ name))
      })"

section \<open>SOCKS and HTTP\<close>

text \<open>User and password, when both are given; the query and name.\<close>

definition pair_userinfo :: "jstr \<Rightarrow> jstr \<Rightarrow> jstr option" where
  "pair_userinfo username password =
     (if truthy username \<and> truthy password then do {
        u \<leftarrow> encodeURIComponent username;
        p \<leftarrow> encodeURIComponent password;
        Some (u @ js '':'' @ p @ js ''@'')
      } else Some [])"

definition query_part :: "jstr \<Rightarrow> jstr" where
  "query_part query = (if truthy query then js ''?'' @ query else [])"

definition exportSocks :: "page \<Rightarrow> jstr option option" where
  "exportSocks pg =
     (let g = getFormValue pg in
      if \<not> truthy (g ''server'') \<or> \<not> truthy (g ''port'') then Some None
      else do {
        auth \<leftarrow> pair_userinfo (g ''username'') (g ''password'');
        query \<leftarrow> print_query pg [] [];
        name \<leftarrow> name_part (g ''name'');
        Some (Some (js ''socks5://'' @ auth @ g ''server'' @ js '':'' @ g ''port'' @ query_part query @ name))
      })"

definition exportHttp :: "page \<Rightarrow> jstr option option" where
  "exportHttp pg =
     (let g = getFormValue pg; scheme = (if is_true (g ''tls'') then js ''https'' else js ''http'') in
      if \<not> truthy (g ''server'') \<or> \<not> truthy (g ''port'') then Some None
      else do {
        auth \<leftarrow> pair_userinfo (g ''username'') (g ''password'');
        query \<leftarrow> print_query pg [] [];
        name \<leftarrow> name_part (g ''name'');
        Some (Some (scheme @ js ''://'' @ auth @ g ''server'' @ js '':'' @ g ''port'' @ query_part query @ name))
      })"

section \<open>AnyTLS\<close>

text \<open>The user name comes from the free-text parameters.\<close>

definition other_username :: "pvalue obj \<Rightarrow> jstr" where
  "other_username other =
     (case obj_get other (js ''username'') of
        None \<Rightarrow> []
      | Some (POne v) \<Rightarrow> scalar_string v
      | Some (PList vs) \<Rightarrow> (case vs of [] \<Rightarrow> [] | v # _ \<Rightarrow> scalar_string v))"

definition anytls_userinfo :: "jstr \<Rightarrow> jstr \<Rightarrow> jstr option" where
  "anytls_userinfo username password =
     (if truthy username then do {
        u \<leftarrow> encodeURIComponent username;
        p \<leftarrow> (if truthy password then map_option ((@) (js '':'')) (encodeURIComponent password) else Some []);
        Some (u @ p @ js ''@'')
      } else Some [])"

definition anytls_query :: "page \<Rightarrow> (bool \<times> string \<times> jstr) list" where
  "anytls_query pg =
     (let g = getFormValue pg
      in [(truthy (g ''sni''), ''sni'', g ''sni''),
          (is_true (g ''skip_cert_verify''), ''insecure'', js ''1''),
          (truthy (g ''alpn''), ''alpn'', g ''alpn''),
          (truthy (g ''client_fingerprint''), ''client-fingerprint'', g ''client_fingerprint''),
          (truthy (g ''udp''), ''udp'', g ''udp''),
          (truthy (g ''idle_session_check_interval''), ''idle-session-check-interval'', g ''idle_session_check_interval''),
          (truthy (g ''idle_session_timeout''), ''idle-session-timeout'', g ''idle_session_timeout''),
          (truthy (g ''min_idle_session''), ''min-idle-session'', g ''min_idle_session'')])"

definition exportAnyTLS :: "page \<Rightarrow> jstr option option" where
  "exportAnyTLS pg =
     (let g = getFormValue pg; other = parseOtherParameters (g ''other_parameters'') in
      if \<not> callable_has_own other then None
      else if \<not> truthy (g ''server'') \<or> \<not> truthy (g ''port'') then Some None
      else do {
        auth \<leftarrow> anytls_userinfo (other_username other) (g ''password'');
        query \<leftarrow> print_query pg (anytls_query pg) [(''fingerprint'', ''hpkp'')];
        name \<leftarrow> name_part (g ''name'');
        Some (Some (js ''anytls://'' @ auth @ g ''server'' @ js '':'' @ g ''port'' @ js ''?'' @ query @ name))
      })"

section \<open>Mieru\<close>

text \<open>The non-empty items of a comma-separated list, trimmed.\<close>

definition list_items_of :: "jstr \<Rightarrow> jstr list" where
  "list_items_of s = filter truthy (map trim (js_split (js '','') s))"

definition mieru_query :: "page \<Rightarrow> (bool \<times> string \<times> jstr) list" where
  "mieru_query pg =
     (let g = getFormValue pg; transport = or_else (g ''transport'') (js ''TCP'');
          items = list_items_of (g ''port_range''); range = truthy (g ''port_range'')
      in [(\<not> range \<or> items \<noteq> [], ''port'', if range then js_join (js '','') items else g ''port''),
          (\<not> range \<or> items \<noteq> [], ''protocol'',
             if range then js_join (js '','') (map (\<lambda>_. transport) items) else transport),
          (truthy (g ''multiplexing''), ''multiplexing'', g ''multiplexing'')])"

definition exportMieru :: "page \<Rightarrow> jstr option option" where
  "exportMieru pg =
     (let g = getFormValue pg in
      if \<not> truthy (g ''server'') \<or> \<not> truthy (g ''username'') \<or> \<not> truthy (g ''password'')
         \<or> (\<not> truthy (g ''port'') \<and> \<not> truthy (g ''port_range''))
      then Some None
      else do {
        u \<leftarrow> encodeURIComponent (g ''username'');
        p \<leftarrow> encodeURIComponent (g ''password'');
        query \<leftarrow> print_query pg (mieru_query pg) [];
        name \<leftarrow> name_part (g ''name'');
        Some (Some (js ''mierus://'' @ u @ js '':'' @ p @ js ''@'' @ g ''server'' @ js ''?'' @ query @ name))
      })"

section \<open>Printed queries\<close>

text \<open>
  \<open>enc\<close> is the percent-encoding where it is defined; the pages considered for round trips
  have no parameters in the free-text field.
\<close>

definition enc :: "jstr \<Rightarrow> jstr" where
  "enc v = the (encodeURIComponent v)"

lemma enc_Some: "well_formed v \<Longrightarrow> encodeURIComponent v = Some (enc v)"
  unfolding enc_def using encode_well_formed[of v] by auto

lemma enc_Nil [simp]: "enc [] = []"
  by (simp add: enc_def)

lemma well_formed_units: "well_formed v \<Longrightarrow> units v"
  by (simp add: well_formed_def)

lemma truthy_enc: "well_formed v \<Longrightarrow> truthy (enc v) \<longleftrightarrow> truthy v"
  using encode_nonempty[OF enc_Some[of v]] by (auto simp: truthy_def)

lemma dec_enc: "well_formed v \<Longrightarrow> decodeURIComponent (enc v) = Some v"
  "well_formed v \<Longrightarrow> decodeURIComponentSafe (enc v) = v"
  using decode_encode_uri[OF _ enc_Some] decode_safe_encoded[OF _ enc_Some] well_formed_units by blast+

lemma enc_safe: "well_formed v \<Longrightarrow> c \<in> set (enc v) \<Longrightarrow> uri_safe c"
  using encode_uri_safe[OF _ enc_Some] well_formed_units by blast

lemma uri_safe_word: "uri_safe c \<Longrightarrow> word_cu c \<and> c \<noteq> 64 \<and> c \<noteq> 38 \<and> c \<noteq> 61 \<and> c \<noteq> 44 \<and> \<not> is_lt c"
  by (auto simp: uri_safe_def unreserved_def alnum_def word_cu_def is_lt_def)

lemma atom_enc: "well_formed v \<Longrightarrow> atom (enc v)"
  using enc_safe[of v] uri_safe_word by (auto simp: atom_def list_all_iff)

lemma decodeFragment_enc: "well_formed v \<Longrightarrow> stable v \<Longrightarrow> decodeFragment (enc v) = v"
  by (rule decodeFragment_encoded[OF well_formed_units _ enc_Some])

lemma query_of_distinct:
  assumes "distinct (map (\<lambda>(c, k, v). k) es)" "''__proto__'' \<notin> set (map (\<lambda>(c, k, v). k) es)"
  shows "query_of es = map (\<lambda>(c, k, v). (js k, v)) (filter fst es)"
proof -
  have "fold (\<lambda>(c, k, v) q. if c then obj_set q (js k) v else q) es q = q @ map (\<lambda>(c, k, v). (js k, v)) (filter fst es)"
    if "\<forall>k\<in>set (map (\<lambda>(c, k, v). k) es). js k \<notin> set (map fst q)" for q
    using assms that
  proof (induction es arbitrary: q)
    case (Cons e es)
    obtain c k v where e: "e = (c, k, v)" by (cases e)
    have put: "obj_set q (js k) v = q @ [(js k, v)]"
      using Cons.prems e by (auto simp: obj_set_def obj_put_fresh)
    have "k \<notin> set (map (\<lambda>(c, k, v). k) es)" using Cons.prems(1) e by simp
    then have fresh: "\<forall>k'\<in>set (map (\<lambda>(c, k, v). k) es). k' \<noteq> k" by metis
    show ?case
    proof (cases c)
      case True
      have "\<forall>k'\<in>set (map (\<lambda>(c, k, v). k) es). js k' \<notin> set (map fst (q @ [(js k, v)]))"
        using Cons.prems fresh e by auto
      from Cons.IH[OF _ _ this] Cons.prems e True put show ?thesis by simp
    next
      case False
      with Cons e show ?thesis by simp
    qed
  qed simp
  from this[of "[]"] show ?thesis by (simp add: query_of_def)
qed

text \<open>Reading a query parameter by name; \<open>undefined\<close> is \<open>[]\<close>.\<close>

definition getq :: "jstr obj \<Rightarrow> string \<Rightarrow> jstr" where
  "getq q k = (case obj_get q (js k) of Some v \<Rightarrow> v | None \<Rightarrow> [])"

definition keys_of :: "(bool \<times> string \<times> jstr) list \<Rightarrow> string list" where
  "keys_of es = map (\<lambda>(c, k, v). k) es"

definition ascii_key :: "string \<Rightarrow> bool" where
  "ascii_key k \<longleftrightarrow> k \<noteq> ''__proto__'' \<and> k \<noteq> ''hasOwnProperty''"

definition good_entries :: "(bool \<times> string \<times> jstr) list \<Rightarrow> bool" where
  "good_entries es \<longleftrightarrow> distinct (keys_of es) \<and> list_all ascii_key (keys_of es) \<and> (\<forall>(c, k, v)\<in>set es. c \<longrightarrow> well_formed v)"

lemma js_range: "c \<in> set (js k) \<Longrightarrow> 0 \<le> c \<and> c < 256"
  by (auto simp: js_def of_char_range[THEN conjunct1] of_char_range[THEN conjunct2])

lemma units_js: "units (js k)"
  using js_range by (force simp: units_def)

lemma well_formed_js [simp]: "well_formed (js k)"
  using code_points_ascii[of "js k"] js_range[of _ k] units_js[of k]
  by (force simp: well_formed_def)

lemma plain_query_of:
  assumes "good_entries es"
  shows "plain_query (query_of es)"
proof -
  have q: "query_of es = map (\<lambda>(c, k, v). (js k, v)) (filter fst es)"
    using assms by (intro query_of_distinct) (auto simp: good_entries_def keys_of_def list_all_iff ascii_key_def)
  have "distinct (map (\<lambda>(c, k, v). k) (filter fst es))"
    using assms by (auto simp: good_entries_def keys_of_def distinct_map_filter)
  then have "distinct (map js (map (\<lambda>(c, k, v). k) (filter fst es)))"
    by (simp only: distinct_map inj_on_def js_inject) simp
  moreover have "map fst (query_of es) = map js (map (\<lambda>(c, k, v). k) (filter fst es))"
    by (simp add: q case_prod_unfold)
  ultimately have "distinct (map fst (query_of es))" by simp
  moreover have "\<forall>(k, v)\<in>set (query_of es). plain_key k \<and> units v"
    using assms units_js
    by (fastforce simp: q good_entries_def keys_of_def list_all_iff ascii_key_def plain_key_def well_formed_units)
  ultimately show ?thesis by (simp add: plain_query_def)
qed

lemma get_query_of:
  assumes "good_entries es" "(c, k, v) \<in> set es"
  shows "obj_get (query_of es) (js k) = (if c then Some v else None)"
proof -
  have q: "query_of es = map (\<lambda>(c, k, v). (js k, v)) (filter fst es)"
    using assms by (intro query_of_distinct) (auto simp: good_entries_def keys_of_def list_all_iff ascii_key_def)
  have d: "distinct (map fst (query_of es))"
    using plain_query_of[OF assms(1)] by (simp add: plain_query_def)
  have u: "c' = c \<and> v' = v" if "(c', k, v') \<in> set es" for c' v'
  proof -
    have "inj_on (\<lambda>(c, k, v). k) (set es)"
      using assms(1) by (simp add: good_entries_def keys_of_def distinct_map)
    from inj_onD[OF this, of "(c', k, v')" "(c, k, v)"] that assms(2) show ?thesis by simp
  qed
  show ?thesis
  proof (cases c)
    case True
    then have "(js k, v) \<in> set (query_of es)" using assms(2) by (force simp: q)
    with d True show ?thesis by (simp add: obj_get_member)
  next
    case False
    have "obj_get (query_of es) (js k) = None"
    proof (cases "obj_get (query_of es) (js k)")
      case (Some w)
      then have "(js k, w) \<in> set (query_of es)" using d by (simp add: obj_get_member)
      then show ?thesis using u[of True w] False by (auto simp: q)
    qed
    with False show ?thesis by simp
  qed
qed

text \<open>
  The query printed for a page without free parameters, parsed again: every parameter reads as the
  encoding of its value, and there are no others.
\<close>

lemma print_query_parse:
  assumes es: "good_entries es" and other: "parseOtherParameters (getFormValue pg ''other_parameters'') = []"
  obtains t q where "print_query pg es km = Some t" "35 \<notin> set t" "parseQuery (63 # t) = Some q"
    "callable_has_own q" "set (map fst q) \<subseteq> js ` set (keys_of (filter fst es))"
    "\<forall>(c, k, v)\<in>set es. getq q k = (if c then enc v else [])"
    "es = [] \<longrightarrow> t = []"
proof -
  let ?q = "query_of es"
  have pq: "plain_query ?q" by (rule plain_query_of[OF es])
  have own: "callable_has_own ?q"
    using pq by (auto simp: callable_has_own_def has_key_def plain_query_def plain_key_def)
  have wf: "(k, v) \<in> set ?q \<Longrightarrow> well_formed k \<and> well_formed v" for k v
  proof -
    assume kv: "(k, v) \<in> set ?q"
    have q: "?q = map (\<lambda>(c, k, v). (js k, v)) (filter fst es)"
      using es by (intro query_of_distinct) (auto simp: good_entries_def keys_of_def list_all_iff ascii_key_def)
    with kv es show ?thesis by (auto simp: q good_entries_def)
  qed
  have "enc_pair (k, v) = Some (enc k @ 61 # enc v)" if "(k, v) \<in> set (printed_entries ?q)" for k v
    using wf[of k v] that by (auto simp: enc_pair_def enc_Some printed_entries_def set_own_entries)
  then have pairs: "map_opt enc_pair (printed_entries ?q) = Some (map (\<lambda>(k, v). enc k @ 61 # enc v) (printed_entries ?q))"
    by (intro map_opt_Some) auto
  define t where "t = js_join [38] (map (\<lambda>(k, v). enc k @ 61 # enc v) (printed_entries ?q))"
  have t: "queryMapToString ?q = Some t"
    using pairs own by (simp add: queryMapToString_def printed_entries_def t_def)
  obtain q' where q': "parseQuery (63 # t) = Some q'"
    and look: "\<And>k. obj_get q' k = (case obj_get ?q k of
       Some v \<Rightarrow> if truthy v then Some (the (encodeURIComponent v)) else None | None \<Rightarrow> None)"
    using parse_print_lookup[OF pq t] by blast
  have keys: "set (map fst q') \<subseteq> set (map fst ?q)"
  proof
    fix k assume "k \<in> set (map fst q')"
    then have "obj_get q' k \<noteq> None" by (simp add: obj_get_def map_of_eq_None_iff)
    then have "obj_get ?q k \<noteq> None" using look[of k] by (auto split: option.splits)
    then show "k \<in> set (map fst ?q)" by (simp add: obj_get_def map_of_eq_None_iff)
  qed
  have fstq: "set (map fst ?q) \<subseteq> js ` set (keys_of (filter fst es))"
    using es query_of_distinct[of es] by (force simp: good_entries_def keys_of_def list_all_iff ascii_key_def)
  show ?thesis
  proof (rule that)
    show "print_query pg es km = Some t"
      using other t by (simp add: print_query_def mergeOtherParametersToQuery_def merge_entries_def own_entries_def)
    show "35 \<notin> set t"
    proof
      assume "35 \<in> set t"
      then obtain k v where "(k, v) \<in> set (printed_entries ?q)" "35 \<in> set (enc k) \<or> 35 \<in> set (enc v)"
        unfolding t_def by (auto dest!: set_js_join)
      then show False
        using wf[of k v] enc_safe[of k 35] enc_safe[of v 35]
        by (auto simp: printed_entries_def set_own_entries uri_safe_def unreserved_def alnum_def)
    qed
    show "parseQuery (63 # t) = Some q'" by (rule q')
    show "set (map fst q') \<subseteq> js ` set (keys_of (filter fst es))" using keys fstq by blast
    show "callable_has_own q'" using own keys by (auto simp: callable_has_own_def has_key_def)
    have "getq q' k = (if c then enc v else [])" if "(c, k, v) \<in> set es" for c k v
      using get_query_of[OF es that] look[of "js k"] by (auto simp: getq_def enc_def truthy_def)
    then show "\<forall>(c, k, v)\<in>set es. getq q' k = (if c then enc v else [])" by blast
    show "es = [] \<longrightarrow> t = []"
      by (simp add: t_def query_of_def printed_entries_def own_entries_def)
  qed
qed

end
