(* ===== verification/Import_Links.thy ===== *)
theory Import_Links
  imports Export_Links
begin

text \<open>
  The import functions of \<open>server_url.js\<close> (1801-2012 and 2190-2851, without vmess):
  each parses a sharing link and writes the form, statement by statement. The platform's
  \<open>URL\<close> constructor, which \<open>parseUrl\<close> falls back to, is the parameter
  \<open>new_url\<close>.
\<close>

section \<open>Shared parts\<close>

text \<open>
  \<open>var parsed = parseUrl(url); if (!parsed) return false; var query = parseQuery(parsed.search);\<close>
\<close>

definition with_url :: "(jstr \<Rightarrow> url option) \<Rightarrow> jstr \<Rightarrow> (url \<Rightarrow> jstr obj \<Rightarrow> stmt list) \<Rightarrow> stmt" where
  "with_url new_url link body pg =
     (case parseUrl new_url link of
        None \<Rightarrow> (Ret False, pg)
      | Some u \<Rightarrow> bind_try (parseQuery (u_search u)) (\<lambda>q. seq (body u q)) pg)"

text \<open>\<open>if (x) setFormValue(field, decodeURIComponentSafe(x))\<close>, and the throwing variant.\<close>

definition put_dec :: "string \<Rightarrow> jstr \<Rightarrow> stmt" where
  "put_dec field x = js_if (truthy x) (put field (decodeURIComponentSafe x))"

definition put_dec_try :: "string \<Rightarrow> jstr \<Rightarrow> stmt" where
  "put_dec_try field x = js_if (truthy x) (put_try field (decodeURIComponent x))"

definition put_name :: "url \<Rightarrow> stmt" where
  "put_name u = js_if (truthy (u_hash u)) (put ''name'' (decodeFragment (drop 1 (u_hash u))))"

definition one_or_true :: "jstr \<Rightarrow> bool" where
  "one_or_true x \<longleftrightarrow> x = js ''1'' \<or> x = js ''true''"

definition true_false :: "jstr \<Rightarrow> jstr" where
  "true_false x = (if one_or_true x then js ''true'' else js ''false'')"

section \<open>VLESS\<close>

definition vless_body :: "url \<Rightarrow> jstr obj \<Rightarrow> stmt list" where
  "vless_body u query =
     (let q = getq query; network = to_lower (or_else (q ''type'') (js ''tcp''));
          tcp = (network = js ''tcp''); ws = (network = js ''ws''); grpc = (network = js ''grpc'');
          xhttp = (network = js ''xhttp''); security = q ''security'';
          pbk = or_else (q ''pbk'') (q ''public-key''); short = or_else (q ''sid'') (q ''short-id'')
      in [put ''type'' (js ''vless''),
          put ''server'' (u_hostname u),
          put ''port'' (or_else (u_port u) (js ''443'')),
          put ''uuid'' (decodeURIComponentSafe (u_username u)),
          put ''obfs_vless'' (if ws then js ''ws'' else if grpc then js ''grpc'' else if xhttp then js ''xhttp'' else js ''tcp''),
          js_if_else (security = js ''tls'' \<or> security = js ''xtls'')
            (seq [put ''tls'' (js ''true''),
                  put_dec_try ''servername'' (q ''sni''),
                  js_if (security = js ''xtls'' \<and> tcp) (put ''vless_flow'' (or_else (q ''flow'') (js ''xtls-rprx-direct'')))])
            (js_if (security = js ''reality'')
              (seq [put ''tls'' (js ''true''),
                    put_dec_try ''servername'' (q ''sni''),
                    js_if ((tcp \<or> grpc) \<and> truthy pbk) (put ''reality_public_key'' pbk),
                    js_if ((tcp \<or> grpc) \<and> truthy short) (put ''reality_short_id'' short)])),
          js_if tcp (put_dec ''vless_encryption'' (q ''encryption'')),
          put_dec ''client_fingerprint'' (q ''fp''),
          js_if tcp (put_dec ''vless_flow'' (q ''flow'')),
          js_if_else ws
            (seq [put_try ''ws_path'' (decodeURIComponent (or_else (q ''path'') (js ''/''))),
                  js_if (truthy (q ''host''))
                    (put_try ''ws_headers'' (map_option ((@) (js ''Host: '')) (decodeURIComponent (q ''host''))))])
            (js_if_else grpc
              (put_try ''grpc_service_name'' (decodeURIComponent (or_else (q ''serviceName'') (q ''path''))))
              (js_if xhttp
                (seq [put_dec_try ''xhttp_opts_path'' (q ''path''), put_dec_try ''xhttp_opts_host'' (q ''host'')]))),
          put_name u,
          merge_unknown (collectUnknownQueryParams query
            ([''security'', ''sni'', ''flow'', ''type'', ''path'', ''host'', ''serviceName'', ''pbk'', ''public-key'',
              ''sid'', ''short-id'', ''fp''] @ (if tcp then [''encryption''] else []))),
          ret True])"

definition parseVless :: "(jstr \<Rightarrow> url option) \<Rightarrow> jstr \<Rightarrow> stmt" where
  "parseVless new_url link = with_url new_url link vless_body"

section \<open>Trojan\<close>

definition trojan_body :: "url \<Rightarrow> jstr obj \<Rightarrow> stmt list" where
  "trojan_body u query =
     (let q = getq query; network = to_lower (q ''type'')
      in [put ''type'' (js ''trojan''),
          put ''server'' (u_hostname u),
          put ''port'' (or_else (u_port u) (js ''443'')),
          put ''password'' (decodeURIComponentSafe (u_username u)),
          put ''obfs_trojan'' (js ''none''),
          put_dec_try ''sni'' (q ''sni''),
          put_dec_try ''alpn'' (q ''alpn''),
          put_dec ''fingerprint'' (q ''pcs''),
          js_if_else (network = js ''ws'')
            (seq [put ''obfs_trojan'' (js ''ws''),
                  put_try ''ws_path'' (decodeURIComponent (or_else (q ''path'') (js ''/''))),
                  js_if (truthy (q ''host''))
                    (put_try ''ws_headers'' (map_option ((@) (js ''Host: '')) (decodeURIComponent (q ''host''))))])
            (js_if (network = js ''grpc'')
              (seq [put ''obfs_trojan'' (js ''grpc''),
                    put_try ''grpc_service_name'' (decodeURIComponent (q ''serviceName''))])),
          js_if (one_or_true (q ''allowInsecure'')) (put ''skip_cert_verify'' (js ''true'')),
          put_name u,
          merge_unknown (do {
            ps \<leftarrow> collectUnknownQueryParams query
              [''sni'', ''alpn'', ''allowInsecure'', ''type'', ''path'', ''host'', ''serviceName'', ''pcs''];
            remapParamKeys ps [(''fp'', ''client-fingerprint''), (''serviceName'', ''grpc-service-name'')]
          }),
          ret True])"

definition parseTrojan :: "(jstr \<Rightarrow> url option) \<Rightarrow> jstr \<Rightarrow> stmt" where
  "parseTrojan new_url link = with_url new_url link trojan_body"

section \<open>Hysteria\<close>

text \<open>A port list in the authority: its first port, and the hopping ports.\<close>

definition authority_ports :: "jstr \<Rightarrow> jstr \<times> jstr" where
  "authority_ports authorityPort =
     (let parts = js_split (js '','') authorityPort;
          basePort = or_else (hd parts) (js ''443'');
          hopPorts = js_join (js '','') (tl parts)
      in if js_includes basePort (js ''-'')
         then (hd (js_split (js ''-'') basePort), if truthy hopPorts then basePort @ js '','' @ hopPorts else basePort)
         else (basePort, hopPorts))"

definition applyHysteriaAuthorityPort :: "jstr \<Rightarrow> stmt" where
  "applyHysteriaAuthorityPort authorityPort =
     (let (basePort, hopPorts) = authority_ports authorityPort
      in seq [put ''port'' basePort,
              js_if (truthy hopPorts)
                (seq [put ''flag_port_hopping'' (js ''1''), put ''ports'' hopPorts])])"

text \<open>\<open>replace(/[^0-9]/g, '')\<close>.\<close>

definition digits_only :: "jstr \<Rightarrow> jstr" where
  "digits_only s = filter is_digit s"

definition flagged :: "string \<Rightarrow> string \<Rightarrow> jstr \<Rightarrow> jstr \<Rightarrow> stmt" where
  "flagged flag field x v = js_if (truthy x) (seq [put flag (js ''1''), put field v])"

definition hysteria_body :: "url \<Rightarrow> jstr obj \<Rightarrow> stmt list" where
  "hysteria_body u query =
     (let q = getq query; dec = decodeURIComponentSafe;
          up = or_else (q ''up'') (q ''upmbps''); down = or_else (q ''down'') (q ''downmbps'');
          obfs = or_else (q ''obfs'') (q ''obfsParam''); peer = or_else (q ''peer'') (q ''sni'')
      in [put ''type'' (js ''hysteria''),
          put ''server'' (u_hostname u),
          applyHysteriaAuthorityPort (u_port u),
          put_dec ''hysteria_auth_str'' (q ''auth''),
          flagged ''flag_transport'' ''hysteria_protocol'' (q ''protocol'') (q ''protocol''),
          flagged ''flag_port_hopping'' ''ports'' (q ''ports'') (dec (q ''ports'')),
          js_if (truthy (q ''hop-interval''))
            (seq [put ''flag_port_hopping'' (js ''1''), put ''flag_transport'' (js ''1''),
                  put ''hop_interval'' (dec (q ''hop-interval''))]),
          js_if (truthy up) (put ''hysteria_up'' (digits_only (dec up))),
          js_if (truthy down) (put ''hysteria_down'' (digits_only (dec down))),
          put_dec ''hysteria_obfs'' obfs,
          put_dec ''sni'' peer,
          put_dec ''alpn'' (q ''alpn''),
          js_if (one_or_true (q ''insecure'')) (put ''skip_cert_verify'' (js ''true'')),
          flagged ''flag_quicparam'' ''recv_window_conn'' (q ''recv-window-conn'') (dec (q ''recv-window-conn'')),
          flagged ''flag_quicparam'' ''recv_window'' (q ''recv-window'') (dec (q ''recv-window'')),
          flagged ''flag_quicparam'' ''disable_mtu_discovery'' (q ''disable-mtu-discovery'')
            (true_false (q ''disable-mtu-discovery'')),
          flagged ''flag_quicparam'' ''fast_open'' (q ''fast-open'') (true_false (q ''fast-open'')),
          put_dec ''fingerprint'' (q ''fingerprint''),
          put_name u,
          merge_unknown (collectUnknownQueryParams query
            [''auth'', ''protocol'', ''up'', ''upmbps'', ''down'', ''downmbps'', ''obfs'', ''obfsParam'', ''peer'', ''sni'',
             ''alpn'', ''insecure'', ''ports'', ''hop-interval'', ''recv-window-conn'', ''recv-window'',
             ''disable-mtu-discovery'', ''fast-open'', ''fingerprint'']),
          ret True])"

definition parseHysteria :: "(jstr \<Rightarrow> url option) \<Rightarrow> jstr \<Rightarrow> stmt" where
  "parseHysteria new_url link = with_url new_url link hysteria_body"

section \<open>Hysteria 2\<close>

definition hysteria2_body :: "url \<Rightarrow> jstr obj \<Rightarrow> stmt list" where
  "hysteria2_body u query =
     (let q = getq query; dec = decodeURIComponentSafe
      in [put ''type'' (js ''hysteria2''),
          put ''server'' (u_hostname u),
          applyHysteriaAuthorityPort (u_port u),
          put_dec ''password'' (u_username u),
          put_dec ''hysteria_obfs'' (q ''obfs''),
          put_dec ''obfs_password'' (q ''obfs-password''),
          put_dec ''hysteria_up'' (q ''up''),
          put_dec ''hysteria_down'' (q ''down''),
          put_dec ''sni'' (q ''sni''),
          put_dec ''alpn'' (q ''alpn''),
          js_if (one_or_true (q ''insecure'')) (put ''skip_cert_verify'' (js ''true'')),
          put_dec ''fingerprint'' (q ''pinSHA256''),
          flagged ''flag_port_hopping'' ''ports'' (q ''ports'') (dec (q ''ports'')),
          flagged ''flag_port_hopping'' ''hop_interval'' (q ''hop-interval'') (dec (q ''hop-interval'')),
          flagged ''flag_quicparam'' ''initial_stream_receive_window'' (q ''initial-stream-receive-window'')
            (dec (q ''initial-stream-receive-window'')),
          flagged ''flag_quicparam'' ''max_stream_receive_window'' (q ''max-stream-receive-window'')
            (dec (q ''max-stream-receive-window'')),
          flagged ''flag_quicparam'' ''initial_connection_receive_window'' (q ''initial-connection-receive-window'')
            (dec (q ''initial-connection-receive-window'')),
          flagged ''flag_quicparam'' ''max_connection_receive_window'' (q ''max-connection-receive-window'')
            (dec (q ''max-connection-receive-window'')),
          put_name u,
          merge_unknown (collectUnknownQueryParams query
            [''obfs'', ''obfs-password'', ''up'', ''down'', ''sni'', ''alpn'', ''insecure'', ''pinSHA256'', ''protocol'',
             ''ports'', ''hop-interval'', ''initial-stream-receive-window'', ''max-stream-receive-window'',
             ''initial-connection-receive-window'', ''max-connection-receive-window'']),
          ret True])"

definition parseHysteria2 :: "(jstr \<Rightarrow> url option) \<Rightarrow> jstr \<Rightarrow> stmt" where
  "parseHysteria2 new_url link = with_url new_url link hysteria2_body"

section \<open>TUIC\<close>

definition tuic_body :: "url \<Rightarrow> jstr obj \<Rightarrow> stmt list" where
  "tuic_body u query =
     (let q = getq query; dec = decodeURIComponentSafe;
          cc = or_else (q ''congestion_control'') (q ''congestion-controller'')
      in [put ''type'' (js ''tuic''),
          put ''server'' (u_hostname u),
          put ''port'' (or_else (u_port u) (js ''443'')),
          js_if_else (truthy (u_password u))
            (seq [put ''uuid'' (dec (u_username u)), put ''password'' (dec (u_password u))])
            (put ''token'' (dec (u_username u))),
          put_dec ''congestion_controller'' cc,
          put_dec_try ''alpn'' (q ''alpn''),
          put_dec_try ''sni'' (q ''sni''),
          js_if (one_or_true (q ''disable_sni'')) (put ''disable_sni'' (js ''true'')),
          put_dec_try ''udp_relay_mode'' (q ''udp_relay_mode''),
          js_if (one_or_true (q ''reduce_rtt'')) (put ''reduce_rtt'' (js ''true'')),
          put_dec ''heartbeat_interval'' (q ''heartbeat-interval''),
          put_dec ''request_timeout'' (q ''request-timeout''),
          put_dec ''max_udp_relay_packet_size'' (q ''max-udp-relay-packet-size''),
          put_dec ''max_open_streams'' (q ''max-open-streams''),
          js_if (truthy (q ''fast-open'')) (put ''fast_open'' (true_false (q ''fast-open''))),
          js_if (truthy (q ''skip-cert-verify'')) (put ''skip_cert_verify'' (true_false (q ''skip-cert-verify''))),
          put_name u,
          merge_unknown (collectUnknownQueryParams query
            [''congestion_control'', ''congestion-controller'', ''alpn'', ''sni'', ''disable_sni'', ''udp_relay_mode'',
             ''reduce_rtt'', ''heartbeat-interval'', ''request-timeout'', ''max-udp-relay-packet-size'',
             ''max-open-streams'', ''fast-open'', ''skip-cert-verify'']),
          ret True])"

definition parseTuic :: "(jstr \<Rightarrow> url option) \<Rightarrow> jstr \<Rightarrow> stmt" where
  "parseTuic new_url link = with_url new_url link tuic_body"

section \<open>SOCKS and HTTP\<close>

definition user_pass :: "url \<Rightarrow> stmt" where
  "user_pass u =
     js_if (truthy (u_username u))
       (seq [put ''username'' (decodeURIComponentSafe (u_username u)),
             put_dec ''password'' (u_password u)])"

definition name_or_address :: "url \<Rightarrow> stmt" where
  "name_or_address u =
     js_if_else (truthy (u_hash u)) (put ''name'' (decodeFragment (drop 1 (u_hash u))))
       (put ''name'' (u_hostname u @ js '':'' @ u_port u))"

definition socks_body :: "url \<Rightarrow> jstr obj \<Rightarrow> stmt list" where
  "socks_body u query =
     [put ''type'' (js ''socks5''),
      put ''server'' (u_hostname u),
      put ''port'' (or_else (u_port u) (js ''1080'')),
      user_pass u,
      name_or_address u,
      merge_unknown (collectUnknownQueryParams query []),
      ret True]"

definition parseSocks :: "(jstr \<Rightarrow> url option) \<Rightarrow> jstr \<Rightarrow> stmt" where
  "parseSocks new_url link = with_url new_url link socks_body"

definition http_body :: "url \<Rightarrow> jstr obj \<Rightarrow> stmt list" where
  "http_body u query =
     (let https = (u_protocol u = js ''https:'')
      in [put ''type'' (js ''http''),
          put ''server'' (u_hostname u),
          put ''port'' (or_else (u_port u) (if https then js ''443'' else js ''80'')),
          js_if https (put ''tls'' (js ''true'')),
          user_pass u,
          name_or_address u,
          merge_unknown (collectUnknownQueryParams query []),
          ret True])"

definition parseHttp :: "(jstr \<Rightarrow> url option) \<Rightarrow> jstr \<Rightarrow> stmt" where
  "parseHttp new_url link = with_url new_url link http_body"

section \<open>AnyTLS\<close>

definition anytls_body :: "url \<Rightarrow> jstr obj \<Rightarrow> stmt list" where
  "anytls_body u query =
     (let q = getq query; fp = or_else (q ''client-fingerprint'') (q ''fp'')
      in [put ''type'' (js ''anytls''),
          put ''server'' (u_hostname u),
          put ''port'' (or_else (u_port u) (js ''443'')),
          put ''password'' (decodeURIComponentSafe (or_else (u_password u) (u_username u))),
          put_dec ''sni'' (q ''sni''),
          put_dec ''alpn'' (q ''alpn''),
          js_if (one_or_true (q ''insecure'')) (put ''skip_cert_verify'' (js ''true'')),
          put_dec ''client_fingerprint'' fp,
          js_if (truthy (q ''udp'')) (put ''udp'' (true_false (q ''udp''))),
          put_dec ''idle_session_check_interval'' (q ''idle-session-check-interval''),
          put_dec ''idle_session_timeout'' (q ''idle-session-timeout''),
          put_dec ''min_idle_session'' (q ''min-idle-session''),
          name_or_address u,
          merge_unknown (do {
            collected \<leftarrow> collectUnknownQueryParams query
              [''sni'', ''insecure'', ''alpn'', ''client-fingerprint'', ''fp'', ''udp'', ''idle-session-check-interval'',
               ''idle-session-timeout'', ''min-idle-session''];
            unknownParams \<leftarrow> remapParamKeys collected [(''hpkp'', ''fingerprint''), (''fp'', ''client-fingerprint'')];
            Some (if truthy (u_username u)
                  then obj_set unknownParams (js ''username'') (POne (YStr (decodeURIComponentSafe (u_username u))))
                  else unknownParams)
          }),
          ret True])"

definition parseAnyTLS :: "(jstr \<Rightarrow> url option) \<Rightarrow> jstr \<Rightarrow> stmt" where
  "parseAnyTLS new_url link = with_url new_url link anytls_body"

section \<open>Mieru\<close>

definition csv_of :: "jstr \<Rightarrow> jstr list" where
  "csv_of x = (if truthy x then js_split (js '','') (decodeURIComponentSafe x) else [])"

definition mieru_body :: "url \<Rightarrow> jstr obj \<Rightarrow> stmt list" where
  "mieru_body u query =
     (let q = getq query; ports = csv_of (q ''port''); protocols = csv_of (q ''protocol'')
      in [put ''type'' (js ''mieru''),
          put ''server'' (u_hostname u),
          put ''username'' (decodeURIComponentSafe (u_username u)),
          put ''password'' (decodeURIComponentSafe (u_password u)),
          js_if (ports \<noteq> [])
            (js_if_else (length ports = 1)
              (js_if_else (js_includes (hd ports) (js ''-'')) (put ''port_range'' (hd ports)) (put ''port'' (hd ports)))
              (put ''port_range'' (js_join (js '','') ports))),
          js_if (protocols \<noteq> [] \<and> truthy (hd protocols)) (put ''transport'' (hd protocols)),
          put_dec ''multiplexing'' (q ''multiplexing''),
          put_name u,
          merge_unknown (collectUnknownQueryParams query [''port'', ''protocol'', ''multiplexing'']),
          ret True])"

definition parseMieru :: "(jstr \<Rightarrow> url option) \<Rightarrow> jstr \<Rightarrow> stmt" where
  "parseMieru new_url link = with_url new_url link mieru_body"

section \<open>Shadowsocks\<close>

text \<open>
  One option \<open>key=value\<close> of a plugin string, trimmed; \<open>None\<close> without an equals
  sign.
\<close>

definition plugin_option :: "jstr \<Rightarrow> (jstr \<times> jstr) option" where
  "plugin_option opt =
     (case index_of (js ''='') opt of
        None \<Rightarrow> None
      | Some i \<Rightarrow> Some (trim (take i opt), trim (drop (i + 1) opt)))"

text \<open>The last value given for a key, or the default.\<close>

definition plugin_value :: "jstr list \<Rightarrow> string \<Rightarrow> jstr \<Rightarrow> jstr" where
  "plugin_value parts key dflt =
     fold (\<lambda>p v. case plugin_option p of Some (k, x) \<Rightarrow> if k = js key then x else v | None \<Rightarrow> v) parts dflt"

definition ss_plugin_stmt :: "jstr \<Rightarrow> stmt" where
  "ss_plugin_stmt decodedPlugin =
     (let parts = js_split (js '';'') decodedPlugin; name = hd parts; val = plugin_value (tl parts);
          tls = val ''tls'' []
      in seq
          [js_if (name = js ''obfs-local'' \<or> js_includes name (js ''obfs''))
             (seq [put ''obfs'' (val ''obfs'' (js ''http'')),
                   js_if (truthy (val ''obfs-host'' [])) (put ''host'' (val ''obfs-host'' []))]),
           js_if (name = js ''v2ray-plugin'')
             (seq [put ''obfs'' (js ''websocket''),
                   js_if (truthy (val ''host'' [])) (put ''host'' (val ''host'' [])),
                   js_if (truthy (val ''path'' (js ''/''))) (put ''path'' (val ''path'' (js ''/''))),
                   js_if (one_or_true tls) (put ''tls'' (js ''true''))])])"

definition ss_query_stmt :: "jstr \<Rightarrow> stmt" where
  "ss_query_stmt text =
     bind_try (parseQuery (js ''?'' @ text)) (\<lambda>query.
       let q = getq query
       in seq
         [js_if (truthy (q ''plugin'')) (bind_try (decodeURIComponent (q ''plugin'')) ss_plugin_stmt),
          js_if (q ''udp-over-tcp'' = js ''true'' \<or> q ''uot'' = js ''1'') (put ''udp_over_tcp'' (js ''true'')),
          merge_unknown (collectUnknownQueryParams query [''plugin'', ''udp-over-tcp'', ''uot''])])"

text \<open>\<open>xs[i]\<close> of a list of strings; past the end it is \<open>undefined\<close>.\<close>

definition at :: "jstr list \<Rightarrow> nat \<Rightarrow> jstr" where
  "at xs i = (if i < length xs then xs ! i else [])"

definition ss_sip002 :: "jstr \<Rightarrow> nat \<Rightarrow> stmt" where
  "ss_sip002 url0 sipIndex =
     bind_try (b64decsafe (take sipIndex url0)) (\<lambda>userInfo.
       let temp = js_split (js ''/?'') (drop (sipIndex + 1) url0);
           serverInfo = js_split (js '':'') (hd temp);
           (cipher, password) = (case index_of (js '':'') userInfo of
              None \<Rightarrow> ([], []) | Some i \<Rightarrow> (take i userInfo, drop (i + 1) userInfo))
       in seq
         [js_if (truthy (at temp 1)) (ss_query_stmt (at temp 1)),
          put ''server'' (hd serverInfo),
          put ''port'' (at serverInfo 1),
          put ''password'' password,
          put ''cipher'' cipher])"

definition ss_legacy :: "jstr \<Rightarrow> stmt" where
  "ss_legacy url0 =
     bind_try (b64decsafe url0) (\<lambda>sstr.
       let team = js_split (js ''@'') sstr; part1 = js_split (js '':'') (hd team)
       in js_if_else (length team < 2) throw
         (let part2 = js_split (js '':'') (team ! 1)
          in seq [put ''server'' (hd part2),
                  put ''port'' (at part2 1),
                  put ''password'' (at part1 1),
                  put ''cipher'' (hd part1)]))"

definition parseSS :: "jstr \<Rightarrow> stmt" where
  "parseSS body =
     (let sipIndex = index_of (js ''@'') body;
          (url0, param) = (case index_of (js ''#'') body of
             Some i \<Rightarrow> if 0 < i then (take i body, drop (i + 1) body) else (body, [])
           | None \<Rightarrow> (body, []))
      in seq
        [put ''type'' (js ''ss''),
         (case sipIndex of Some i \<Rightarrow> ss_sip002 url0 i | None \<Rightarrow> ss_legacy url0),
         put_dec_try ''name'' param,
         ret True])"

section \<open>ShadowsocksR\<close>

text \<open>
  The parameters after \<open>/?\<close>: pairs with exactly one equals sign; a key that does not decode
  throws.
\<close>

definition ssr_params :: "jstr \<Rightarrow> jstr obj option" where
  "ssr_params after =
     fold_opt (\<lambda>p o'. case js_split (js ''='') p of
         [k, v] \<Rightarrow> do { key \<leftarrow> decodeURIComponent k; Some (obj_set o' key v) }
       | _ \<Rightarrow> Some o')
       (js_split (js ''&'') after) []"

definition ssr_params_stmt :: "jstr \<Rightarrow> stmt" where
  "ssr_params_stmt after =
     bind_try (ssr_params after) (\<lambda>ps.
       let q = getq ps
       in seq
         [js_if (truthy (q ''obfsparam'')) (put_try ''obfs_param'' (b64decsafe (q ''obfsparam''))),
          js_if (truthy (q ''protoparam'')) (put_try ''protocol_param'' (b64decsafe (q ''protoparam''))),
          js_if (truthy (q ''remarks'')) (put_try ''name'' (b64decutf8safe (q ''remarks''))),
          merge_unknown (collectUnknownQueryParams ps [''obfsparam'', ''protoparam'', ''remarks''])])"

definition parseSSR :: "jstr \<Rightarrow> stmt" where
  "parseSSR body pg =
     (case b64decsafe body of
        None \<Rightarrow> (Ret False, pg)
      | Some dcBuf \<Rightarrow>
          let (before, after) = (case index_of (js ''/?'') dcBuf of
                Some i \<Rightarrow> if 0 < i then (take i dcBuf, drop (i + 2) dcBuf) else (dcBuf, [])
              | None \<Rightarrow> (dcBuf, []));
              parts = js_split (js '':'') before
          in seq
            [put ''type'' (js ''ssr''),
             js_if_else (length parts \<noteq> 6) (ret False)
               (bind_try (b64decsafe (parts ! 5)) (\<lambda>password.
                  seq [put ''server'' (parts ! 0),
                       put ''port'' (parts ! 1),
                       put ''protocol'' (parts ! 2),
                       put ''cipher'' (parts ! 3),
                       put ''obfs_ssr'' (parts ! 4),
                       put ''password'' password,
                       js_if (truthy after) (ssr_params_stmt after),
                       ret True]))] pg)"

end
