(* ===== verification/Json.thy ===== *)
theory Json
  imports Uri_Component Js_Object
begin

text \<open>
  \<open>JSON.parse\<close> and \<open>JSON.stringify\<close> as the vmess links use them: the full grammar
  of ECMAScript's JSON for parsing (a \<open>SyntaxError\<close> is \<open>None\<close>), and the printing of
  an object whose values are strings. A number keeps its source text; what \<open>String\<close> makes of
  it is a parameter where it is needed. The parser takes fuel; \<open>json_fuel\<close> shows that the
  amount \<open>json_parse\<close> gives it is enough for every input.
\<close>

datatype json =
    JNull
  | JBool bool
  | JNum jstr
  | JStr jstr
  | JArr "json list"
  | JObj "(jstr \<times> json) list"

section \<open>Strings\<close>

definition simple_escape :: "cu \<Rightarrow> cu option" where
  "simple_escape e =
     (if e = 34 \<or> e = 92 \<or> e = 47 then Some e else if e = 98 then Some 8 else if e = 102 then Some 12
      else if e = 110 then Some 10 else if e = 114 then Some 13 else if e = 116 then Some 9 else None)"

definition hex4 :: "cu \<Rightarrow> cu \<Rightarrow> cu \<Rightarrow> cu \<Rightarrow> cu option" where
  "hex4 a b c d =
     (case (hex_val a, hex_val b, hex_val c, hex_val d) of
        (Some w, Some x, Some y, Some z) \<Rightarrow> Some (4096 * w + 256 * x + 16 * y + z)
      | _ \<Rightarrow> None)"

text \<open>The rest of a string literal after its opening quote, and what follows it.\<close>

fun json_chars :: "jstr \<Rightarrow> (jstr \<times> jstr) option" where
  "json_chars [] = None"
| "json_chars (c # s) =
     (if c = 34 then Some ([], s)
      else if c = 92 then
        (case s of
           [] \<Rightarrow> None
         | e # t \<Rightarrow>
             if e = 117 then
               (case t of
                  w # x # y # z # r \<Rightarrow>
                    (case hex4 w x y z of
                       None \<Rightarrow> None
                     | Some u \<Rightarrow> map_option (\<lambda>(v, q). (u # v, q)) (json_chars r))
                | _ \<Rightarrow> None)
             else (case simple_escape e of
                     None \<Rightarrow> None
                   | Some u \<Rightarrow> map_option (\<lambda>(v, q). (u # v, q)) (json_chars t)))
      else if c < 32 then None
      else map_option (\<lambda>(v, q). (c # v, q)) (json_chars s))"

lemma json_chars_length: "json_chars s = Some (v, r) \<Longrightarrow> length r < length s"
proof (induction s arbitrary: v r rule: json_chars.induct)
  case (2 c s)
  consider "c = 34" | e t where "c = 92" "s = e # t" "e = 117" | e t where "c = 92" "s = e # t" "e \<noteq> 117"
    | "c \<noteq> 34" "c \<noteq> 92" | "c = 92" "s = []"
    by (cases s) auto
  then show ?case
  proof cases
    case (2 e t)
    with \<open>json_chars (c # s) = Some (v, r)\<close> obtain w x y z q u v' where
      t: "t = w # x # y # z # q" and "hex4 w x y z = Some u" "json_chars q = Some (v', r)"
      by (auto split: list.splits option.splits)
    with 2 "2.IH"(1)[of e t w "x # y # z # q" x "y # z # q" y "z # q" z q u] show ?thesis by simp
  next
    case (3 e t)
    with "2.prems" obtain u v' where "simple_escape e = Some u" "json_chars t = Some (v', r)"
      by (auto split: option.splits)
    with 3 "2.IH"(2)[of e t u] show ?thesis by simp
  next
    case 4
    with "2.prems" "2.IH"(3) show ?thesis by (auto split: if_splits intro: less_SucI)
  qed (use "2.prems" in auto)
qed simp

section \<open>Numbers\<close>

definition num_sign :: "jstr \<Rightarrow> jstr" where
  "num_sign s = (case s of c # _ \<Rightarrow> if c = 45 then [45] else [] | [] \<Rightarrow> [])"

definition num_int :: "jstr \<Rightarrow> jstr" where
  "num_int s = (case s of c # _ \<Rightarrow> if c = 48 then [48] else takeWhile is_digit s | [] \<Rightarrow> [])"

definition num_frac :: "jstr \<Rightarrow> jstr" where
  "num_frac s =
     (case s of c # t \<Rightarrow> if c = 46 \<and> takeWhile is_digit t \<noteq> [] then c # takeWhile is_digit t else [] | [] \<Rightarrow> [])"

definition num_exp :: "jstr \<Rightarrow> jstr" where
  "num_exp s =
     (case s of
        c # t \<Rightarrow>
          if c = 101 \<or> c = 69 then
            (let g = (case t of d # _ \<Rightarrow> if d = 43 \<or> d = 45 then [d] else [] | [] \<Rightarrow> []);
                 ds = takeWhile is_digit (drop (length g) t)
             in if ds \<noteq> [] then c # g @ ds else [])
          else []
      | [] \<Rightarrow> [])"

definition json_number :: "jstr \<Rightarrow> (jstr \<times> jstr) option" where
  "json_number s =
     (let g = num_sign s; s1 = drop (length g) s; i = num_int s1; s2 = drop (length i) s1;
          f = num_frac s2; s3 = drop (length f) s2; e = num_exp s3
      in if i = [] then None else Some (g @ i @ f @ e, drop (length e) s3))"

section \<open>Values\<close>

definition json_ws :: "jstr \<Rightarrow> jstr" where
  "json_ws s = dropWhile (\<lambda>c. c = 9 \<or> c = 10 \<or> c = 13 \<or> c = 32) s"

definition json_literal :: "jstr \<Rightarrow> (json \<times> jstr) option" where
  "json_literal s =
     (if starts_with (js ''true'') s then Some (JBool True, drop 4 s)
      else if starts_with (js ''false'') s then Some (JBool False, drop 5 s)
      else if starts_with (js ''null'') s then Some (JNull, drop 4 s)
      else map_option (\<lambda>(t, r). (JNum t, r)) (json_number s))"

fun json_value :: "nat \<Rightarrow> jstr \<Rightarrow> (json \<times> jstr) option"
  and json_elems :: "nat \<Rightarrow> jstr \<Rightarrow> (json list \<times> jstr) option"
  and json_members :: "nat \<Rightarrow> jstr \<Rightarrow> ((jstr \<times> json) list \<times> jstr) option" where
  "json_value 0 s = None"
| "json_value (Suc n) s =
     (case json_ws s of
        [] \<Rightarrow> None
      | c # t \<Rightarrow>
          if c = 34 then map_option (\<lambda>(v, r). (JStr v, r)) (json_chars t)
          else if c = 91 then
            (if starts_with [93] (json_ws t) then Some (JArr [], drop 1 (json_ws t))
             else map_option (\<lambda>(vs, r). (JArr vs, r)) (json_elems n t))
          else if c = 123 then
            (if starts_with [125] (json_ws t) then Some (JObj [], drop 1 (json_ws t))
             else map_option (\<lambda>(ms, r). (JObj (fold (\<lambda>(k, v) o'. obj_put o' k v) ms []), r)) (json_members n t))
          else json_literal (c # t))"
| "json_elems 0 s = None"
| "json_elems (Suc n) s =
     (case json_value n s of
        None \<Rightarrow> None
      | Some (v, r) \<Rightarrow>
          (case json_ws r of
             [] \<Rightarrow> None
           | d # q \<Rightarrow>
               if d = 93 then Some ([v], q)
               else if d = 44 then map_option (\<lambda>(vs, z). (v # vs, z)) (json_elems n q)
               else None))"
| "json_members 0 s = None"
| "json_members (Suc n) s =
     (case json_ws s of
        [] \<Rightarrow> None
      | c # t \<Rightarrow>
          if c \<noteq> 34 then None
          else (case json_chars t of
             None \<Rightarrow> None
           | Some (k, r) \<Rightarrow>
               (case json_ws r of
                  [] \<Rightarrow> None
                | d # q \<Rightarrow>
                    if d \<noteq> 58 then None
                    else (case json_value n q of
                       None \<Rightarrow> None
                     | Some (v, r') \<Rightarrow>
                         (case json_ws r' of
                            [] \<Rightarrow> None
                          | e # q' \<Rightarrow>
                              if e = 125 then Some ([(k, v)], q')
                              else if e = 44 then map_option (\<lambda>(ms, z). ((k, v) # ms, z)) (json_members n q')
                              else None)))))"

definition json_parse :: "jstr \<Rightarrow> json option" where
  "json_parse s =
     (case json_value (2 * length s + 1) s of
        None \<Rightarrow> None
      | Some (v, r) \<Rightarrow> if json_ws r = [] then Some v else None)"

section \<open>The fuel is enough\<close>

lemma json_ws_length: "length (json_ws s) \<le> length s"
  by (simp add: json_ws_def length_dropWhile_le)

lemma json_ws_Cons: "json_ws s = c # t \<Longrightarrow> length t < length s"
  using json_ws_length[of s] by simp

lemma json_number_length:
  assumes "json_number s = Some (v, r)"
  shows "length r < length s"
proof -
  define g where "g = num_sign s"
  define s1 where "s1 = drop (length g) s"
  define i where "i = num_int s1"
  from assms have i: "i \<noteq> []" and r: "length r \<le> length (drop (length i) s1)"
    unfolding json_number_def Let_def g_def s1_def i_def by (auto split: if_splits)
  have "length i \<le> length s1"
    by (cases s1) (auto simp: i_def num_int_def le_SucI length_takeWhile_le)
  with i have "length (drop (length i) s1) < length s1" by (cases i) simp_all
  moreover have "length s1 \<le> length s" by (simp add: s1_def)
  ultimately show ?thesis using r by linarith
qed

lemma json_literal_length:
  assumes "json_literal s = Some (v, r)"
  shows "length r < length s"
proof -
  have "starts_with (js p) s \<Longrightarrow> p \<noteq> [] \<Longrightarrow> length (drop (length p) s) < length s" for p
    unfolding starts_with_def by (cases s) (auto simp: js_def)
  from this[of "''true''"] this[of "''false''"] this[of "''null''"] assms show ?thesis
    by (auto simp: json_literal_def dest: json_number_length split: if_splits)
qed

lemma json_shorter:
  "json_value n s = Some (v, r) \<Longrightarrow> length r < length s"
  "json_elems n s = Some (vs, r) \<Longrightarrow> length r < length s"
  "json_members n s = Some (ms, r) \<Longrightarrow> length r < length s"
proof (induction n s and n s and n s arbitrary: v r and vs r and ms r
    rule: json_value_json_elems_json_members.induct)
  case (2 n s)
  obtain c t where ws: "json_ws s = c # t" using "2.prems" by (auto split: list.splits)
  have t: "length t < length s" using json_ws_Cons[OF ws] .
  have d: "length (drop 1 (json_ws t)) \<le> length t" using json_ws_length[of t] by simp
  consider "c = 34" | "c = 91" | "c = 123" | "c \<noteq> 34" "c \<noteq> 91" "c \<noteq> 123" by blast
  then show ?case
  proof cases
    case 1
    with "2.prems" ws t show ?thesis by (auto dest: json_chars_length)
  next
    case 2
    with "2.prems" ws t d "2.IH"(1)[OF ws] show ?thesis by (fastforce split: if_splits)
  next
    case 3
    with "2.prems" ws t d "2.IH"(2)[OF ws] show ?thesis by (fastforce split: if_splits)
  next
    case 4
    with "2.prems" ws json_literal_length[of "c # t" v r] json_ws_length[of s] show ?thesis by simp
  qed
next
  case (4 n s)
  then obtain x q where 1: "json_value n s = Some (x, q)" by (auto split: option.splits)
  with "4.prems" obtain d z where 2: "json_ws q = d # z" by (auto split: list.splits)
  have "length z < length s" using "4.IH"(1)[OF 1] json_ws_Cons[OF 2] by simp
  with "4.prems" 1 2 "4.IH"(2)[OF 1 refl 2] show ?case
    by (auto split: if_splits)
next
  case (6 n s)
  then obtain t where 1: "json_ws s = 34 # t" by (auto split: list.splits if_splits)
  with "6.prems" obtain k q where 2: "json_chars t = Some (k, q)" by (auto split: option.splits)
  with 1 "6.prems" obtain z where 3: "json_ws q = 58 # z" by (auto split: list.splits if_splits)
  with 1 2 "6.prems" obtain x y where 4: "json_value n z = Some (x, y)" by (auto split: option.splits)
  with 1 2 3 "6.prems" obtain e w where 5: "json_ws y = e # w" by (auto split: list.splits)
  have "length w < length s"
    using json_ws_Cons[OF 1] json_chars_length[OF 2] json_ws_Cons[OF 3] json_ws_Cons[OF 5]
      "6.IH"(1)[OF 1 _ 2 refl 3 _ 4] by simp
  with "6.prems" 1 2 3 4 5 "6.IH"(2)[OF 1 _ 2 refl 3 _ 4 refl 5] show ?case
    by (auto split: if_splits)
qed auto

lemma json_fuel_step:
  "(2 * length s + 1 \<le> n \<longrightarrow> json_value (Suc n) s = json_value n s) \<and>
   (2 * length s + 2 \<le> n \<longrightarrow> json_elems (Suc n) s = json_elems n s) \<and>
   (2 * length s + 2 \<le> n \<longrightarrow> json_members (Suc n) s = json_members n s)"
proof (induction n arbitrary: s)
  case (Suc m)
  have v: "json_value (Suc (Suc m)) s = json_value (Suc m) s" if le: "2 * length s + 1 \<le> Suc m"
  proof (cases "json_ws s")
    case (Cons c t)
    with json_ws_Cons[of s c t] le have "2 * length t + 2 \<le> m" by simp
    with Suc.IH[of t] have "json_elems (Suc m) t = json_elems m t" "json_members (Suc m) t = json_members m t" by blast+
    then show ?thesis unfolding json_value.simps(2)[of "Suc m"] json_value.simps(2)[of m] Cons
      by (simp only: list.case)
  qed simp
  have e: "json_elems (Suc (Suc m)) s = json_elems (Suc m) s" if le: "2 * length s + 2 \<le> Suc m"
  proof -
    have 1: "json_value (Suc m) s = json_value m s" using Suc.IH[of s] le by simp
    show ?thesis
    proof (cases "json_value m s")
      case (Some x)
      obtain y r where x: "x = (y, r)" by (cases x)
      have "json_elems (Suc m) q = json_elems m q" if "json_ws r = d # q" for d q
      proof -
        have "length q < length s" using json_shorter(1)[of m s y r] Some x json_ws_Cons[OF that] by simp
        then show ?thesis using Suc.IH[of q] le by simp
      qed
      then show ?thesis unfolding json_elems.simps(2)[of "Suc m"] json_elems.simps(2)[of m]
        using 1 Some x by (simp split: list.splits)
    qed (use 1 in simp)
  qed
  have m: "json_members (Suc (Suc m)) s = json_members (Suc m) s" if le: "2 * length s + 2 \<le> Suc m"
  proof -
    have 1: "json_value (Suc m) q = json_value m q \<and>
        (\<forall>y r d z. json_value m q = Some (y, r) \<and> json_ws r = d # z \<longrightarrow> json_members (Suc m) z = json_members m z)"
      if a: "json_ws s = c # t" "json_chars t = Some (k, r)" "json_ws r = d # q" for c t k r d q
    proof -
      have q: "length q < length s"
        using json_ws_Cons[OF a(1)] json_chars_length[OF a(2)] json_ws_Cons[OF a(3)] by simp
      then have "json_value (Suc m) q = json_value m q" using Suc.IH[of q] le by simp
      moreover have "json_members (Suc m) z = json_members m z"
        if "json_value m q = Some (y, r')" "json_ws r' = e # z" for y r' e z
      proof -
        have "length z < length s" using json_shorter(1)[OF that(1)] json_ws_Cons[OF that(2)] q by simp
        then show ?thesis using Suc.IH[of z] le by simp
      qed
      ultimately show ?thesis by blast
    qed
    note unf = json_members.simps(2)[of "Suc m" s] json_members.simps(2)[of m s]
    show ?thesis
    proof (cases "json_ws s")
      case Nil
      then show ?thesis unfolding unf by simp
    next
      case s: (Cons c t)
      show ?thesis
      proof (cases "json_chars t")
        case None
        then show ?thesis unfolding unf s by simp
      next
        case t: (Some x)
        obtain k r where x: "x = (k, r)" by (cases x)
        show ?thesis
        proof (cases "json_ws r")
          case Nil
          then show ?thesis unfolding unf using s t x by (simp del: json_value.simps json_members.simps)
        next
          case r: (Cons d q)
          note v = 1[OF s t[unfolded x] r]
          show ?thesis
          proof (cases "json_value m q")
            case None
            then show ?thesis unfolding unf using s t x r v by (simp del: json_value.simps json_members.simps)
          next
            case q: (Some y)
            obtain w r' where y: "y = (w, r')" by (cases y)
            show ?thesis
              unfolding unf using s t x r v q y
              by (cases "json_ws r'") (simp_all del: json_value.simps json_members.simps)
          qed
        qed
      qed
    qed
  qed
  from v e m show ?case by blast
qed simp

lemma json_fuel: "2 * length s + 1 \<le> n \<Longrightarrow> json_value n s = json_value (2 * length s + 1) s"
proof (induction n rule: dec_induct)
  case (step n)
  then show ?case using json_fuel_step[of s n] by simp
qed simp

section \<open>Printing\<close>

definition hex_lower4 :: "cu \<Rightarrow> jstr" where
  "hex_lower4 c =
     [hex_digit_lower (c div 4096), hex_digit_lower (c div 256 mod 16), hex_digit_lower (c div 16 mod 16), hex_digit_lower (c mod 16)]"

definition quote_unit :: "cu \<Rightarrow> jstr" where
  "quote_unit c =
     (if c = 34 then [92, 34] else if c = 92 then [92, 92] else if c = 8 then [92, 98] else if c = 12 then [92, 102]
      else if c = 10 then [92, 110] else if c = 13 then [92, 114] else if c = 9 then [92, 116]
      else if c < 32 \<or> is_high c \<or> is_low c then [92, 117] @ hex_lower4 c else [c])"

text \<open>A surrogate pair is printed as it is, a lone surrogate as an escape.\<close>

fun quote_units :: "jstr \<Rightarrow> jstr" where
  "quote_units [] = []"
| "quote_units [c] = quote_unit c"
| "quote_units (c # d # s) =
     (if is_high c \<and> is_low d then c # d # quote_units s else quote_unit c @ quote_units (d # s))"

definition json_quote :: "jstr \<Rightarrow> jstr" where
  "json_quote s = 34 # quote_units s @ [34]"

text \<open>\<open>JSON.stringify(o)\<close> of an object whose own values are strings.\<close>

definition json_stringify :: "jstr obj \<Rightarrow> jstr" where
  "json_stringify ob =
     123 # js_join [44] (map (\<lambda>(k, v). json_quote k @ 58 # json_quote v) (own_entries ob)) @ [125]"

lemma hex_sum:
  fixes c :: int
  assumes "c = 16 * a + r" "a = 16 * b + s" "b = 16 * d + t"
  shows "4096 * d + 256 * t + 16 * s + r = c"
  using assms by simp

lemma hex_lower4_back:
  assumes "0 \<le> c" "c < 65536"
  shows "\<exists>w x y z. hex_lower4 c = [w, x, y, z] \<and> hex4 w x y z = Some c"
proof -
  have v: "0 \<le> d \<Longrightarrow> d < 16 \<Longrightarrow> hex_val (hex_digit_lower d) = Some d" for d
    by (simp add: hex_val_def hex_digit_lower_def)
  have b: "0 \<le> c div 4096" "c div 4096 < 16" "0 \<le> c div 256 mod 16" "c div 256 mod 16 < 16"
    "0 \<le> c div 16 mod 16" "c div 16 mod 16 < 16" "0 \<le> c mod 16" "c mod 16 < 16"
    using assms by (simp_all add: pos_imp_zdiv_nonneg_iff)
  have e: "4096 * (c div 4096) + 256 * (c div 256 mod 16) + 16 * (c div 16 mod 16) + c mod 16 = c"
  proof -
    have q: "c div 256 = c div 16 div 16" "c div 4096 = c div 256 div 16"
      using zdiv_zmult2_eq[of 16 c 16] zdiv_zmult2_eq[of 16 c 256] by simp_all
    show ?thesis
    proof (rule hex_sum)
      show "c = 16 * (c div 16) + c mod 16" by simp
      show "c div 16 = 16 * (c div 256) + c div 16 mod 16" unfolding q(1) by simp
      show "c div 256 = 16 * (c div 4096) + c div 256 mod 16" unfolding q(2) by simp
    qed
  qed
  show ?thesis unfolding hex_lower4_def
    by (intro exI conjI, rule refl)
      (simp only: hex4_def v[OF b(1,2)] v[OF b(3,4)] v[OF b(5,6)] v[OF b(7,8)] prod.case option.case e)
qed

lemma json_chars_plain: "\<not> c < 32 \<Longrightarrow> c \<noteq> 34 \<Longrightarrow> c \<noteq> 92 \<Longrightarrow>
  json_chars (c # s) = map_option (\<lambda>(v, q). (c # v, q)) (json_chars s)"
  by simp

lemma json_chars_quote_unit:
  assumes "0 \<le> c" "c < 65536"
  shows "json_chars (quote_unit c @ s) = map_option (\<lambda>(v, q). (c # v, q)) (json_chars s)"
proof -
  obtain w x y z where h: "hex_lower4 c = [w, x, y, z]" "hex4 w x y z = Some c"
    using hex_lower4_back[OF assms] by blast
  have u: "json_chars (92 # 117 # hex_lower4 c @ s) = map_option (\<lambda>(v, q). (c # v, q)) (json_chars s)"
    by (simp add: h)
  have e: "json_chars (92 # e # s) = map_option (\<lambda>(v, q). (k # v, q)) (json_chars s)"
    if "e \<noteq> 117" "simple_escape e = Some k" for e k
    using that by simp
  note es = e[of 34 34] e[of 92 92] e[of 98 8] e[of 102 12] e[of 110 10] e[of 114 13] e[of 116 9]
  show ?thesis
    unfolding quote_unit_def using u es json_chars_plain
    by (simp add: simple_escape_def del: json_chars.simps)
qed

lemma json_chars_quote: "units s \<Longrightarrow> json_chars (quote_units s @ 34 # r) = Some (s, r)"
proof (induction s rule: quote_units.induct)
  case (2 c)
  then show ?case by (simp add: json_chars_quote_unit)
next
  case (3 c d s)
  show ?case
  proof (cases "is_high c \<and> is_low d")
    case True
    then have "\<not> c < 32" "c \<noteq> 34" "c \<noteq> 92" "\<not> d < 32" "d \<noteq> 34" "d \<noteq> 92"
      by (auto simp: is_high_def is_low_def)
    moreover from True 3 have "json_chars (quote_units s @ 34 # r) = Some (s, r)" by simp
    ultimately show ?thesis using True by (simp del: json_chars.simps add: json_chars_plain)
  next
    case False
    then have "quote_units (c # d # s) = quote_unit c @ quote_units (d # s)"
      by (simp only: quote_units.simps if_False)
    with 3 False show ?thesis
      by (simp only: append_assoc json_chars_quote_unit units_Cons) simp
  qed
qed simp

section \<open>Reading a printed object\<close>

definition member_text :: "jstr \<times> jstr \<Rightarrow> jstr" where
  "member_text m = (case m of (k, v) \<Rightarrow> json_quote k @ 58 # json_quote v)"

lemma json_ws_stop: "\<not> (c = 9 \<or> c = 10 \<or> c = 13 \<or> c = 32) \<Longrightarrow> json_ws (c # s) = c # s"
  by (simp add: json_ws_def)

lemma json_value_quote: "units v \<Longrightarrow> json_value (Suc n) (json_quote v @ r) = Some (JStr v, r)"
  by (simp add: json_quote_def json_ws_stop json_chars_quote)

lemma json_members_step:
  assumes "units k" "units v" "json_ws r = e # q"
  shows "json_members (Suc (Suc n)) (member_text (k, v) @ r) =
    (if e = 125 then Some ([(k, JStr v)], q)
     else if e = 44 then map_option (\<lambda>(ms, z). ((k, JStr v) # ms, z)) (json_members (Suc n) q)
     else None)"
proof -
  have "member_text (k, v) @ r = 34 # quote_units k @ 34 # 58 # json_quote v @ r"
    by (simp add: member_text_def json_quote_def)
  then show ?thesis
    using assms json_chars_quote[OF assms(1), of "58 # json_quote v @ r"] json_value_quote[OF assms(2), of n r]
    by (simp add: json_members.simps(2)[of "Suc n"] json_ws_stop del: json_members.simps json_value.simps)
qed

lemma json_members_print:
  assumes "ms \<noteq> []" "\<forall>(k, v)\<in>set ms. units k \<and> units v" "length ms < n"
  shows "json_members n (js_join [44] (map member_text ms) @ 125 # r) = Some (map (\<lambda>(k, v). (k, JStr v)) ms, r)"
  using assms
proof (induction ms arbitrary: n)
  case (Cons m ms)
  obtain k v where m: "m = (k, v)" by (cases m)
  obtain i where n: "n = Suc (Suc i)" using Cons.prems(3) by (cases n; cases "n - 1") auto
  have uv: "units k" "units v" using Cons.prems m by auto
  show ?case
  proof (cases "ms = []")
    case True
    then show ?thesis
      using json_members_step[OF uv, of "125 # r" 125 r i] by (simp add: m n json_ws_stop del: json_members.simps)
  next
    case False
    let ?rest = "js_join [44] (map member_text ms) @ 125 # r"
    have "js_join [44] (map member_text (m # ms)) @ 125 # r = member_text (k, v) @ 44 # ?rest"
      using False by (simp add: js_join_Cons m)
    moreover have "json_members (Suc i) ?rest = Some (map (\<lambda>(k, v). (k, JStr v)) ms, r)"
      using Cons False n by (intro Cons.IH) auto
    ultimately show ?thesis
      using json_members_step[OF uv, of "44 # ?rest" 44 ?rest i] by (simp add: m n json_ws_stop del: json_members.simps)
  qed
qed simp

lemma json_members_length: "length ms \<le> length (js_join [44] (map member_text ms))"
proof (induction ms)
  case (Cons m ms)
  have "1 \<le> length (member_text m)" by (simp add: member_text_def json_quote_def split: prod.splits)
  with Cons show ?case by (cases "ms = []") (auto simp: js_join_Cons)
qed simp

lemma json_round_trip [roundtrip]:
  assumes "distinct (map fst ob)" "\<forall>(k, v)\<in>set ob. units k \<and> units v"
  shows "json_parse (json_stringify ob) = Some (JObj (map (\<lambda>(k, v). (k, JStr v)) (own_entries ob)))"
proof -
  let ?ms = "own_entries ob" and ?jms = "map (\<lambda>(k, v). (k, JStr v)) (own_entries ob)"
  let ?body = "js_join [44] (map member_text ?ms)"
  have shown: "json_stringify ob = 123 # ?body @ [125]"
    by (simp add: json_stringify_def member_text_def[abs_def])
  have u: "\<forall>(k, v)\<in>set ?ms. units k \<and> units v" using assms(2) by (simp add: set_own_entries)
  have "map fst ?jms = map fst ?ms" by (simp add: case_prod_unfold)
  with distinct_own_entries[OF assms(1)] have "distinct (map fst ?jms)" by (simp only:)
  then have f: "fold (\<lambda>(k, v) ob. obj_put ob k v) ?jms [] = ?jms" by (simp add: fold_obj_put)
  show ?thesis
  proof (cases "?ms = []")
    case True
    then show ?thesis unfolding json_parse_def shown
      by (simp add: json_value.simps(2)[of "Suc _"] numeral_eq_Suc json_ws_def starts_with_def del: json_value.simps)
  next
    case False
    obtain k v xs where ms: "?ms = (k, v) # xs" using False by (cases ?ms) auto
    have hd: "\<exists>t. ?body @ [125] = 34 # t"
      unfolding ms by (cases xs) (auto simp: member_text_def json_quote_def)
    have m: "json_members (2 * length (123 # ?body @ [125])) (?body @ [125]) = Some (?jms, [])"
      using json_members_length[of ?ms] by (intro json_members_print[OF False u]) simp
    have "json_value (2 * length (123 # ?body @ [125]) + 1) (123 # ?body @ [125]) = Some (JObj ?jms, [])"
      using hd m f by (auto simp: json_ws_stop starts_with_def simp del: json_members.simps)
    then show ?thesis unfolding json_parse_def shown by (simp add: json_ws_def del: json_value.simps)
  qed
qed

end
