(* ===== verification/Vmess_Links.thy ===== *)
theory Vmess_Links
  imports Import_Links Json
begin

text \<open>
  The vmess links of \<open>server_url.js\<close>: \<open>exportVmess\<close> (911-980) prints a JSON
  object in Base64, \<open>parseVmess\<close> (2014-2188) reads that object, and falls back to a
  URL when anything in the first reading throws; what the first reading had written stays. The text
  JavaScript prints for a JSON number is the parameter \<open>num_str\<close>.
\<close>

section \<open>Export\<close>

definition vmess_info :: "page \<Rightarrow> (bool \<times> string \<times> jstr) list" where
  "vmess_info pg =
     (let g = getFormValue pg; obfs = g ''obfs_vmess''; tls = is_true (g ''tls'');
          ws = (obfs = js ''websocket''); h2 = (obfs = js ''h2''); grpc = (obfs = js ''grpc'');
          headers = g ''ws_headers''
      in [(True, ''v'', js ''2''),
          (True, ''ps'', g ''name''),
          (True, ''add'', g ''server''),
          (True, ''port'', g ''port''),
          (True, ''id'', g ''uuid''),
          (True, ''aid'', or_else (g ''alterId'') (js ''0'')),
          (True, ''scy'', or_else (g ''cipher'') (js ''auto'')),
          (True, ''net'', js ''tcp''),
          (True, ''type'', js ''none''),
          (True, ''host'', []),
          (True, ''path'', []),
          (True, ''tls'', if tls then js ''tls'' else []),
          (tls \<and> truthy (g ''servername''), ''sni'', g ''servername''),
          (truthy (g ''client_fingerprint''), ''fp'', g ''client_fingerprint''),
          (ws, ''net'', js ''ws''),
          (ws, ''path'', or_else (g ''ws_path'') (js ''/'')),
          (ws \<and> has_host headers, ''host'', host_header headers),
          (h2, ''net'', js ''h2''),
          (h2, ''path'', or_else (g ''h2_path'') (js ''/'')),
          (h2, ''host'', g ''h2_host''),
          (grpc, ''net'', js ''grpc''),
          (grpc, ''path'', g ''grpc_service_name'')])"

definition exportVmess :: "page \<Rightarrow> jstr option option" where
  "exportVmess pg =
     (let g = getFormValue pg in
      if \<not> truthy (g ''server'') \<or> \<not> truthy (g ''port'') \<or> \<not> truthy (g ''uuid'') then Some None
      else do {
        info \<leftarrow> mergeOtherParametersToQuery pg (query_of (vmess_info pg)) [] getDefaultOtherParamSkipKeys;
        body \<leftarrow> b64EncodeUnicode (json_stringify info);
        Some (Some (js ''vmess://'' @ body))
      })"

section \<open>Values of a JSON text\<close>

fun dec_text :: "nat \<Rightarrow> jstr" where
  "dec_text n = (if n < 10 then [48 + int n] else dec_text (n div 10) @ [48 + int (n mod 10)])"

declare dec_text.simps [simp del]

lemma dec_text_digits: "c \<in> set (dec_text n) \<Longrightarrow> is_digit c"
proof (induction n rule: dec_text.induct)
  case (1 n)
  then show ?case by (subst (asm) (2) dec_text.simps) (auto simp: is_digit_def split: if_splits)
qed

lemma dec_text_nonempty [simp]: "dec_text n \<noteq> []"
  by (subst dec_text.simps) simp

lemma dec_text_Cons: obtains d ds where "dec_text n = d # ds" "is_digit d" "\<forall>c\<in>set ds. is_digit c"
  using dec_text_digits[of _ n] by (cases "dec_text n") auto

text \<open>
  The own enumerable properties of a value, of which reading a property throws for
  \<open>null\<close>. None of the names the program reads is inherited by a string, a number, a boolean
  or an array.
\<close>

fun json_fields :: "json \<Rightarrow> json obj option" where
  "json_fields JNull = None"
| "json_fields (JObj ms) = Some ms"
| "json_fields (JArr vs) = Some (map (\<lambda>(i, v). (dec_text i, v)) (enumerate 0 vs))"
| "json_fields (JStr s) = Some (map (\<lambda>(i, c). (dec_text i, JStr [c])) (enumerate 0 s))"
| "json_fields _ = Some []"

definition field :: "json obj \<Rightarrow> string \<Rightarrow> json option" where
  "field ssm k = obj_get ssm (js k)"

text \<open>\<open>v.k\<close> of any value but null, for a name no value inherits.\<close>

definition json_prop :: "json \<Rightarrow> string \<Rightarrow> json option" where
  "json_prop v k = (case v of JObj ms \<Rightarrow> field ms k | _ \<Rightarrow> None)"

text \<open>
  \<open>String(v)\<close>: an array joins its elements, an object prints as \<open>[object Object]\<close>
  unless an own \<open>toString\<close>, which is then no function, makes the conversion throw.
\<close>

fun json_string :: "(jstr \<Rightarrow> jstr) \<Rightarrow> json \<Rightarrow> jstr option"
  and json_strings :: "(jstr \<Rightarrow> jstr) \<Rightarrow> json list \<Rightarrow> jstr list option" where
  "json_string num_str JNull = Some (js ''null'')"
| "json_string num_str (JBool b) = Some (if b then js ''true'' else js ''false'')"
| "json_string num_str (JNum t) = Some (num_str t)"
| "json_string num_str (JStr s) = Some s"
| "json_string num_str (JArr vs) = map_option (js_join (js '','')) (json_strings num_str vs)"
| "json_string num_str (JObj ms) =
     (if has_key ms (js ''toString'') then None else Some (js ''[object Object]''))"
| "json_strings num_str [] = Some []"
| "json_strings num_str (v # vs) = do {
     s \<leftarrow> (if v = JNull then Some [] else json_string num_str v);
     ss \<leftarrow> json_strings num_str vs;
     Some (s # ss)
   }"

definition json_truthy :: "(jstr \<Rightarrow> jstr) \<Rightarrow> json option \<Rightarrow> bool" where
  "json_truthy num_str v =
     (case v of
        None \<Rightarrow> False | Some JNull \<Rightarrow> False | Some (JBool b) \<Rightarrow> b | Some (JNum t) \<Rightarrow> num_str t \<noteq> js ''0''
      | Some (JStr s) \<Rightarrow> truthy s | Some (JArr _) \<Rightarrow> True | Some (JObj _) \<Rightarrow> True)"

text \<open>The text \<open>setFormValue\<close> makes of a value.\<close>

definition form_text :: "(jstr \<Rightarrow> jstr) \<Rightarrow> json option \<Rightarrow> jstr option" where
  "form_text num_str v =
     (case v of None \<Rightarrow> Some [] | Some w \<Rightarrow> if w = JNull then Some [] else json_string num_str w)"

text \<open>\<open>setFormValue(sid, f, v || d)\<close>, and \<open>if (v) setFormValue(sid, f, v)\<close>.\<close>

definition put_or :: "(jstr \<Rightarrow> jstr) \<Rightarrow> string \<Rightarrow> json option \<Rightarrow> jstr \<Rightarrow> stmt" where
  "put_or num_str f v d = put_try f (if json_truthy num_str v then form_text num_str v else Some d)"

definition put_if :: "(jstr \<Rightarrow> jstr) \<Rightarrow> string \<Rightarrow> json option \<Rightarrow> stmt" where
  "put_if num_str f v = js_if (json_truthy num_str v) (put_try f (form_text num_str v))"

text \<open>
  A value as the free parameters print it: numbers and booleans as they are, anything else as a
  string; an array as a list.
\<close>

definition json_scalar :: "(jstr \<Rightarrow> jstr) \<Rightarrow> json \<Rightarrow> yscalar option" where
  "json_scalar num_str v =
     (case v of
        JNull \<Rightarrow> Some (YStr [])
      | JBool b \<Rightarrow> Some (YRaw (if b then js ''true'' else js ''false''))
      | JNum t \<Rightarrow> Some (YRaw (num_str t))
      | _ \<Rightarrow> map_option YStr (json_string num_str v))"

definition json_pvalue :: "(jstr \<Rightarrow> jstr) \<Rightarrow> json \<Rightarrow> pvalue option" where
  "json_pvalue num_str v =
     (case v of
        JArr vs \<Rightarrow> map_option PList (map_opt (json_scalar num_str) vs)
      | _ \<Rightarrow> map_option POne (json_scalar num_str v))"

section \<open>Import\<close>

definition vmess_known :: "string list" where
  "vmess_known = [''v'', ''ps'', ''add'', ''port'', ''id'', ''aid'', ''scy'', ''net'', ''type'', ''host'', ''path'', ''tls'', ''sni'', ''fp'']"

text \<open>\<open>String(ssm[vk])\<close> of a field that is neither null nor an object.\<close>

definition unknown_text :: "(jstr \<Rightarrow> jstr) \<Rightarrow> json \<Rightarrow> jstr option" where
  "unknown_text num_str v =
     (case v of
        JNull \<Rightarrow> None | JArr _ \<Rightarrow> None | JObj _ \<Rightarrow> None
      | _ \<Rightarrow> json_string num_str v)"

definition vmess_unknown :: "(jstr \<Rightarrow> jstr) \<Rightarrow> json obj \<Rightarrow> pvalue obj option" where
  "vmess_unknown num_str ssm =
     (if ssm \<noteq> [] \<and> \<not> callable_has_own ssm then None
      else Some (fold (\<lambda>(vk, v) r.
        if in_table vmess_known vk then r
        else (case unknown_text num_str v of
                None \<Rightarrow> r
              | Some t \<Rightarrow> obj_set r vk (normalizeUnknownParamValueByKey vk (POne (YStr t)))))
        (own_entries ssm) []))"

text \<open>\<open>(ssm.net || 'tcp').toLowerCase()\<close>; only a string has the method.\<close>

definition vmess_network :: "(jstr \<Rightarrow> jstr) \<Rightarrow> json option \<Rightarrow> jstr option" where
  "vmess_network num_str v =
     (if json_truthy num_str v then (case v of Some (JStr s) \<Rightarrow> Some (to_lower s) | _ \<Rightarrow> None)
      else Some (js ''tcp''))"

text \<open>
  The value the import keeps under the key \<open>host\<close> is a JSON value. One that no text can be
  made of throws when the parameters are printed, after it was recorded; it is not recorded here,
  which only the import in progress, ended by that exception, could tell.
\<close>

definition vmess_transport :: "(jstr \<Rightarrow> jstr) \<Rightarrow> json obj \<Rightarrow> jstr \<Rightarrow> stmt" where
  "vmess_transport num_str ssm network =
     (let f = field ssm
      in js_if_else (network = js ''ws'')
           (seq [put ''obfs_vmess'' (js ''websocket''),
                 put_or num_str ''ws_path'' (f ''path'') (js ''/''),
                 js_if (json_truthy num_str (f ''host''))
                   (put_try ''ws_headers'' (map_option ((@) (js ''Host: '')) (form_text num_str (f ''host''))))])
           (js_if_else (network = js ''h2'')
             (seq [put ''obfs_vmess'' (js ''h2''),
                   put_or num_str ''h2_path'' (f ''path'') (js ''/''),
                   put_if num_str ''h2_host'' (f ''host'')])
             (js_if_else (network = js ''tcp'')
               (js_if_else (f ''type'' = Some (JStr (js ''http'')))
                 (seq [put ''obfs_vmess'' (js ''http''),
                       put_if num_str ''http_path'' (f ''path''),
                       js_if (json_truthy num_str (f ''host''))
                         (merge_unknown (map_option (\<lambda>v. [(js ''host'', v)])
                            (case f ''host'' of None \<Rightarrow> None | Some v \<Rightarrow> json_pvalue num_str v)))])
                 (put ''obfs_vmess'' (js ''none'')))
               (js_if (network = js ''grpc'')
                 (seq [put ''obfs_vmess'' (js ''grpc''),
                       put_or num_str ''grpc_service_name'' (f ''path'') []])))))"

definition vmess_json_body :: "(jstr \<Rightarrow> jstr) \<Rightarrow> json obj \<Rightarrow> stmt list" where
  "vmess_json_body num_str ssm =
     (let f = field ssm
      in [put_or num_str ''name'' (f ''ps'') [],
          put_try ''server'' (form_text num_str (f ''add'')),
          put_try ''port'' (form_text num_str (f ''port'')),
          put_or num_str ''alterId'' (f ''aid'') (js ''0''),
          put_try ''uuid'' (form_text num_str (f ''id'')),
          put_if num_str ''cipher'' (f ''scy''),
          js_if (f ''tls'' = Some (JStr (js ''tls'')))
            (seq [put ''tls'' (js ''true''), put_if num_str ''servername'' (f ''sni'')]),
          put_if num_str ''client_fingerprint'' (f ''fp''),
          bind_try (vmess_network num_str (f ''net'')) (vmess_transport num_str ssm),
          merge_unknown (vmess_unknown num_str ssm),
          ret True])"

definition parseVmess_json :: "(jstr \<Rightarrow> jstr) \<Rightarrow> jstr \<Rightarrow> stmt" where
  "parseVmess_json num_str body =
     bind_try (do { sstr \<leftarrow> b64DecodeUnicode body; json_parse sstr }) (\<lambda>v.
       seq [put ''type'' (js ''vmess''),
            bind_try (json_fields v) (\<lambda>ssm. seq (vmess_json_body num_str ssm))])"

definition vmess_url_body :: "url \<Rightarrow> jstr obj \<Rightarrow> stmt list" where
  "vmess_url_body u query =
     (let q = getq query; dec = decodeURIComponentSafe;
          network = to_lower (or_else (q ''type'') (js ''tcp'')); security = to_lower (q ''security'');
          ws = (network = js ''ws''); grpc = (network = js ''grpc''); http = (network = js ''http''); h2 = (network = js ''h2'')
      in [put ''type'' (js ''vmess''),
          put ''obfs_vmess'' (if ws then js ''websocket'' else if grpc then js ''grpc'' else if http then js ''http''
                              else if h2 then js ''h2'' else js ''none''),
          put ''server'' (u_hostname u),
          put ''port'' (or_else (u_port u) (js ''443'')),
          put ''uuid'' (dec (u_username u)),
          put ''alterId'' (js ''0''),
          put ''cipher'' (or_else (q ''encryption'') (js ''auto'')),
          js_if (security = js ''tls'' \<or> security = js ''xtls'' \<or> security = js ''reality'') (put ''tls'' (js ''true'')),
          put_dec ''servername'' (q ''sni''),
          put_dec ''client_fingerprint'' (q ''fp''),
          js_if_else ws
            (seq [put ''ws_path'' (dec (or_else (q ''path'') (js ''/''))),
                  js_if (truthy (q ''host'')) (put ''ws_headers'' (js ''Host: '' @ dec (q ''host'')))])
            (js_if_else grpc (put ''grpc_service_name'' (dec (or_else (q ''serviceName'') (q ''path''))))
              (js_if_else http (put_dec ''http_path'' (q ''path''))
                (js_if h2 (seq [put_dec ''h2_path'' (q ''path''), put_dec ''h2_host'' (q ''host'')])))),
          js_if (one_or_true (q ''allowInsecure'') \<or> one_or_true (q ''insecure'')) (put ''skip_cert_verify'' (js ''true'')),
          put_name u,
          merge_unknown (collectUnknownQueryParams query
            [''encryption'', ''sni'', ''fp'', ''security'', ''type'', ''path'', ''host'', ''serviceName'', ''allowInsecure'', ''insecure'']),
          ret True])"

text \<open>\<open>try { s } catch (e) { h }\<close>; what \<open>s\<close> wrote before it threw stays.\<close>

definition try_catch :: "stmt \<Rightarrow> stmt \<Rightarrow> stmt" where
  "try_catch s h pg = (case s pg of (Throw, pg') \<Rightarrow> h pg' | r \<Rightarrow> r)"

definition parseVmess :: "(jstr \<Rightarrow> jstr) \<Rightarrow> (jstr \<Rightarrow> url option) \<Rightarrow> jstr \<Rightarrow> stmt" where
  "parseVmess num_str new_url body =
     try_catch (parseVmess_json num_str body)
       (try_catch (with_url new_url (js ''vmess://'' @ body) vmess_url_body) (ret False))"

end
