(* ===== verification/Server_Url.thy ===== *)
theory Server_Url
  imports Vmess_Links
begin

text \<open>
  The two entry points of \<open>server_url.js\<close>: \<open>export_url\<close> (712-793) and
  \<open>import_url\<close> (1631-1799). The status element is part of the page, \<open>None\<close> when
  it is missing; the answer of the prompt (\<open>None\<close> when it is cancelled) and whether the copy
  command throws are arguments.
\<close>

definition set_status :: "string \<Rightarrow> jstr \<Rightarrow> page \<Rightarrow> page" where
  "set_status cls msg pg = pg\<lparr>status := Some (cls, msg)\<rparr>"

definition upper_cu :: "cu \<Rightarrow> cu" where
  "upper_cu c = (if 97 \<le> c \<and> c \<le> 122 then c - 32 else c)"

section \<open>Export\<close>

text \<open>The export function of a protocol; \<open>None\<close> for an unknown one.\<close>

definition export_link :: "jstr \<Rightarrow> (page \<Rightarrow> jstr option option) option" where
  "export_link type =
     map_of (map (\<lambda>(k, e). (js k, e))
       [(''ss'', exportSS), (''ssr'', exportSSR), (''vmess'', exportVmess), (''vless'', exportVless),
        (''trojan'', exportTrojan), (''hysteria'', exportHysteria), (''hysteria2'', exportHysteria2),
        (''tuic'', exportTuic), (''socks5'', exportSocks), (''http'', exportHttp), (''anytls'', exportAnyTLS),
        (''mieru'', exportMieru)]) type"

text \<open>
  The page after the export and the text that was selected when the copy command ran. The known
  type names are ASCII, and so is their upper case.
\<close>

definition export_url :: "bool \<Rightarrow> page \<Rightarrow> page \<times> jstr option" where
  "export_url copy_throws pg =
     (if status pg = None then (pg, None)
      else
        (case named Plain (els (controls pg ''type'')) of
           [] \<Rightarrow> (pg, None)
         | i # _ \<Rightarrow>
             (let type = to_lower (evalue (els (controls pg ''type'') ! i)); shown = map upper_cu type
              in case export_link type of
                   None \<Rightarrow> (set_status ''oc-status-err'' (js ''<%:Unsupported protocol type%>'') pg, None)
                 | Some e \<Rightarrow>
                     (case e pg of
                        None \<Rightarrow> (set_status ''oc-status-err'' (js ''<%:Export error%>'') pg, None)
                      | Some None \<Rightarrow> (set_status ''oc-status-err'' (js ''<%:Export failed%>'') pg, None)
                      | Some (Some url) \<Rightarrow>
                          if \<not> truthy url then (set_status ''oc-status-err'' (js ''<%:Export failed%>'') pg, None)
                          else if copy_throws
                          then (set_status ''oc-status-err''
                                  (js ''<%:Unable to copy%> '' @ shown @ js '' <%:to clipboard%>'') pg, Some url)
                          else (set_status ''oc-status-ok''
                                  (js ''<%:Copy%> '' @ shown @ js '' <%:to clipboard successfully%>'') pg, Some url)))))"

section \<open>Import\<close>

text \<open>
  The import function of a scheme. The three formats that are not URLs get the part between the
  first two \<open>://\<close>, the others the whole link.
\<close>

definition import_stmt :: "(jstr \<Rightarrow> jstr) \<Rightarrow> (jstr \<Rightarrow> url option) \<Rightarrow> jstr list \<Rightarrow> jstr \<Rightarrow> stmt option" where
  "import_stmt num_str new_url ssu link =
     map_of (map (\<lambda>(k, s). (js k, s))
       [(''ss'', parseSS (ssu ! 1)), (''ssr'', parseSSR (ssu ! 1)), (''vmess'', parseVmess num_str new_url (ssu ! 1)),
        (''vless'', parseVless new_url link), (''trojan'', parseTrojan new_url link),
        (''hysteria'', parseHysteria new_url link),
        (''hysteria2'', parseHysteria2 new_url link), (''hy2'', parseHysteria2 new_url link),
        (''tuic'', parseTuic new_url link),
        (''socks'', parseSocks new_url link), (''socks5'', parseSocks new_url link), (''socks5h'', parseSocks new_url link),
        (''http'', parseHttp new_url link), (''https'', parseHttp new_url link),
        (''anytls'', parseAnyTLS new_url link), (''mierus'', parseMieru new_url link)])
       (to_lower (hd ssu))"

definition import_done :: "flow \<times> page \<Rightarrow> page" where
  "import_done r =
     endImportOtherParameters
       (case r of
          (Ret True, pg) \<Rightarrow> set_status ''oc-status-ok'' (js ''<%:Import configuration information successfully%>'') pg
        | (Throw, pg) \<Rightarrow> set_status ''oc-status-err'' (js ''<%:Parse error%>'') pg
        | (_, pg) \<Rightarrow> set_status ''oc-status-err'' (js ''<%:Invalid format%>'') pg)"

definition import_url :: "(jstr \<Rightarrow> jstr) \<Rightarrow> (jstr \<Rightarrow> url option) \<Rightarrow> jstr option \<Rightarrow> page \<Rightarrow> page" where
  "import_url num_str new_url answer pg =
     (if status pg = None then pg
      else case answer of
        None \<Rightarrow> set_status ''oc-status-err'' (js ''<%:User cancelled%>'') pg
      | Some ssrurl \<Rightarrow>
          if ssrurl = [] then set_status ''oc-status-err'' (js ''<%:User cancelled%>'') pg
          else
            (let ssu = js_split (js ''://'') ssrurl
             in if length ssu < 2 then set_status ''oc-status-err'' (js ''<%:Invalid format%>'') pg
                else
                  (let pg1 = beginImportOtherParameters (set_status '''' [] pg)
                   in case import_stmt num_str new_url ssu ssrurl of
                        None \<Rightarrow> import_done (Ret False, pg1)
                      | Some s \<Rightarrow> import_done (s pg1))))"

section \<open>Every import statement\<close>

lemma import_done_simps:
  "importing (import_done r) = None" "\<exists>c. status (import_done r) = Some c"
  by (auto simp: import_done_def endImportOtherParameters_def set_status_def split: prod.split flow.split bool.split)

lemma set_status_simps [simp]:
  "importing (set_status c m pg) = importing pg" "status (set_status c m pg) = Some (c, m)"
  "controls (set_status c m pg) = controls pg" "timers (set_status c m pg) = timers pg"
  by (simp_all add: set_status_def)

text \<open>
  A property of pages that writing a field, the import state and the status leave true is left
  true by every import, whatever the link and however it ends.
\<close>

locale page_invariant =
  fixes inv :: "page \<Rightarrow> bool"
  assumes inv_put: "inv pg \<Longrightarrow> inv (setFormValue f v pg)"
    and inv_importing: "inv pg \<Longrightarrow> inv (pg\<lparr>importing := x\<rparr>)"
    and inv_status: "inv pg \<Longrightarrow> inv (pg\<lparr>status := y\<rparr>)"
begin

definition stays :: "stmt \<Rightarrow> bool" where
  "stays s \<longleftrightarrow> (\<forall>pg. inv pg \<longrightarrow> inv (snd (s pg)))"

lemma staysI: "(\<And>pg. inv pg \<Longrightarrow> inv (snd (s pg))) \<Longrightarrow> stays s"
  by (simp add: stays_def)

lemma staysD: "s pg = (r, pg') \<Longrightarrow> stays s \<Longrightarrow> inv pg \<Longrightarrow> inv pg'"
  by (metis stays_def snd_conv)

lemma staysE: "stays s \<Longrightarrow> inv pg \<Longrightarrow> inv (snd (s pg))"
  by (simp add: stays_def)

lemma stays_put: "stays (put f v)"
  by (simp add: stays_def put_def inv_put)

lemma stays_put_try: "stays (put_try f e)"
  by (simp add: stays_def put_try_def put_def inv_put split: option.split)

lemma stays_if: "stays s \<Longrightarrow> stays (js_if c s)"
  by (simp add: stays_def js_if_def)

lemma stays_if_else: "stays s \<Longrightarrow> stays t \<Longrightarrow> stays (js_if_else c s t)"
  by (simp add: stays_def js_if_else_def)

lemma stays_bind_try: "(\<And>x. stays (k x)) \<Longrightarrow> stays (bind_try e k)"
  by (simp add: stays_def bind_try_def split: option.split)

lemma stays_ret: "stays (ret b)" "stays throw"
  by (simp_all add: stays_def ret_def throw_def)

lemma stays_try_catch: "stays s \<Longrightarrow> stays h \<Longrightarrow> stays (try_catch s h)"
  by (rule staysI) (auto simp: try_catch_def split: prod.split flow.split dest: staysD intro: staysE)

lemma stays_seq_Nil: "stays (seq [])"
  by (simp add: stays_def)

lemma stays_seq_Cons: "stays s \<Longrightarrow> stays (seq ss) \<Longrightarrow> stays (seq (s # ss))"
  by (rule staysI) (auto split: prod.split flow.split dest: staysD intro: staysE)

lemma stays_case_option: "stays a \<Longrightarrow> (\<And>x. stays (b x)) \<Longrightarrow> stays (case e of None \<Rightarrow> a | Some x \<Rightarrow> b x)"
  by (cases e) simp_all

lemma stays_merge: "stays (merge_unknown e)"
  by (auto simp: stays_def merge_unknown_def mergeUnknownParamsToOtherParameters_def Let_def
      intro: inv_put inv_importing split: option.split)

lemma stays_with_url: "(\<And>u q. stays (seq (body u q))) \<Longrightarrow> stays (with_url nu link body)"
  by (auto simp: stays_def with_url_def bind_try_def split: option.split)

lemmas stays_intros = stays_put stays_put_try stays_if stays_if_else stays_bind_try stays_ret stays_try_catch
  stays_seq_Cons stays_seq_Nil stays_case_option stays_merge stays_with_url

lemmas stmt_defs = put_dec_def put_dec_try_def put_name_def flagged_def applyHysteriaAuthorityPort_def
  user_pass_def name_or_address_def put_or_def put_if_def Let_def split_def

lemma stays_urls:
  "stays (parseVless nu link)" "stays (parseTrojan nu link)" "stays (parseHysteria nu link)"
  "stays (parseHysteria2 nu link)" "stays (parseTuic nu link)" "stays (parseSocks nu link)"
  "stays (parseHttp nu link)" "stays (parseAnyTLS nu link)" "stays (parseMieru nu link)"
  unfolding parseVless_def parseTrojan_def parseHysteria_def parseHysteria2_def parseTuic_def parseSocks_def
    parseHttp_def parseAnyTLS_def parseMieru_def vless_body_def trojan_body_def hysteria_body_def
    hysteria2_body_def tuic_body_def socks_body_def http_body_def anytls_body_def mieru_body_def stmt_defs
  by (rule stays_intros)+

lemma stays_parseVmess: "stays (parseVmess num_str nu text)"
  unfolding parseVmess_def parseVmess_json_def vmess_json_body_def vmess_transport_def vmess_url_body_def stmt_defs
  by (rule stays_intros)+

lemma stays_parseSS: "stays (parseSS text)"
  unfolding parseSS_def ss_sip002_def ss_legacy_def ss_query_stmt_def ss_plugin_stmt_def stmt_defs
  by (rule stays_intros)+

lemma stays_parseSSR: "stays (parseSSR text)"
proof -
  have "stays (\<lambda>pg. case b64decsafe text of None \<Rightarrow> (Ret False, pg) | Some x \<Rightarrow> k x pg)"
    if "\<And>x. stays (k x)" for k
    using that by (simp add: stays_def split: option.split)
  note intro = this
  have "stays (\<lambda>pg. parseSSR text pg)"
    unfolding parseSSR_def ssr_params_stmt_def stmt_defs
    by (rule intro) (rule stays_intros)+
  then show ?thesis by simp
qed

lemma stays_import:
  assumes "import_stmt num_str nu ssu link = Some s"
  shows "stays s"
proof -
  have "(to_lower (hd ssu), s) \<in> set (map (\<lambda>(k, s). (js k, s))
      [(''ss'', parseSS (ssu ! 1)), (''ssr'', parseSSR (ssu ! 1)), (''vmess'', parseVmess num_str nu (ssu ! 1)),
        (''vless'', parseVless nu link), (''trojan'', parseTrojan nu link), (''hysteria'', parseHysteria nu link),
        (''hysteria2'', parseHysteria2 nu link), (''hy2'', parseHysteria2 nu link), (''tuic'', parseTuic nu link),
        (''socks'', parseSocks nu link), (''socks5'', parseSocks nu link), (''socks5h'', parseSocks nu link),
        (''http'', parseHttp nu link), (''https'', parseHttp nu link),
        (''anytls'', parseAnyTLS nu link), (''mierus'', parseMieru nu link)])"
    by (rule map_of_SomeD) (rule assms[unfolded import_stmt_def])
  then show ?thesis
    by (simp only: list.map list.set prod.case insert_iff empty_iff prod.inject)
      (elim disjE conjE FalseE; simp only: stays_urls stays_parseVmess stays_parseSS stays_parseSSR)
qed

lemma inv_begin: "inv pg \<Longrightarrow> inv (beginImportOtherParameters pg)"
  by (simp add: beginImportOtherParameters_def Let_def inv_put inv_importing)

lemma inv_done: "inv (snd r) \<Longrightarrow> inv (import_done r)"
  by (auto simp: import_done_def endImportOtherParameters_def set_status_def
      intro!: inv_importing inv_status split: prod.split flow.split bool.split)

lemma inv_import_url: "inv pg \<Longrightarrow> inv (import_url num_str nu answer pg)"
  using stays_import
  by (auto simp: import_url_def set_status_def Let_def inv_status inv_begin stays_def
      intro!: inv_done split: option.split)

end

section \<open>What imports never change\<close>

text \<open>Everything about an element but the values it holds.\<close>

definition element_shape :: "element \<Rightarrow> _" where
  "element_shape e = (ekind e, etag e, etype e, keeps e, cm_keeps e, in_list e, cm_next e = None, cm_parent e = None, ecombo e = None)"

definition page_shape :: "page \<Rightarrow> string \<Rightarrow> _" where
  "page_shape pg f = (map element_shape (els (controls pg f)), buttons (controls pg f))"

lemma shape_put_element: "element_shape (put_element e v) = element_shape e"
  by (auto simp: element_shape_def put_element_def getCodeMirrorInstance_def Let_def)

lemma shape_update:
  "element_shape x = element_shape (es ! i) \<Longrightarrow> map element_shape (es[i := x]) = map element_shape es"
  by (rule nth_equalityI) (auto, metis nth_list_update_eq nth_list_update_neq)

lemma shape_upd:
  assumes "\<And>e. element_shape (h e) = element_shape e"
  shows "page_shape (upd_element f i h pg) = page_shape pg"
proof
  fix g
  have "map element_shape (es[i := h (es ! i)]) = map element_shape es" for es
    by (rule shape_update) (rule assms)
  then show "page_shape (upd_element f i h pg) g = page_shape pg g"
    by (simp add: page_shape_def upd_element_def Let_def)
qed

lemma shape_dispatch: "page_shape (dispatchFieldChange t pg) = page_shape pg"
  by (simp add: page_shape_def fun_eq_iff dispatchFieldChange_def)

lemma shape_setElementValue: "page_shape (setElementValue f i v pg) = page_shape pg"
  by (simp add: setElementValue_def shape_dispatch shape_upd shape_put_element)

lemma shape_sync: "page_shape (syncDynamicListSelect f i v pg) = page_shape pg"
proof (cases "ecombo (els (controls pg f) ! i)")
  case (Some c)
  let ?h = "\<lambda>e. e\<lparr>ecombo := Some (put_combo v c)\<rparr>"
  have "map element_shape (es[i := ?h (es ! i)]) = map element_shape es"
    if "ecombo (es ! i) = Some c" for es
    using that by (intro shape_update) (simp add: element_shape_def)
  then show ?thesis using Some
    by (auto simp: syncDynamicListSelect_def shape_dispatch page_shape_def upd_element_def Let_def fun_eq_iff)
qed (simp add: syncDynamicListSelect_def)

lemma shape_expand: "page_shape (tryExpandDynamicListRows f n pg) = page_shape pg"
  by (auto simp: tryExpandDynamicListRows_def page_shape_def fun_eq_iff split: option.splits list.splits)

lemma shape_folds:
  "page_shape (fold (\<lambda>(n, i) p. setElementValue f i (h n) p) xs pg) = page_shape pg"
  "page_shape (setRows f is vs pg) = page_shape pg"
proof -
  show "page_shape (fold (\<lambda>(n, i) p. setElementValue f i (h n) p) xs pg) = page_shape pg"
    by (induction xs arbitrary: pg) (auto simp: shape_setElementValue)
  have "page_shape (fold (\<lambda>(n, i) p. syncDynamicListSelect f i (item_at vs n) (setElementValue f i (item_at vs n) p)) xs pg)
      = page_shape pg" for xs
    by (induction xs arbitrary: pg) (auto simp: shape_setElementValue shape_sync)
  then show "page_shape (setRows f is vs pg) = page_shape pg" by (simp add: setRows_def)
qed

lemma shape_setFormValue: "page_shape (setFormValue f v pg) = page_shape pg"
proof -
  have "page_shape (schedule f v r pg') = page_shape pg'" for r pg'
    by (simp add: schedule_def page_shape_def fun_eq_iff)
  then show ?thesis
    by (simp add: setFormValue_def setFormValue_retry_def Let_def shape_expand shape_folds shape_setElementValue)
qed

interpretation shape_inv: page_invariant "\<lambda>pg. page_shape pg = sh" for sh
  by unfold_locales (simp_all add: shape_setFormValue page_shape_def fun_eq_iff)

interpretation timers_inv: page_invariant timers_ok
  by unfold_locales (auto simp: setFormValue_def timers_ok_retry, simp_all add: timers_ok_def)

interpretation text_inv: page_invariant "\<lambda>pg. text_page pg \<and> kept_text pg = k" for k
  by unfold_locales (auto simp: text_form.ok_put text_form.kept_put)

end
