(* ===== verification/Link_Round_Trip.thy ===== *)
theory Link_Round_Trip
  imports Import_Links
begin

text \<open>
  Importing an exported link. For a link-based protocol the exported text has the form of
  \<open>parseUrl_print\<close>, its query reads back by \<open>print_query_parse\<close>, the import
  body is a sequence of field writes, and the form laws give every field.
\<close>

section \<open>Composing the parts\<close>

lemma assigns_put_dec [assigns_intros]:
  "assigns (put_dec f x) (if truthy x then [(f, decodeURIComponentSafe x)] else [])"
  unfolding put_dec_def by (intro assigns_intros)

lemma assigns_put_dec_try [assigns_intros]:
  "decodeURIComponent x = Some (decodeURIComponentSafe x) \<Longrightarrow>
   assigns (put_dec_try f x) (if truthy x then [(f, decodeURIComponentSafe x)] else [])"
  unfolding put_dec_try_def by (intro assigns_intros assigns_put_try) simp

lemma assigns_flagged [assigns_intros]:
  "assigns (flagged fl f x v) (if truthy x then [(fl, js ''1'')] @ [(f, v)] @ [] else [])"
  unfolding flagged_def by (intro assigns_intros)

lemma assigns_put_name [assigns_intros]:
  "assigns (put_name u) (if truthy (u_hash u) then [(''name'', decodeFragment (drop 1 (u_hash u)))] else [])"
  unfolding put_name_def by (intro assigns_intros)

lemma assigns_ports [assigns_intros]:
  "assigns (applyHysteriaAuthorityPort p)
     ([(''port'', fst (authority_ports p))] @
      (if truthy (snd (authority_ports p))
       then [(''flag_port_hopping'', js ''1'')] @ [(''ports'', snd (authority_ports p))] @ [] else []) @ [])"
  unfolding applyHysteriaAuthorityPort_def split_def Let_def by (intro assigns_intros)

text \<open>A single port is kept as it is.\<close>

definition plain_port :: "jstr \<Rightarrow> bool" where
  "plain_port p \<longleftrightarrow> p \<noteq> [] \<and> list_all is_digit p"

lemma plain_port_facts:
  assumes "plain_port p"
  shows "truthy p" "atom p" "authority_ports p = (p, [])"
proof -
  have d: "\<forall>c\<in>set p. 48 \<le> c \<and> c \<le> 57" using assms by (auto simp: plain_port_def list_all_iff is_digit_def)
  show t: "truthy p" using assms by (simp add: plain_port_def truthy_def)
  show "atom p" using d by (force simp: atom_def list_all_iff word_cu_def)
  have "44 \<notin> set p" "45 \<notin> set p" using d by auto
  then have "js_split [44] p = [p]" "\<not> js_includes p [45]"
    by (simp_all add: js_split_absent js_includes_def index_of_single)
  then show "authority_ports p = (p, [])"
    using t by (simp add: authority_ports_def js_def Let_def)
qed

text \<open>The value a field has after the import of an exported page.\<close>

definition carried :: "jstr \<Rightarrow> jstr option" where
  "carried v = (if truthy v then Some v else None)"

lemma collect_known:
  assumes "callable_has_own q" "set (map fst q) \<subseteq> js ` set ks" "set ks \<subseteq> set known"
  shows "collectUnknownQueryParams q known = Some []"
proof -
  have "fold (\<lambda>(key, v) r. if in_table known key then r
        else obj_set r key (normalizeUnknownParamValueByKey key (POne (YStr (decodeURIComponentSafe v))))) es [] = []"
    if "\<forall>(k, v)\<in>set es. in_table known k" for es
    using that by (induction es) auto
  moreover have "\<forall>(k, v)\<in>set (own_entries q). in_table known k"
    using assms by (force simp: set_own_entries in_table_def)
  ultimately show ?thesis using assms(1) by (simp add: collectUnknownQueryParams_def collect_entries_def)
qed

text \<open>The fragment of a name.\<close>

lemma name_part_parts:
  assumes "well_formed name"
  shows "name_part name = Some (if truthy name then 35 # enc name else [])"
    "frag = (if truthy name then 35 # enc name else []) \<Longrightarrow> frag = [] \<or> hd frag = 35"
    "frag = (if truthy name then 35 # enc name else []) \<Longrightarrow> \<forall>c\<in>set frag. \<not> is_lt c"
  using assms enc_safe[OF assms] uri_safe_word
  by (auto simp: name_part_def enc_Some js_def is_lt_35)

section \<open>A link and its address\<close>

definition show_link :: "jstr \<Rightarrow> (jstr \<times> jstr option) option \<Rightarrow> jstr \<Rightarrow> jstr option \<Rightarrow> jstr \<Rightarrow> jstr \<Rightarrow> jstr \<Rightarrow> jstr" where
  "show_link sch ui h port path search frag =
     sch @ js ''://'' @ show_authority ui h port @ path @ search @ frag"

definition link_url :: "jstr \<Rightarrow> (jstr \<times> jstr option) option \<Rightarrow> jstr \<Rightarrow> jstr option \<Rightarrow> jstr \<Rightarrow> jstr \<Rightarrow> jstr \<Rightarrow> url" where
  "link_url sch ui h port path search frag =
     \<lparr>u_hash = frag, u_host = show_authority ui h port, u_hostname = h,
      u_href = show_link sch ui h port path search frag,
      u_origin = sch @ js ''://'' @ show_authority ui h port,
      u_pathname = or_else path (js ''/''), u_port = (case port of None \<Rightarrow> [] | Some p \<Rightarrow> p),
      u_protocol = sch @ js '':'', u_search = search,
      u_username = (case ui of None \<Rightarrow> [] | Some (u, p) \<Rightarrow> u),
      u_password = (case ui of Some (u, Some p) \<Rightarrow> p | _ \<Rightarrow> [])\<rparr>"

lemma with_url_link:
  assumes "sch \<noteq> []" "\<forall>c\<in>set sch. word_cu c" "atom h" "\<And>p. port = Some p \<Longrightarrow> atom p"
    and "\<And>u p. ui = Some (u, p) \<Longrightarrow> atom u \<and> (\<forall>q. p = Some q \<longrightarrow> atom q)"
    and "path = [] \<or> path = js ''/''" "35 \<notin> set t" "parseQuery (63 # t) = Some q"
    and name: "well_formed name" "frag = (if truthy name then 35 # enc name else [])"
  shows "with_url nu (show_link sch ui h port path (63 # t) frag) body pg =
    seq (body (link_url sch ui h port path (63 # t) frag) q) pg"
proof -
  have "parseUrl nu (show_link sch ui h port path (63 # t) frag) =
      Some (link_url sch ui h port path (63 # t) frag)"
    unfolding show_link_def link_url_def
  proof (rule parseUrl_print)
    show "path = [] \<or> hd path = 47" "63 \<notin> set path" "35 \<notin> set path"
      using assms(6) by (auto simp: js_def)
  qed (use assms(1-5,7) name_part_parts(2,3)[OF name] in auto)
  then show ?thesis using assms(8) by (simp add: with_url_def bind_try_def link_url_def)
qed

lemma enc_plain: "well_formed v \<Longrightarrow> list_all unreserved v \<Longrightarrow> enc v = v"
  by (simp add: enc_def encode_unreserved_id list_all_iff)

lemma dec_Nil [simp]: "decodeURIComponentSafe [] = []"
  by (simp add: decodeURIComponentSafe_def decode_uri_id)

lemma enc_literals [simp]:
  "enc (js ''1'') = js ''1''" "enc (js ''ws'') = js ''ws''" "enc (js ''grpc'') = js ''grpc''" "enc (js ''tcp'') = js ''tcp''"
  "enc (js ''xhttp'') = js ''xhttp''" "enc (js ''tls'') = js ''tls''" "enc (js ''xtls'') = js ''xtls''"
  "enc (js ''reality'') = js ''reality''" "enc (js ''none'') = js ''none''"
  by (rule enc_plain, simp, simp add: js_def unreserved_def alnum_def)+

lemma one_or_true_simps [simp]: "one_or_true (js ''1'')" "one_or_true (js ''true'')" "\<not> one_or_true []"
  "one_or_true (if b then js ''1'' else []) \<longleftrightarrow> b"
  "true_false (js ''1'') = js ''true''" "true_false (js ''true'') = js ''true''"
  by (simp_all add: one_or_true_def true_false_def)

text \<open>Pages a link can carry.\<close>

definition exportable :: "page \<Rightarrow> string list \<Rightarrow> bool" where
  "exportable pg fs \<longleftrightarrow>
     (\<forall>f\<in>set fs. well_formed (getFormValue pg f)) \<and> truthy (getFormValue pg ''server'') \<and>
     atom (getFormValue pg ''server'') \<and> stable (getFormValue pg ''name'') \<and>
     parseOtherParameters (getFormValue pg ''other_parameters'') = []"

text \<open>
  The frame of every round trip: the exported text is a link whose query holds \<open>es\<close>; when the
  import body, run on a query object with those parameters only, is a sequence of writes with
  property \<open>P\<close>, so is the import of the link.
\<close>

definition name_frag :: "jstr \<Rightarrow> jstr" where
  "name_frag name = (if truthy name then 35 # enc name else [])"

definition holds_query :: "(bool \<times> string \<times> jstr) list \<Rightarrow> jstr obj \<Rightarrow> bool" where
  "holds_query es q \<longleftrightarrow> (\<forall>(c, k, v)\<in>set es. getq q k = (if c then enc v else [])) \<and>
     callable_has_own q \<and> set (map fst q) \<subseteq> js ` set (keys_of (filter fst es))"

lemma collect_held_used:
  assumes "holds_query es q" "\<forall>(c, k, v)\<in>set es. c \<longrightarrow> k \<in> set known"
  shows "collectUnknownQueryParams q known = Some []"
  using assms unfolding holds_query_def
  by (intro collect_known[where ks = "keys_of (filter fst es)"]) (auto simp: keys_of_def)

lemma collect_held:
  "holds_query es q \<Longrightarrow> list_all (\<lambda>k. k \<in> set known) (keys_of es) \<Longrightarrow> collectUnknownQueryParams q known = Some []"
  by (rule collect_held_used) (auto simp: keys_of_def list_all_iff)

lemma getq_other:
  assumes "holds_query es q" "k \<notin> set (keys_of es)"
  shows "getq q k = []"
proof -
  have "js k \<notin> set (map fst q)"
  proof
    assume "js k \<in> set (map fst q)"
    then obtain k' where "k' \<in> set (keys_of (filter fst es))" "js k = js k'"
      using assms(1) unfolding holds_query_def by blast
    moreover from this have "k' \<in> set (keys_of es)" by (force simp: keys_of_def)
    ultimately have "k \<in> set (keys_of es)" by simp
    with assms(2) show False by simp
  qed
  then have "obj_get q (js k) = None" by (simp add: obj_get_def map_of_eq_None_iff)
  then show ?thesis by (simp add: getq_def)
qed

lemma held_decodes:
  assumes "holds_query es q" "good_entries es"
  shows "decodeURIComponent (getq q k) = Some (decodeURIComponentSafe (getq q k))"
proof (cases "k \<in> set (keys_of es)")
  case True
  then obtain c v where m: "(c, k, v) \<in> set es" by (auto simp: keys_of_def)
  then have "getq q k = (if c then enc v else [])" "c \<longrightarrow> well_formed v"
    using assms by (auto simp: holds_query_def good_entries_def)
  then show ?thesis by (cases c) (simp_all add: dec_enc decode_uri_id decodeURIComponentSafe_def)
next
  case False
  with assms(1) have "getq q k = []" by (rule getq_other)
  then show ?thesis by (simp add: decode_uri_id decodeURIComponentSafe_def)
qed

lemma held_decodes_or:
  assumes "holds_query es q" "good_entries es" "decodeURIComponent d = Some (decodeURIComponentSafe d)"
  shows "decodeURIComponent (or_else (getq q k) d) = Some (decodeURIComponentSafe (or_else (getq q k) d))"
  using held_decodes[OF assms(1,2)] assms(3) by (simp add: or_else_def)

lemma assigns_put_try_dec [assigns_intros]:
  "decodeURIComponent x = Some (decodeURIComponentSafe x) \<Longrightarrow>
   assigns (put_try f (decodeURIComponent x)) [(f, decodeURIComponentSafe x)]"
  by (rule assigns_put_try)

lemma assigns_put_try_map [assigns_intros]:
  "decodeURIComponent x = Some (decodeURIComponentSafe x) \<Longrightarrow>
   assigns (put_try f (map_option h (decodeURIComponent x))) [(f, h (decodeURIComponentSafe x))]"
  by (rule assigns_put_try) simp

lemma link_round_trip:
  assumes es: "good_entries es" and other: "parseOtherParameters (getFormValue pg ''other_parameters'') = []"
    and name: "well_formed name"
    and address: "sch \<noteq> []" "\<forall>c\<in>set sch. word_cu c" "atom h" "\<And>p. port = Some p \<Longrightarrow> atom p"
      "\<And>u p. ui = Some (u, p) \<Longrightarrow> atom u \<and> (\<forall>q. p = Some q \<longrightarrow> atom q)" "path = [] \<or> path = js ''/''"
    and export: "\<And>t. print_query pg es km = Some t \<Longrightarrow> name_part name = Some (name_frag name) \<Longrightarrow>
      e = Some (Some (show_link sch ui h port path (63 # t) (name_frag name)))"
    and body: "\<And>t q. holds_query es q \<Longrightarrow>
      \<exists>kvs. finishes (seq (body (link_url sch ui h port path (63 # t) (name_frag name)) q)) kvs \<and> P kvs"
  shows "\<exists>link kvs. e = Some (Some link) \<and> finishes (with_url nu link body) kvs \<and> P kvs"
proof -
  obtain t q where t: "print_query pg es km = Some t" "35 \<notin> set t" "parseQuery (63 # t) = Some q"
    "callable_has_own q" "set (map fst q) \<subseteq> js ` set (keys_of (filter fst es))"
    "\<forall>(c, k, v)\<in>set es. getq q k = (if c then enc v else [])"
    by (rule print_query_parse[OF es other])
  have "holds_query es q" using t(4-6) by (simp add: holds_query_def)
  from body[OF this] obtain kvs where
    kvs: "finishes (seq (body (link_url sch ui h port path (63 # t) (name_frag name)) q)) kvs" "P kvs" by blast
  have "with_url nu (show_link sch ui h port path (63 # t) (name_frag name)) body pg' =
      seq (body (link_url sch ui h port path (63 # t) (name_frag name)) q) pg'" for pg'
    by (rule with_url_link[OF address t(2,3) name name_frag_def])
  with kvs have "finishes (with_url nu (show_link sch ui h port path (63 # t) (name_frag name)) body) kvs"
    by (simp add: finishes_def)
  with export[OF t(1)] kvs(2) show ?thesis using name_part_parts(1)[OF name] by (auto simp: name_frag_def)
qed

lemma truthy_name_frag [simp]: "truthy (name_frag name) \<longleftrightarrow> truthy name"
  "truthy name \<Longrightarrow> drop (Suc 0) (name_frag name) = enc name"
  by (simp_all add: name_frag_def)

lemmas link_simps = link_url_def truthy_enc dec_enc decodeFragment_enc carried_def plain_port_facts

lemmas show_simps = show_link_def show_authority_def show_userinfo_def show_port_def js_def enc_Some

lemma scheme_words:
  "\<forall>c\<in>set (js ''hysteria2''). word_cu c" "\<forall>c\<in>set (js ''hysteria''). word_cu c" "\<forall>c\<in>set (js ''tuic''). word_cu c"
  "\<forall>c\<in>set (js ''trojan''). word_cu c" "\<forall>c\<in>set (js ''vless''). word_cu c" "\<forall>c\<in>set (js ''socks5''). word_cu c"
  "\<forall>c\<in>set (js ''http''). word_cu c" "\<forall>c\<in>set (js ''https''). word_cu c" "\<forall>c\<in>set (js ''anytls''). word_cu c"
  "\<forall>c\<in>set (js ''mierus''). word_cu c"
  by (simp_all add: js_def word_cu_def)

text \<open>A \<open>Host:\<close> header as the import writes it.\<close>

definition host_value :: "jstr \<Rightarrow> bool" where
  "host_value h \<longleftrightarrow> h \<noteq> [] \<and> trimmed h \<and> well_formed h \<and> \<not> js_includes h (js ''Host:'')"

lemma host_header_show:
  assumes "host_value h"
  shows "host_header (js ''Host: '' @ h) = h" "has_host (js ''Host: '' @ h)"
proof -
  have "index_of (js ''Host:'') (32 # h) = None"
    using assms by (simp add: host_value_def js_includes_def starts_with_def js_def)
  then have "js_split (js ''Host:'') (32 # h) = [32 # h]"
    by (subst js_split.simps) (simp add: js_def)
  moreover have "index_of (js ''Host:'') (js ''Host: '' @ h) = Some 0"
    by (simp add: js_def starts_with_def)
  ultimately have "js_split (js ''Host:'') (js ''Host: '' @ h) = [[], 32 # h]"
    by (subst js_split.simps) (simp add: js_def)
  moreover have "trim (32 # h) = h"
  proof -
    have "is_ws 32" by (simp add: is_ws_def)
    then have "trim (32 # h) = trim h" by (simp add: trim_def)
    then show ?thesis using assms by (simp add: host_value_def trim_trimmed)
  qed
  ultimately show "host_header (js ''Host: '' @ h) = h" by (simp add: host_header_def)
  have "js_includes (js ''Host: '' @ h) (js ''Host:'')" by (simp add: js_includes_def js_def starts_with_def)
  then show "has_host (js ''Host: '' @ h)" by (simp add: has_host_def)
qed

end
