(* ===== verification/Import_Result.thy ===== *)
theory Import_Result
  imports Server_Url Link_Round_Trip
begin

text \<open>
  The result of \<open>import_url\<close> on a link whose import function is a sequence of field
  writes, and the lift of a round trip from the import function to the whole page.
\<close>

section \<open>The scheme of a link\<close>

lemma index_of_first: "c \<notin> set s \<Longrightarrow> index_of (c # p) (s @ c # p @ r) = Some (length s)"
proof (induction s)
  case Nil
  have "starts_with (c # p) (c # p @ r)" by (simp add: starts_with_def)
  then show ?case by (simp del: append.simps) (simp add: starts_with_def)
next
  case (Cons d s)
  then have "\<not> starts_with (c # p) (d # s @ c # p @ r)" by (auto simp: starts_with_def)
  with Cons show ?case by simp
qed

lemma js_split_first:
  assumes "c \<notin> set s"
  shows "js_split (c # p) (s @ c # p @ r) = s # js_split (c # p) r"
  using index_of_first[OF assms, of p r] by (subst js_split.simps) simp

lemma js_split_scheme:
  assumes "58 \<notin> set sch"
  shows "js_split (js ''://'') (sch @ js ''://'' @ r) = sch # js_split (js ''://'') r"
  using js_split_first[OF assms, of "[47, 47]" r] by (simp add: js_def)

lemma scheme_split:
  assumes "link = sch @ js ''://'' @ r" "58 \<notin> set sch"
  shows "link \<noteq> []" "2 \<le> length (js_split (js ''://'') link)" "hd (js_split (js ''://'') link) = sch"
    "js_split (js ''://'') link ! 1 = hd (js_split (js ''://'') r)"
  using js_split_nonempty[of "js ''://''" r] unfolding assms(1) js_split_scheme[OF assms(2)]
  by (cases "js_split (js ''://'') r"; simp)+

lemma scheme_lower:
  "to_lower (js ''ss'') = js ''ss''" "to_lower (js ''ssr'') = js ''ssr''" "to_lower (js ''vmess'') = js ''vmess''"
  "to_lower (js ''vless'') = js ''vless''" "to_lower (js ''trojan'') = js ''trojan''"
  "to_lower (js ''hysteria'') = js ''hysteria''" "to_lower (js ''hysteria2'') = js ''hysteria2''"
  "to_lower (js ''tuic'') = js ''tuic''" "to_lower (js ''socks5'') = js ''socks5''" "to_lower (js ''http'') = js ''http''"
  "to_lower (js ''https'') = js ''https''" "to_lower (js ''anytls'') = js ''anytls''" "to_lower (js ''mierus'') = js ''mierus''"
  by (simp_all add: js_def to_lower_def lower_cu_def)

lemma scheme_no_colon:
  "58 \<notin> set (js ''ss'')" "58 \<notin> set (js ''ssr'')" "58 \<notin> set (js ''vmess'')" "58 \<notin> set (js ''vless'')"
  "58 \<notin> set (js ''trojan'')" "58 \<notin> set (js ''hysteria'')" "58 \<notin> set (js ''hysteria2'')" "58 \<notin> set (js ''tuic'')"
  "58 \<notin> set (js ''socks5'')" "58 \<notin> set (js ''http'')" "58 \<notin> set (js ''https'')" "58 \<notin> set (js ''anytls'')"
  "58 \<notin> set (js ''mierus'')"
  by (simp_all add: js_def)

lemma import_stmt_simps:
  "hd ssu = js ''ss'' \<Longrightarrow> import_stmt ns nu ssu link = Some (parseSS (ssu ! 1))"
  "hd ssu = js ''ssr'' \<Longrightarrow> import_stmt ns nu ssu link = Some (parseSSR (ssu ! 1))"
  "hd ssu = js ''vmess'' \<Longrightarrow> import_stmt ns nu ssu link = Some (parseVmess ns nu (ssu ! 1))"
  "hd ssu = js ''vless'' \<Longrightarrow> import_stmt ns nu ssu link = Some (parseVless nu link)"
  "hd ssu = js ''trojan'' \<Longrightarrow> import_stmt ns nu ssu link = Some (parseTrojan nu link)"
  "hd ssu = js ''hysteria'' \<Longrightarrow> import_stmt ns nu ssu link = Some (parseHysteria nu link)"
  "hd ssu = js ''hysteria2'' \<Longrightarrow> import_stmt ns nu ssu link = Some (parseHysteria2 nu link)"
  "hd ssu = js ''tuic'' \<Longrightarrow> import_stmt ns nu ssu link = Some (parseTuic nu link)"
  "hd ssu = js ''socks5'' \<Longrightarrow> import_stmt ns nu ssu link = Some (parseSocks nu link)"
  "hd ssu = js ''http'' \<Longrightarrow> import_stmt ns nu ssu link = Some (parseHttp nu link)"
  "hd ssu = js ''https'' \<Longrightarrow> import_stmt ns nu ssu link = Some (parseHttp nu link)"
  "hd ssu = js ''anytls'' \<Longrightarrow> import_stmt ns nu ssu link = Some (parseAnyTLS nu link)"
  "hd ssu = js ''mierus'' \<Longrightarrow> import_stmt ns nu ssu link = Some (parseMieru nu link)"
  by (simp_all add: import_stmt_def scheme_lower)

section \<open>The page after an import\<close>

definition import_ok :: "string \<times> jstr" where
  "import_ok = (''oc-status-ok'', js ''<%:Import configuration information successfully%>'')"

text \<open>The value of a field of \<open>tgt\<close> after an import that last wrote \<open>w\<close> to it.\<close>

definition form_after :: "page \<Rightarrow> string \<Rightarrow> jstr option \<Rightarrow> jstr" where
  "form_after tgt f w = (case w of Some v \<Rightarrow> kept_text tgt f v | None \<Rightarrow> getFormValue tgt f)"

text \<open>And its tick, when it is a checkbox.\<close>

definition ticked_after :: "page \<Rightarrow> string \<Rightarrow> jstr option \<Rightarrow> bool" where
  "ticked_after tgt f w =
     (case w of Some v \<Rightarrow> if is_checkbox tgt f then checked_word v else ticked tgt f | None \<Rightarrow> ticked tgt f)"

definition imported :: "page \<Rightarrow> page \<Rightarrow> (string \<Rightarrow> jstr option) \<Rightarrow> bool" where
  "imported tgt new w \<longleftrightarrow> status new = Some import_ok \<and> importing new = None \<and> text_page new \<and>
     (\<forall>f. f \<noteq> ''other_parameters'' \<longrightarrow> getFormValue new f = form_after tgt f (w f) \<and> ticked new f = ticked_after tgt f (w f))"

lemma text_page_set_status [simp]: "text_page (set_status c m pg) = text_page pg"
  "getFormValue (set_status c m pg) f = getFormValue pg f" "kept_text (set_status c m pg) = kept_text pg"
  "ticked (set_status c m pg) = ticked pg" "is_checkbox (set_status c m pg) = is_checkbox pg"
  by (simp_all add: set_status_def fun_eq_iff ticked_def is_checkbox_def)

lemma text_page_end [simp]: "text_page (endImportOtherParameters pg) = text_page pg"
  "getFormValue (endImportOtherParameters pg) f = getFormValue pg f"
  "status (endImportOtherParameters pg) = status pg" "importing (endImportOtherParameters pg) = None"
  "ticked (endImportOtherParameters pg) = ticked pg"
  by (simp_all add: endImportOtherParameters_def fun_eq_iff ticked_def)

lemma begin_page:
  assumes "text_page pg"
  shows "text_page (beginImportOtherParameters pg)" "kept_text (beginImportOtherParameters pg) = kept_text pg"
    "f \<noteq> ''other_parameters'' \<Longrightarrow> getFormValue (beginImportOtherParameters pg) f = getFormValue pg f"
    "is_checkbox (beginImportOtherParameters pg) = is_checkbox pg"
    "f \<noteq> ''other_parameters'' \<Longrightarrow> ticked (beginImportOtherParameters pg) f = ticked pg f"
proof -
  have i: "ticked (p\<lparr>importing := x\<rparr>) = ticked p" "is_checkbox (p\<lparr>importing := x\<rparr>) = is_checkbox p" for p x
    by (simp_all add: fun_eq_iff ticked_def is_checkbox_def)
  show "text_page (beginImportOtherParameters pg)" "kept_text (beginImportOtherParameters pg) = kept_text pg"
    "f \<noteq> ''other_parameters'' \<Longrightarrow> getFormValue (beginImportOtherParameters pg) f = getFormValue pg f"
    "is_checkbox (beginImportOtherParameters pg) = is_checkbox pg"
    "f \<noteq> ''other_parameters'' \<Longrightarrow> ticked (beginImportOtherParameters pg) f = ticked pg f"
    using assms
    by (simp_all add: beginImportOtherParameters_def Let_def text_form.ok_put text_form.kept_put text_form.get_put ticked_put i)
qed

lemma import_written:
  assumes tgt: "text_page tgt" "status tgt \<noteq> None"
    and link: "link \<noteq> []" "2 \<le> length (js_split (js ''://'') link)"
    and stmt: "import_stmt ns nu (js_split (js ''://'') link) link = Some s" "finishes s kvs"
  shows "imported tgt (import_url ns nu (Some link) tgt) (last_write kvs)"
proof -
  let ?pg1 = "beginImportOtherParameters (set_status '''' [] tgt)"
  have new: "import_url ns nu (Some link) tgt =
      endImportOtherParameters (set_status (fst import_ok) (snd import_ok) (puts kvs ?pg1))"
    using assms by (cases "status tgt") (simp_all add: import_url_def Let_def finishes_def import_done_def import_ok_def)
  have t: "text_page ?pg1" using tgt(1) by (simp add: begin_page)
  have "getFormValue (puts kvs ?pg1) f = form_after tgt f (last_write kvs f)" if "f \<noteq> ''other_parameters''" for f
    using that tgt(1) get_last_write[OF t, of kvs f]
    by (simp add: begin_page form_after_def split: option.split)
  moreover have "ticked (puts kvs ?pg1) f = ticked_after tgt f (last_write kvs f)" if "f \<noteq> ''other_parameters''" for f
    using that tgt(1) ticked_last_write(2)[OF t, of kvs f]
    by (simp add: begin_page ticked_after_def split: option.split)
  ultimately show ?thesis using t by (simp add: imported_def new puts_page)
qed

text \<open>From the import function to the page.\<close>

lemma lift_round_trip:
  assumes trip: "\<exists>link kvs. e = Some (Some link) \<and> finishes (P link) kvs \<and> Q (last_write kvs)"
    and shape: "\<And>link. e = Some (Some link) \<Longrightarrow> \<exists>r. link = sch @ js ''://'' @ r"
    and sch: "58 \<notin> set sch" "\<And>ssu link. hd ssu = sch \<Longrightarrow> import_stmt ns nu ssu link = Some (P link)"
    and tgt: "text_page tgt" "status tgt \<noteq> None"
  shows "\<exists>link w. e = Some (Some link) \<and> Q w \<and> imported tgt (import_url ns nu (Some link) tgt) w"
proof -
  obtain link kvs where l: "e = Some (Some link)" "finishes (P link) kvs" "Q (last_write kvs)"
    using trip by blast
  obtain r where r: "link = sch @ js ''://'' @ r" using shape[OF l(1)] by blast
  have "imported tgt (import_url ns nu (Some link) tgt) (last_write kvs)"
    using scheme_split[OF r sch(1)] sch(2) l(2) by (intro import_written[OF tgt]) simp_all
  with l show ?thesis by blast
qed

end
