(* ===== verification/Round_Trip_Hysteria.thy ===== *)
theory Round_Trip_Hysteria
  imports Link_Round_Trip
begin

text \<open>Hysteria and Hysteria 2: importing the exported link (export 1136-1335, import 2353-2583).\<close>

section \<open>Hysteria 2\<close>

definition hysteria2_fields :: "string list" where
  "hysteria2_fields =
     [''server'', ''port'', ''password'', ''hysteria_obfs'', ''obfs_password'', ''hysteria_up'', ''hysteria_down'', ''sni'',
      ''alpn'', ''fingerprint'', ''ports'', ''hop_interval'', ''initial_stream_receive_window'',
      ''max_stream_receive_window'', ''initial_connection_receive_window'', ''max_connection_receive_window'', ''name'']"

lemma hysteria2_export_import:
  assumes ex: "exportable pg hysteria2_fields" and port: "plain_port (getFormValue pg ''port'')"
  defines "g \<equiv> getFormValue pg"
  shows "\<exists>link kvs. exportHysteria2 pg = Some (Some link) \<and> finishes (parseHysteria2 nu link) kvs \<and>
    ((\<forall>f\<in>set hysteria2_fields. last_write kvs f = carried (g f)) \<and>
     last_write kvs ''type'' = Some (js ''hysteria2'') \<and>
     last_write kvs ''skip_cert_verify'' = (if is_true (g ''skip_cert_verify'') then Some (js ''true'') else None) \<and>
     last_write kvs ''flag_port_hopping'' =
       (if truthy (g ''ports'') \<or> truthy (g ''hop_interval'') then Some (js ''1'') else None))"
proof -
  note wfs = ex[unfolded exportable_def hysteria2_fields_def g_def[symmetric], simplified]
  note port = port[folded g_def]
  let ?ui = "if truthy (g ''password'') then Some (enc (g ''password''), None) else None"
  show ?thesis unfolding parseHysteria2_def
  proof (rule link_round_trip[where es = "hysteria2_query pg" and pg = pg and name = "g ''name''" and sch = "js ''hysteria2''"
        and h = "g ''server''" and port = "Some (g ''port'')" and ui = ?ui and path = "[]"
        and km = "[(''fingerprint'', ''pinSHA256'')]"], goal_cases)
    case 1
    show ?case using wfs unfolding good_entries_def hysteria2_query_def g_def[symmetric] Let_def
      by (simp add: keys_of_def ascii_key_def)
  next
    case (10 t)
    then show ?case using port wfs
      by (simp add: exportHysteria2_def Let_def g_def[symmetric] plain_port_facts show_simps)
  next
    case (11 t q)
    note qs = 11[unfolded holds_query_def hysteria2_query_def Let_def g_def[symmetric], simplified]
    show ?case
      apply (rule exI, rule conjI)
       apply (unfold hysteria2_body_def Let_def)
       apply ((rule assigns_intros collect_held[OF 11])+)[1]
       apply (simp add: keys_of_def hysteria2_query_def Let_def)
      apply (simp only: hysteria2_fields_def list.set ball_simps)
      apply (intro conjI)
      apply (simp_all only: write_simps list.distinct)
      apply (simp_all add: qs link_simps wfs port)
      done
  qed (use wfs port scheme_words in \<open>auto simp: g_def[symmetric] plain_port_facts atom_enc js_def split: if_splits\<close>)
qed

section \<open>Hysteria\<close>

definition hysteria_fields :: "string list" where
  "hysteria_fields =
     [''server'', ''port'', ''hysteria_auth_str'', ''hysteria_obfs'', ''sni'', ''alpn'', ''ports'', ''hop_interval'',
      ''recv_window_conn'', ''recv_window'', ''fingerprint'', ''name'', ''hysteria_up'', ''hysteria_down'']"

text \<open>
  The speeds survive when they are numbers, because the import drops everything but digits; the
  protocol survives when it needs no escape, because the import does not decode it.
\<close>

definition hysteria_extra :: "page \<Rightarrow> bool" where
  "hysteria_extra pg \<longleftrightarrow>
     list_all is_digit (getFormValue pg ''hysteria_up'') \<and> list_all is_digit (getFormValue pg ''hysteria_down'') \<and>
     well_formed (getFormValue pg ''hysteria_protocol'') \<and> list_all unreserved (getFormValue pg ''hysteria_protocol'')"

lemma digits_only_id: "list_all is_digit s \<Longrightarrow> digits_only s = s"
  by (simp add: digits_only_def filter_id_conv list_all_iff)

lemma hysteria_export_import:
  assumes ex: "exportable pg hysteria_fields" and port: "plain_port (getFormValue pg ''port'')"
    and extra: "hysteria_extra pg"
  defines "g \<equiv> getFormValue pg"
  shows "\<exists>link kvs. exportHysteria pg = Some (Some link) \<and> finishes (parseHysteria nu link) kvs \<and>
    ((\<forall>f\<in>set hysteria_fields. last_write kvs f = carried (g f)) \<and>
     last_write kvs ''type'' = Some (js ''hysteria'') \<and>
     last_write kvs ''hysteria_protocol'' = carried (g ''hysteria_protocol'') \<and>
     last_write kvs ''skip_cert_verify'' = (if is_true (g ''skip_cert_verify'') then Some (js ''true'') else None) \<and>
     last_write kvs ''disable_mtu_discovery'' = (if is_true (g ''disable_mtu_discovery'') then Some (js ''true'') else None) \<and>
     last_write kvs ''fast_open'' = (if is_true (g ''fast_open'') then Some (js ''true'') else None))"
proof -
  note wfs = ex[unfolded exportable_def hysteria_fields_def g_def[symmetric], simplified]
  note port = port[folded g_def]
  have enc_proto: "enc (g ''hysteria_protocol'') = g ''hysteria_protocol''"
    and proto: "well_formed (g ''hysteria_protocol'')"
    and digs: "digits_only (g ''hysteria_up'') = g ''hysteria_up''" "digits_only (g ''hysteria_down'') = g ''hysteria_down''"
    using extra by (simp_all add: hysteria_extra_def enc_plain g_def digits_only_id)
  show ?thesis unfolding parseHysteria_def
  proof (rule link_round_trip[where es = "hysteria_query pg" and pg = pg and name = "g ''name''" and sch = "js ''hysteria''"
        and h = "g ''server''" and port = "Some (g ''port'')" and ui = None and path = "[]"
        and km = "[(''sni'', ''peer''), (''auth-str'', ''auth''), (''obfs-param'', ''obfsParam'')]"], goal_cases)
    case 1
    show ?case using wfs proto unfolding good_entries_def hysteria_query_def g_def[symmetric] Let_def
      by (simp add: keys_of_def ascii_key_def)
  next
    case (10 t)
    then show ?case using port wfs
      by (simp add: exportHysteria_def Let_def g_def[symmetric] plain_port_facts show_simps)
  next
    case (11 t q)
    note qs = 11[unfolded holds_query_def hysteria_query_def Let_def g_def[symmetric], simplified]
    have absent: "getq q ''obfsParam'' = []" "getq q ''sni'' = []" "getq q ''upmbps'' = []" "getq q ''downmbps'' = []"
      by (rule getq_other[OF 11], simp add: keys_of_def hysteria_query_def Let_def)+
    show ?case
      apply (rule exI, rule conjI)
       apply (unfold hysteria_body_def Let_def)
       apply ((rule assigns_intros collect_held[OF 11])+)[1]
       apply (simp add: keys_of_def hysteria_query_def Let_def)
      apply (simp only: hysteria_fields_def list.set ball_simps)
      apply (intro conjI)
      apply (simp_all only: write_simps list.distinct)
      apply (simp_all add: qs absent link_simps wfs port enc_proto proto digs)
      done
  qed (use wfs port scheme_words in \<open>auto simp: g_def[symmetric] plain_port_facts atom_enc js_def split: if_splits\<close>)
qed

end
