(* ===== verification/Round_Trip_Proxy.thy ===== *)
theory Round_Trip_Proxy
  imports Link_Round_Trip
begin

text \<open>
  TUIC, SOCKS, HTTP, AnyTLS and Mieru: importing the exported link (export 1337-1629, import
  2585-2851).
\<close>

section \<open>TUIC\<close>

definition tuic_fields :: "string list" where
  "tuic_fields =
     [''congestion_controller'', ''alpn'', ''sni'', ''udp_relay_mode'', ''heartbeat_interval'', ''request_timeout'',
      ''max_udp_relay_packet_size'', ''max_open_streams'', ''server'', ''port'', ''name'']"

text \<open>The credentials: user and password (version 5) or a token (version 4).\<close>

definition tuic_auth :: "page \<Rightarrow> bool" where
  "tuic_auth pg \<longleftrightarrow>
     (let g = getFormValue pg in well_formed (g ''uuid'') \<and> well_formed (g ''password'') \<and> well_formed (g ''token'')
      \<and> g ''fast_open'' \<in> set [[], js ''true'', js ''false''] \<and> g ''skip_cert_verify'' \<in> set [[], js ''true'', js ''false''])"

lemma true_false_word: "v = [] \<or> v = js ''true'' \<or> v = js ''false'' \<Longrightarrow> truthy v \<Longrightarrow> true_false v = v"
  by (auto simp: true_false_def one_or_true_def)

lemma enc_words [simp]: "enc (js ''true'') = js ''true''" "enc (js ''false'') = js ''false''"
  by (rule enc_plain, simp, simp add: js_def unreserved_def alnum_def)+

lemma tuic_export_import:
  assumes ex: "exportable pg tuic_fields" and port: "plain_port (getFormValue pg ''port'')" and auth: "tuic_auth pg"
  defines "g \<equiv> getFormValue pg"
  shows "\<exists>link kvs. exportTuic pg = Some (Some link) \<and> finishes (parseTuic nu link) kvs \<and>
    ((\<forall>f\<in>set tuic_fields. last_write kvs f = carried (g f)) \<and>
     last_write kvs ''type'' = Some (js ''tuic'') \<and>
     last_write kvs ''fast_open'' = carried (g ''fast_open'') \<and>
     last_write kvs ''skip_cert_verify'' = carried (g ''skip_cert_verify'') \<and>
     last_write kvs ''disable_sni'' = (if is_true (g ''disable_sni'') then Some (js ''true'') else None) \<and>
     last_write kvs ''reduce_rtt'' = (if is_true (g ''reduce_rtt'') then Some (js ''true'') else None) \<and>
     last_write kvs ''uuid'' = (if truthy (g ''password'') then Some (g ''uuid'') else None) \<and>
     last_write kvs ''password'' = carried (g ''password'') \<and>
     last_write kvs ''token'' = (if truthy (g ''password'') then None else Some (g ''token'')))"
proof -
  note wfs = ex[unfolded exportable_def tuic_fields_def g_def[symmetric], simplified]
  note port = port[folded g_def]
  note auth = auth[unfolded tuic_auth_def Let_def g_def[symmetric], simplified]
  let ?ui = "if truthy (g ''password'') then Some (enc (g ''uuid''), Some (enc (g ''password'')))
             else if truthy (g ''token'') then Some (enc (g ''token''), None) else None"
  have words: "well_formed (g ''fast_open'')" "well_formed (g ''skip_cert_verify'')"
    using auth by auto
  have same: "truthy (g ''fast_open'') \<Longrightarrow> true_false (enc (g ''fast_open'')) = g ''fast_open''"
    "truthy (g ''skip_cert_verify'') \<Longrightarrow> true_false (enc (g ''skip_cert_verify'')) = g ''skip_cert_verify''"
    using auth by (auto simp: true_false_word)
  have es: "good_entries (tuic_query pg)"
    using wfs words unfolding good_entries_def tuic_query_def g_def[symmetric] Let_def
    by (simp add: keys_of_def ascii_key_def)
  show ?thesis unfolding parseTuic_def
  proof (rule link_round_trip[where es = "tuic_query pg" and pg = pg and name = "g ''name''" and sch = "js ''tuic''"
        and h = "g ''server''" and port = "Some (g ''port'')" and ui = ?ui and path = "[]"
        and km = "[(''congestion-controller'', ''congestion_control''), (''disable-sni'', ''disable_sni''),
           (''udp-relay-mode'', ''udp_relay_mode''), (''reduce-rtt'', ''reduce_rtt'')]"], goal_cases)
    case 1
    show ?case by (rule es)
  next
    case (10 t)
    then show ?case using port wfs auth
      by (simp add: exportTuic_def tuic_userinfo_def Let_def g_def[symmetric] plain_port_facts show_simps)
  next
    case (11 t q)
    note qs = 11[unfolded holds_query_def tuic_query_def Let_def g_def[symmetric], simplified]
    have absent: "getq q ''congestion-controller'' = []"
      by (rule getq_other[OF 11], simp add: keys_of_def tuic_query_def Let_def)
    show ?case
      apply (rule exI, rule conjI)
       apply (unfold tuic_body_def Let_def)
       apply ((rule assigns_intros collect_held[OF 11] held_decodes[OF 11 es])+)[1]
       apply (simp add: keys_of_def tuic_query_def Let_def)
      apply (simp only: tuic_fields_def list.set ball_simps)
      apply (intro conjI)
      apply (simp_all only: write_simps list.distinct)
      apply (simp_all add: qs absent link_simps wfs port words same auth)
      apply (simp add: truthy_def)
      done
  qed (use wfs port auth scheme_words in \<open>auto simp: g_def[symmetric] plain_port_facts atom_enc js_def split: if_splits\<close>)
qed

section \<open>SOCKS and HTTP\<close>

lemma assigns_user_pass [assigns_intros]:
  "assigns (user_pass u)
     (if truthy (u_username u)
      then [(''username'', decodeURIComponentSafe (u_username u))] @
        (if truthy (u_password u) then [(''password'', decodeURIComponentSafe (u_password u))] else []) @ []
      else [])"
  unfolding user_pass_def by (intro assigns_intros)

lemma assigns_name_or_address [assigns_intros]:
  "assigns (name_or_address u)
     (if truthy (u_hash u) then [(''name'', decodeFragment (drop 1 (u_hash u)))]
      else [(''name'', u_hostname u @ js '':'' @ u_port u)])"
  unfolding name_or_address_def by (intro assigns_intros)

definition proxy_fields :: "string list" where
  "proxy_fields = [''server'', ''port'', ''username'', ''password'', ''name'']"

text \<open>Without a query the link ends after the port, or with the name.\<close>

lemma no_query_link:
  assumes "sch \<noteq> []" "\<forall>c\<in>set sch. word_cu c" "atom h" "atom p"
    and "\<And>u p. ui = Some (u, p) \<Longrightarrow> atom u \<and> (\<forall>q. p = Some q \<longrightarrow> atom q)" and name: "well_formed name"
  shows "with_url nu (show_link sch ui h (Some p) [] [] (name_frag name)) body pg =
    seq (body (link_url sch ui h (Some p) [] [] (name_frag name)) []) pg"
proof -
  have "parseUrl nu (show_link sch ui h (Some p) [] [] (name_frag name)) =
      Some (link_url sch ui h (Some p) [] [] (name_frag name))"
    unfolding show_link_def link_url_def
    by (rule parseUrl_print) (use assms name_part_parts(2,3)[OF name name_frag_def] in auto)
  then show ?thesis by (simp add: with_url_def bind_try_def link_url_def parseQuery_def)
qed

lemma plain_round_trip:
  assumes "sch \<noteq> []" "\<forall>c\<in>set sch. word_cu c" "atom h" "atom p"
    and "\<And>u p. ui = Some (u, p) \<Longrightarrow> atom u \<and> (\<forall>q. p = Some q \<longrightarrow> atom q)" and "well_formed name"
    and export: "e = Some (Some (show_link sch ui h (Some p) [] [] (name_frag name)))"
    and body: "\<exists>kvs. finishes (seq (body (link_url sch ui h (Some p) [] [] (name_frag name)) [])) kvs \<and> P kvs"
  shows "\<exists>link kvs. e = Some (Some link) \<and> finishes (with_url nu link body) kvs \<and> P kvs"
proof -
  have "finishes (with_url nu (show_link sch ui h (Some p) [] [] (name_frag name)) body) kvs \<longleftrightarrow>
      finishes (seq (body (link_url sch ui h (Some p) [] [] (name_frag name)) [])) kvs" for kvs
    unfolding finishes_def using no_query_link[OF assms(1-6)] by simp
  with export body show ?thesis by blast
qed

lemma no_unknown: "collectUnknownQueryParams [] known = Some []"
  by (simp add: collectUnknownQueryParams_def collect_entries_def own_entries_def)

definition pair_ui :: "jstr \<Rightarrow> jstr \<Rightarrow> (jstr \<times> jstr option) option" where
  "pair_ui u p = (if truthy u \<and> truthy p then Some (enc u, Some (enc p)) else None)"

lemma pair_userinfo_show:
  "well_formed u \<Longrightarrow> well_formed p \<Longrightarrow> pair_userinfo u p = Some (show_userinfo (pair_ui u p))"
  by (simp add: pair_userinfo_def pair_ui_def enc_Some show_userinfo_def js_def)

lemma pair_ui_atoms:
  "well_formed u \<Longrightarrow> well_formed p \<Longrightarrow> pair_ui u p = Some (a, b) \<Longrightarrow> atom a \<and> (\<forall>q. b = Some q \<longrightarrow> atom q)"
  by (auto simp: pair_ui_def atom_enc split: if_splits)

lemma empty_print_query:
  "parseOtherParameters (getFormValue pg ''other_parameters'') = [] \<Longrightarrow> print_query pg [] [] = Some []"
  by (simp add: print_query_def mergeOtherParametersToQuery_def merge_entries_def own_entries_def query_of_def
      queryMapToString_def)

text \<open>
  User and password travel only together; without a name the import invents one from the address.
\<close>

lemma socks_export_import:
  assumes ex: "exportable pg proxy_fields" and port: "plain_port (getFormValue pg ''port'')"
  defines "g \<equiv> getFormValue pg"
  shows "\<exists>link kvs. exportSocks pg = Some (Some link) \<and> finishes (parseSocks nu link) kvs \<and>
    (last_write kvs ''type'' = Some (js ''socks5'') \<and> last_write kvs ''server'' = Some (g ''server'') \<and>
     last_write kvs ''port'' = Some (g ''port'') \<and>
     last_write kvs ''username'' = (if truthy (g ''password'') then carried (g ''username'') else None) \<and>
     last_write kvs ''password'' = (if truthy (g ''username'') then carried (g ''password'') else None) \<and>
     last_write kvs ''name'' =
       Some (if truthy (g ''name'') then g ''name'' else g ''server'' @ js '':'' @ g ''port''))"
proof -
  note wfs = ex[unfolded exportable_def proxy_fields_def g_def[symmetric], simplified]
  note port = port[folded g_def]
  let ?ui = "pair_ui (g ''username'') (g ''password'')"
  show ?thesis unfolding parseSocks_def
  proof (rule plain_round_trip[where sch = "js ''socks5''" and h = "g ''server''" and p = "g ''port''" and ui = ?ui
        and name = "g ''name''"], goal_cases)
    case 7
    show ?case
      using wfs port empty_print_query[of pg] name_part_parts(1)[of "g ''name''"]
      by (simp add: exportSocks_def Let_def g_def[symmetric] plain_port_facts pair_userinfo_show query_part_def
          name_frag_def show_link_def show_authority_def show_port_def js_def)
  next
    case 8
    show ?case
      apply (rule exI, rule conjI)
       apply (unfold socks_body_def)
       apply ((rule assigns_intros no_unknown)+)[1]
      apply (intro conjI)
      apply (simp_all only: write_simps list.distinct)
      apply (simp_all add: link_simps wfs port pair_ui_def)
      done
  qed (use wfs port pair_ui_atoms scheme_words in \<open>auto simp: plain_port_facts js_def\<close>)
qed

text \<open>HTTP carries TLS in the scheme.\<close>

lemma http_export_import:
  assumes ex: "exportable pg proxy_fields" and port: "plain_port (getFormValue pg ''port'')"
  defines "g \<equiv> getFormValue pg"
  shows "\<exists>link kvs. exportHttp pg = Some (Some link) \<and> finishes (parseHttp nu link) kvs \<and>
    (last_write kvs ''type'' = Some (js ''http'') \<and> last_write kvs ''server'' = Some (g ''server'') \<and>
     last_write kvs ''port'' = Some (g ''port'') \<and>
     last_write kvs ''tls'' = (if is_true (g ''tls'') then Some (js ''true'') else None) \<and>
     last_write kvs ''username'' = (if truthy (g ''password'') then carried (g ''username'') else None) \<and>
     last_write kvs ''password'' = (if truthy (g ''username'') then carried (g ''password'') else None) \<and>
     last_write kvs ''name'' =
       Some (if truthy (g ''name'') then g ''name'' else g ''server'' @ js '':'' @ g ''port''))"
proof -
  note wfs = ex[unfolded exportable_def proxy_fields_def g_def[symmetric], simplified]
  note port = port[folded g_def]
  let ?ui = "pair_ui (g ''username'') (g ''password'')"
  let ?sch = "if is_true (g ''tls'') then js ''https'' else js ''http''"
  have https: "?sch @ js '':'' = js ''https:'' \<longleftrightarrow> is_true (g ''tls'')" by (simp add: js_def)
  show ?thesis unfolding parseHttp_def
  proof (rule plain_round_trip[where sch = ?sch and h = "g ''server''" and p = "g ''port''" and ui = ?ui
        and name = "g ''name''"], goal_cases)
    case 7
    show ?case
      using wfs port empty_print_query[of pg] name_part_parts(1)[of "g ''name''"]
      by (simp add: exportHttp_def Let_def g_def[symmetric] plain_port_facts pair_userinfo_show query_part_def
          name_frag_def show_link_def show_authority_def show_port_def js_def)
  next
    case 8
    show ?case
      apply (rule exI, rule conjI)
       apply (unfold http_body_def Let_def)
       apply ((rule assigns_intros no_unknown)+)[1]
      apply (intro conjI)
      apply (simp_all only: write_simps list.distinct)
      apply (simp_all add: link_simps wfs port pair_ui_def https[unfolded js_append])
      done
  qed (use wfs port pair_ui_atoms scheme_words in \<open>auto simp: plain_port_facts js_def\<close>)
qed

section \<open>AnyTLS\<close>

definition anytls_fields :: "string list" where
  "anytls_fields =
     [''sni'', ''alpn'', ''client_fingerprint'', ''idle_session_check_interval'', ''idle_session_timeout'',
      ''min_idle_session'']"

definition anytls_extra :: "page \<Rightarrow> bool" where
  "anytls_extra pg \<longleftrightarrow>
     (let g = getFormValue pg in well_formed (g ''server'') \<and> well_formed (g ''name'')
      \<and> g ''udp'' \<in> set [[], js ''true'', js ''false''])"

text \<open>
  Without a user name among the free parameters the link carries no credentials at all, so the
  import empties the password.
\<close>

lemma anytls_export_import:
  assumes ex: "exportable pg anytls_fields" and port: "plain_port (getFormValue pg ''port'')" and extra: "anytls_extra pg"
  defines "g \<equiv> getFormValue pg"
  shows "\<exists>link kvs. exportAnyTLS pg = Some (Some link) \<and> finishes (parseAnyTLS nu link) kvs \<and>
    ((\<forall>f\<in>set anytls_fields. last_write kvs f = carried (g f)) \<and>
     last_write kvs ''type'' = Some (js ''anytls'') \<and>
     last_write kvs ''server'' = Some (g ''server'') \<and> last_write kvs ''port'' = Some (g ''port'') \<and>
     last_write kvs ''password'' = Some [] \<and>
     last_write kvs ''udp'' = carried (g ''udp'') \<and>
     last_write kvs ''skip_cert_verify'' = (if is_true (g ''skip_cert_verify'') then Some (js ''true'') else None) \<and>
     last_write kvs ''name'' =
       Some (if truthy (g ''name'') then g ''name'' else g ''server'' @ js '':'' @ g ''port''))"
proof -
  note wfs = ex[unfolded exportable_def anytls_fields_def g_def[symmetric], simplified]
  note port = port[folded g_def]
  note extra = extra[unfolded anytls_extra_def Let_def g_def[symmetric], simplified]
  have udp: "well_formed (g ''udp'')" "truthy (g ''udp'') \<Longrightarrow> true_false (enc (g ''udp'')) = g ''udp''"
    using extra by (auto simp: true_false_word)
  have es: "good_entries (anytls_query pg)"
    using wfs udp(1) unfolding good_entries_def anytls_query_def g_def[symmetric] Let_def
    by (simp add: keys_of_def ascii_key_def)
  have own: "callable_has_own ([] :: pvalue obj)" by (simp add: callable_has_own_def has_key_def)
  have remap: "remapParamKeys [] km = Some []" for km
    by (simp add: remapParamKeys_def own_entries_def)
  show ?thesis unfolding parseAnyTLS_def
  proof (rule link_round_trip[where es = "anytls_query pg" and pg = pg and name = "g ''name''" and sch = "js ''anytls''"
        and h = "g ''server''" and port = "Some (g ''port'')" and ui = None and path = "[]"
        and km = "[(''fingerprint'', ''hpkp'')]"], goal_cases)
    case 1
    show ?case by (rule es)
  next
    case (10 t)
    then show ?case using port wfs own
      by (simp add: exportAnyTLS_def Let_def g_def[symmetric] plain_port_facts show_simps anytls_userinfo_def other_username_def)
  next
    case (11 t q)
    note qs = 11[unfolded holds_query_def anytls_query_def Let_def g_def[symmetric], simplified]
    have absent: "getq q ''fp'' = []"
      by (rule getq_other[OF 11], simp add: keys_of_def anytls_query_def Let_def)
    have collect: "collectUnknownQueryParams q
        [''sni'', ''insecure'', ''alpn'', ''client-fingerprint'', ''fp'', ''udp'', ''idle-session-check-interval'',
         ''idle-session-timeout'', ''min-idle-session''] = Some []"
      by (rule collect_held[OF 11]) (simp add: keys_of_def anytls_query_def Let_def)
    show ?case
      apply (rule exI, rule conjI)
       apply (unfold anytls_body_def Let_def)
       apply ((rule assigns_intros)+)[1]
       apply (simp add: collect remap link_url_def)
      apply (simp only: anytls_fields_def list.set ball_simps)
      apply (intro conjI)
      apply (simp_all only: write_simps list.distinct)
      apply (simp_all add: qs absent link_simps wfs port udp extra)
      done
  qed (use wfs port extra scheme_words in \<open>auto simp: g_def[symmetric] plain_port_facts js_def\<close>)
qed

section \<open>Mieru\<close>

definition mieru_fields :: "string list" where
  "mieru_fields = [''username'', ''password'', ''multiplexing'', ''name'']"

text \<open>A single port, or a normalised list of ports and ranges.\<close>

definition mieru_ports :: "page \<Rightarrow> bool" where
  "mieru_ports pg \<longleftrightarrow>
     (let g = getFormValue pg; r = g ''port_range''; items = list_items_of r
      in well_formed (g ''server'') \<and> well_formed (g ''transport'') \<and> 44 \<notin> set (g ''transport'') \<and> well_formed r \<and>
         truthy (g ''username'') \<and> truthy (g ''password'') \<and>
         (if truthy r then js_split (js '','') r = items \<and> (1 < length items \<or> js_includes r (js ''-''))
          else plain_port (g ''port'') \<and> well_formed (g ''port'')))"

lemma plain_port_csv:
  assumes "plain_port p"
  shows "js_split [44] p = [p]" "\<not> js_includes p (js ''-'')"
proof -
  have d: "\<forall>c\<in>set p. 48 \<le> c \<and> c \<le> 57" using assms by (auto simp: plain_port_def list_all_iff is_digit_def)
  then have "44 \<notin> set p" "45 \<notin> set p" by auto
  then show "js_split [44] p = [p]" "\<not> js_includes p (js ''-'')"
    by (simp_all add: js_split_absent js_includes_def index_of_single js_def)
qed

lemma csv_of_enc: "well_formed v \<Longrightarrow> csv_of (enc v) = (if truthy v then js_split [44] v else [])"
  by (simp add: csv_of_def truthy_enc dec_enc)

lemma well_formed_words: "well_formed x \<Longrightarrow> well_formed (js_join [44] (map (\<lambda>_. x) ys))"
proof (induction ys)
  case (Cons y ys)
  have "well_formed [44]" by (simp add: well_formed_def is_low_def is_high_def)
  then have "well_formed (x @ [44] @ js_join [44] (map (\<lambda>_. x) ys))"
    using Cons by (intro well_formed_append) auto
  then show ?case using Cons.prems by (cases ys) simp_all
qed simp

lemma hd_split_words: "44 \<notin> set x \<Longrightarrow> ys \<noteq> [] \<Longrightarrow> js_split [44] (js_join [44] (map (\<lambda>_. x) ys)) = map (\<lambda>_. x) ys"
  by (rule js_split_join) auto

lemma mieru_export_import:
  assumes ex: "exportable pg mieru_fields" and ports: "mieru_ports pg"
  defines "g \<equiv> getFormValue pg"
  shows "\<exists>link kvs. exportMieru pg = Some (Some link) \<and> finishes (parseMieru nu link) kvs \<and>
    (last_write kvs ''type'' = Some (js ''mieru'') \<and> last_write kvs ''server'' = Some (g ''server'') \<and>
     last_write kvs ''username'' = Some (g ''username'') \<and> last_write kvs ''password'' = Some (g ''password'') \<and>
     last_write kvs ''port'' = (if truthy (g ''port_range'') then None else Some (g ''port'')) \<and>
     last_write kvs ''port_range'' = carried (g ''port_range'') \<and>
     last_write kvs ''transport'' = Some (or_else (g ''transport'') (js ''TCP'')) \<and>
     last_write kvs ''multiplexing'' = carried (g ''multiplexing'') \<and>
     last_write kvs ''name'' = carried (g ''name''))"
proof -
  note wfs = ex[unfolded exportable_def mieru_fields_def g_def[symmetric], simplified]
  note ports = ports[unfolded mieru_ports_def Let_def g_def[symmetric]]
  define r where "r = g ''port_range''"
  define tr where "tr = or_else (g ''transport'') (js ''TCP'')"
  define items where "items = list_items_of r"
  define pv where "pv = (if truthy r then r else g ''port'')"
  define tv where "tv = (if truthy r then js_join [44] (map (\<lambda>_. tr) items) else tr)"
  have split: "truthy r \<Longrightarrow> js_split [44] r = items" "truthy r \<Longrightarrow> items \<noteq> []"
    using ports js_split_nonempty[of "[44]" r] by (auto simp: r_def items_def)
  have join: "truthy r \<Longrightarrow> js_join [44] items = r" using split(1) js_join_split[of 44 r] by simp
  have query: "mieru_query pg = [(True, ''port'', pv), (True, ''protocol'', tv),
      (truthy (g ''multiplexing''), ''multiplexing'', g ''multiplexing'')]"
    using split join unfolding mieru_query_def g_def[symmetric] Let_def r_def[symmetric] items_def[symmetric] tr_def[symmetric]
    by (auto simp: pv_def tv_def)
  have tr: "well_formed tr" "truthy tr" "44 \<notin> set tr"
    using ports by (auto simp: tr_def or_else_def js_def well_formed_js[of "''TCP''", unfolded js_def, simplified] split: if_splits)
  have pv: "well_formed pv" "truthy pv" using ports plain_port_facts by (auto simp: pv_def r_def split: if_splits)
  have "js_join [44] (map (\<lambda>_. tr) items) \<noteq> []" if "truthy r"
    using split(2)[OF that] tr(2) by (cases items) (simp_all add: truthy_def)
  then have tv: "well_formed tv" "truthy tv"
    using tr by (simp_all add: tv_def well_formed_words) (simp add: truthy_def)
  have csv: "csv_of (enc pv) = (if truthy r then items else [g ''port''])"
    using pv split ports plain_port_csv by (auto simp: csv_of_enc pv_def r_def split: if_splits)
  have protos: "csv_of (enc tv) \<noteq> []" "hd (csv_of (enc tv)) = tr"
    using tv tr split by (auto simp: csv_of_enc tv_def js_split_absent hd_split_words hd_map js_split_nonempty)
  have single: "truthy r \<Longrightarrow> length items = 1 \<Longrightarrow> hd items = r \<and> js_includes r (js ''-'')"
    using join ports by (cases items) (auto simp: r_def items_def)
  have dash: "\<not> truthy r \<Longrightarrow> \<not> js_includes (g ''port'') (js ''-'')"
    using ports plain_port_csv(2) by (simp add: r_def)
  show ?thesis unfolding parseMieru_def
  proof (rule link_round_trip[where es = "mieru_query pg" and pg = pg and name = "g ''name''" and sch = "js ''mierus''"
        and h = "g ''server''" and port = None and ui = "Some (enc (g ''username''), Some (enc (g ''password'')))"
        and path = "[]" and km = "[]"], goal_cases)
    case 1
    show ?case using wfs pv tv unfolding good_entries_def query by (simp add: keys_of_def ascii_key_def)
  next
    case (10 t)
    have "\<not> (\<not> truthy (g ''port'') \<and> \<not> truthy r)" using pv(2) by (auto simp: pv_def)
    with 10 show ?case using wfs ports
      by (simp add: exportMieru_def Let_def g_def[symmetric] show_simps r_def)
  next
    case (11 t q)
    note qs = 11[unfolded holds_query_def query, simplified]
    show ?case
      apply (rule exI, rule conjI)
       apply (unfold mieru_body_def Let_def)
       apply ((rule assigns_intros collect_held[OF 11])+)[1]
       apply (simp add: keys_of_def query)
      apply (intro conjI)
      apply (simp_all only: write_simps list.distinct)
      apply (simp_all add: qs link_simps wfs ports[folded r_def] csv protos tr tr_def[symmetric] r_def[symmetric] split join)
      apply (use single dash join in auto)
      done
  qed (use wfs ports scheme_words in \<open>auto simp: g_def[symmetric] atom_enc js_def\<close>)
qed

end
