(* ===== verification/Round_Trip_Tls.thy ===== *)
theory Round_Trip_Tls
  imports Link_Round_Trip
begin

text \<open>
  Trojan and VLESS: importing the exported link (export 982-1134, import 2190-2351).
\<close>

text \<open>The \<open>Host:\<close> header field of a websocket transport, absent or in the form the import writes.\<close>

definition header_ok :: "jstr \<Rightarrow> bool" where
  "header_ok h \<longleftrightarrow> h = [] \<or> (take 6 h = js ''Host: '' \<and> host_value (drop 6 h))"

lemma header_cases:
  assumes "header_ok h"
  shows "has_host h \<longleftrightarrow> truthy h" "truthy h \<Longrightarrow> js ''Host: '' @ host_header h = h"
    "truthy h \<Longrightarrow> truthy (host_header h)" "truthy h \<Longrightarrow> well_formed (host_header h)"
proof -
  have "h = js ''Host: '' @ drop 6 h" if "truthy h"
    using assms that by (simp add: header_ok_def truthy_def) (metis append_take_drop_id)
  with host_header_show[of "drop 6 h"] assms
  have "truthy h \<Longrightarrow> has_host h \<and> host_header h = drop 6 h \<and> js ''Host: '' @ drop 6 h = h \<and> host_value (drop 6 h)"
    by (auto simp: header_ok_def truthy_def)
  then show "has_host h \<longleftrightarrow> truthy h" "truthy h \<Longrightarrow> js ''Host: '' @ host_header h = h"
    "truthy h \<Longrightarrow> truthy (host_header h)" "truthy h \<Longrightarrow> well_formed (host_header h)"
    by (auto simp: has_host_def host_value_def truthy_def)
qed

lemma enc_slash: "decodeURIComponent (js ''/'') = Some (decodeURIComponentSafe (js ''/''))"
  "decodeURIComponentSafe (js ''/'') = js ''/''"
  by (simp_all add: decodeURIComponentSafe_def decode_uri_id js_def)

lemma dec_or:
  "well_formed v \<Longrightarrow> decodeURIComponentSafe (or_else (if truthy v then enc v else []) d) =
    (if truthy v then v else decodeURIComponentSafe d)"
  by (auto simp: or_else_def truthy_enc dec_enc)

lemma enc_eq_Nil: "well_formed v \<Longrightarrow> enc v = [] \<longleftrightarrow> v = []"
  using truthy_enc[of v] by (simp add: truthy_def)

lemma lower_words [simp]:
  "to_lower (js ''ws'') = js ''ws''" "to_lower (js ''grpc'') = js ''grpc''" "to_lower (js ''tcp'') = js ''tcp''"
  "to_lower (js ''xhttp'') = js ''xhttp''"
  by (simp_all add: to_lower_def js_def lower_cu_def)

section \<open>Trojan\<close>

definition trojan_fields :: "string list" where
  "trojan_fields = [''server'', ''port'', ''password'', ''sni'', ''alpn'', ''fingerprint'', ''name'']"

definition transport_ok :: "page \<Rightarrow> bool" where
  "transport_ok pg \<longleftrightarrow>
     (let g = getFormValue pg in well_formed (g ''ws_path'') \<and> header_ok (g ''ws_headers'') \<and> well_formed (g ''grpc_service_name''))"

lemma trojan_export_import:
  assumes ex: "exportable pg trojan_fields" and port: "plain_port (getFormValue pg ''port'')"
    and password: "truthy (getFormValue pg ''password'')" and transport: "transport_ok pg"
  defines "g \<equiv> getFormValue pg"
  defines "ws \<equiv> g ''obfs_trojan'' = js ''ws''" and "grpc \<equiv> g ''obfs_trojan'' = js ''grpc''"
  shows "\<exists>link kvs. exportTrojan pg = Some (Some link) \<and> finishes (parseTrojan nu link) kvs \<and>
    ((\<forall>f\<in>set trojan_fields. last_write kvs f = carried (g f)) \<and>
     last_write kvs ''type'' = Some (js ''trojan'') \<and>
     last_write kvs ''skip_cert_verify'' = (if is_true (g ''skip_cert_verify'') then Some (js ''true'') else None) \<and>
     last_write kvs ''obfs_trojan'' = Some (if ws then js ''ws'' else if grpc then js ''grpc'' else js ''none'') \<and>
     last_write kvs ''ws_path'' = (if ws then Some (or_else (g ''ws_path'') (js ''/'')) else None) \<and>
     last_write kvs ''ws_headers'' = (if ws then carried (g ''ws_headers'') else None) \<and>
     last_write kvs ''grpc_service_name'' = (if grpc then Some (g ''grpc_service_name'') else None))"
proof -
  note wfs = ex[unfolded exportable_def trojan_fields_def g_def[symmetric], simplified]
  note port = port[folded g_def] and password = password[folded g_def]
  note transport = transport[unfolded transport_ok_def Let_def g_def[symmetric]]
  note header = header_cases[OF transport[THEN conjunct2, THEN conjunct1]]
  define network where "network = (if ws then js ''ws'' else if grpc then js ''grpc'' else [])"
  define hv where "hv = (if has_host (g ''ws_headers'') then host_header (g ''ws_headers'') else [])"
  have excl: "ws \<Longrightarrow> \<not> grpc" by (auto simp: ws_def grpc_def)
  have query: "trojan_query pg =
      [(truthy (g ''sni''), ''sni'', g ''sni''), (truthy (g ''alpn''), ''alpn'', g ''alpn''),
       (ws \<or> grpc, ''type'', if ws then js ''ws'' else js ''grpc''),
       (ws \<and> truthy (g ''ws_path''), ''path'', g ''ws_path''),
       (ws \<and> has_host (g ''ws_headers''), ''host'', host_header (g ''ws_headers'')),
       (grpc \<and> truthy (g ''grpc_service_name''), ''serviceName'', g ''grpc_service_name''),
       (is_true (g ''skip_cert_verify''), ''allowInsecure'', js ''1''),
       (truthy (g ''fingerprint''), ''pcs'', g ''fingerprint'')]"
    by (simp add: trojan_query_def Let_def g_def ws_def grpc_def)
  have es: "good_entries (trojan_query pg)"
    using wfs transport header unfolding good_entries_def query by (simp add: keys_of_def ascii_key_def)
  show ?thesis unfolding parseTrojan_def
  proof (rule link_round_trip[where es = "trojan_query pg" and pg = pg and name = "g ''name''" and sch = "js ''trojan''"
        and h = "g ''server''" and port = "Some (g ''port'')" and ui = "Some (enc (g ''password''), None)" and path = "js ''/''"
        and km = "[(''client-fingerprint'', ''fp''), (''grpc-service-name'', ''serviceName'')]"], goal_cases)
    case 1
    show ?case by (rule es)
  next
    case (10 t)
    then show ?case using port wfs password
      by (simp add: exportTrojan_def Let_def g_def[symmetric] plain_port_facts show_simps)
  next
    case (11 t q)
    note qs = 11[unfolded holds_query_def query, simplified]
    have type: "to_lower (getq q ''type'') = network"
      using qs excl by (auto simp: network_def)
    have network: "network = js ''ws'' \<longleftrightarrow> ws" "network = js ''grpc'' \<longleftrightarrow> grpc"
      using excl by (auto simp: network_def)
    have collect: "collectUnknownQueryParams q
        [''sni'', ''alpn'', ''allowInsecure'', ''type'', ''path'', ''host'', ''serviceName'', ''pcs''] = Some []"
      by (rule collect_held[OF 11]) (simp add: keys_of_def query)
    show ?case
      apply (rule exI, rule conjI)
       apply (unfold trojan_body_def Let_def type network)
       apply ((rule assigns_intros held_decodes[OF 11 es] held_decodes_or[OF 11 es enc_slash(1)])+)[1]
       apply (simp add: collect remapParamKeys_def own_entries_def)
      apply (simp only: trojan_fields_def list.set ball_simps)
      apply (intro conjI)
      apply (simp_all only: write_simps list.distinct)
      apply (simp_all add: qs link_simps wfs port password)
      apply (use excl header transport in \<open>auto simp: or_else_def enc_eq_Nil dec_enc enc_slash truthy_def\<close>)
      done
  qed (use wfs port scheme_words in \<open>auto simp: g_def[symmetric] plain_port_facts atom_enc js_def\<close>)
qed

section \<open>VLESS\<close>

definition vless_fields :: "string list" where
  "vless_fields = [''server'', ''port'', ''client_fingerprint'', ''name'']"

text \<open>
  The uuid is printed without encoding, and the reality keys are imported without decoding, so they
  must need none.
\<close>

definition vless_extra :: "page \<Rightarrow> bool" where
  "vless_extra pg \<longleftrightarrow>
     (let g = getFormValue pg in
      truthy (g ''uuid'') \<and> atom (g ''uuid'') \<and> 37 \<notin> set (g ''uuid'') \<and>
      well_formed (g ''vless_flow'') \<and> well_formed (g ''vless_encryption'') \<and> well_formed (g ''servername'') \<and>
      well_formed (g ''reality_public_key'') \<and> list_all unreserved (g ''reality_public_key'') \<and>
      well_formed (g ''reality_short_id'') \<and> list_all unreserved (g ''reality_short_id'') \<and>
      well_formed (g ''xhttp_opts_path'') \<and> well_formed (g ''xhttp_opts_host''))"

lemma vless_export_import:
  assumes ex: "exportable pg vless_fields" and port: "plain_port (getFormValue pg ''port'')"
    and extra: "vless_extra pg" and transport: "transport_ok pg"
  defines "g \<equiv> getFormValue pg"
  defines "ws \<equiv> g ''obfs_vless'' = js ''ws''" and "grpc \<equiv> g ''obfs_vless'' = js ''grpc''"
    and "xhttp \<equiv> g ''obfs_vless'' = js ''xhttp''" and "tls \<equiv> is_true (g ''tls'')"
    and "xtls \<equiv> truthy (g ''vless_flow'') \<and> js_includes (g ''vless_flow'') (js ''xtls'')"
    and "reality \<equiv> truthy (g ''reality_public_key'') \<or> truthy (g ''reality_short_id'')"
  shows "\<exists>link kvs. exportVless pg = Some (Some link) \<and> finishes (parseVless nu link) kvs \<and>
    ((\<forall>f\<in>set vless_fields. last_write kvs f = carried (g f)) \<and>
     last_write kvs ''type'' = Some (js ''vless'') \<and>
     last_write kvs ''uuid'' = Some (g ''uuid'') \<and>
     last_write kvs ''obfs_vless'' =
       Some (if ws then js ''ws'' else if grpc then js ''grpc'' else if xhttp then js ''xhttp'' else js ''tcp'') \<and>
     last_write kvs ''tls'' = (if tls then Some (js ''true'') else None) \<and>
     last_write kvs ''servername'' = (if tls then carried (g ''servername'') else None) \<and>
     last_write kvs ''vless_flow'' = (if tls \<and> xtls \<and> \<not> ws \<and> \<not> grpc \<and> \<not> xhttp then Some (g ''vless_flow'') else None) \<and>
     last_write kvs ''reality_public_key'' =
       (if tls \<and> \<not> xtls \<and> \<not> ws \<and> \<not> xhttp then carried (g ''reality_public_key'') else None) \<and>
     last_write kvs ''reality_short_id'' =
       (if tls \<and> \<not> xtls \<and> \<not> ws \<and> \<not> xhttp then carried (g ''reality_short_id'') else None) \<and>
     last_write kvs ''vless_encryption'' =
       (if g ''obfs_vless'' = js ''tcp'' then Some (or_else (g ''vless_encryption'') (js ''none'')) else None) \<and>
     last_write kvs ''ws_path'' = (if ws then Some (or_else (g ''ws_path'') (js ''/'')) else None) \<and>
     last_write kvs ''ws_headers'' = (if ws then carried (g ''ws_headers'') else None) \<and>
     last_write kvs ''grpc_service_name'' = (if grpc then Some (g ''grpc_service_name'') else None) \<and>
     last_write kvs ''xhttp_opts_path'' = (if xhttp then carried (g ''xhttp_opts_path'') else None) \<and>
     last_write kvs ''xhttp_opts_host'' = (if xhttp then carried (g ''xhttp_opts_host'') else None))"
proof -
  note wfs = ex[unfolded exportable_def vless_fields_def g_def[symmetric], simplified]
  note port = port[folded g_def]
  note extra = extra[unfolded vless_extra_def Let_def g_def[symmetric]]
  note transport = transport[unfolded transport_ok_def Let_def g_def[symmetric]]
  note header = header_cases[OF transport[THEN conjunct2, THEN conjunct1]]
  define tcp where "tcp = (g ''obfs_vless'' = js ''tcp'')"
  define network where
    "network = (if ws then js ''ws'' else if grpc then js ''grpc'' else if xhttp then js ''xhttp'' else js ''tcp'')"
  define sec where "sec = (if xtls then js ''xtls'' else if reality then js ''reality'' else js ''tls'')"
  have excl: "ws \<Longrightarrow> \<not> grpc" "ws \<Longrightarrow> \<not> xhttp" "grpc \<Longrightarrow> \<not> xhttp" "tcp \<Longrightarrow> \<not> ws" "tcp \<Longrightarrow> \<not> grpc" "tcp \<Longrightarrow> \<not> xhttp"
    by (auto simp: ws_def grpc_def xhttp_def tcp_def)
  have query: "vless_query pg =
      [(tcp, ''encryption'', or_else (g ''vless_encryption'') (js ''none'')),
       (tls, ''security'', sec),
       (tls \<and> xtls, ''flow'', g ''vless_flow''),
       (tls \<and> truthy (g ''servername''), ''sni'', g ''servername''),
       (truthy (g ''client_fingerprint''), ''fp'', g ''client_fingerprint''),
       (truthy (g ''reality_public_key''), ''pbk'', g ''reality_public_key''),
       (truthy (g ''reality_short_id''), ''sid'', g ''reality_short_id''),
       (True, ''type'', network),
       (ws \<and> truthy (g ''ws_path'') \<or> xhttp \<and> truthy (g ''xhttp_opts_path''), ''path'',
          if ws then g ''ws_path'' else g ''xhttp_opts_path''),
       (ws \<and> has_host (g ''ws_headers'') \<or> xhttp \<and> truthy (g ''xhttp_opts_host''), ''host'',
          if ws then host_header (g ''ws_headers'') else g ''xhttp_opts_host''),
       (grpc \<and> truthy (g ''grpc_service_name''), ''serviceName'', g ''grpc_service_name'')]"
    by (simp add: vless_query_def Let_def g_def ws_def grpc_def xhttp_def tcp_def tls_def xtls_def reality_def network_def
        sec_def)
  have es: "good_entries (vless_query pg)"
    using wfs transport header extra excl unfolding good_entries_def query
    by (simp add: keys_of_def ascii_key_def network_def sec_def or_else_def)
  have raw: "enc (g ''reality_public_key'') = g ''reality_public_key''" "enc (g ''reality_short_id'') = g ''reality_short_id''"
    using extra by (simp_all add: enc_plain)
  have uuid: "decodeURIComponentSafe (g ''uuid'') = g ''uuid''"
    using extra by (simp add: decodeURIComponentSafe_def decode_uri_id)
  show ?thesis unfolding parseVless_def
  proof (rule link_round_trip[where es = "vless_query pg" and pg = pg and name = "g ''name''" and sch = "js ''vless''"
        and h = "g ''server''" and port = "Some (g ''port'')" and ui = "Some (g ''uuid'', None)" and path = "[]"
        and km = "[(''client-fingerprint'', ''fp''), (''public-key'', ''pbk''), (''short-id'', ''sid''),
           (''grpc-service-name'', ''serviceName'')]"], goal_cases)
    case 1
    show ?case by (rule es)
  next
    case (10 t)
    then show ?case using port wfs extra
      by (simp add: exportVless_def Let_def g_def[symmetric] plain_port_facts show_simps)
  next
    case (11 t q)
    note qs = 11[unfolded holds_query_def query, simplified]
    have type: "to_lower (or_else (getq q ''type'') (js ''tcp'')) = network"
      using qs by (simp add: network_def)
    have network: "network = js ''ws'' \<longleftrightarrow> ws" "network = js ''grpc'' \<longleftrightarrow> grpc" "network = js ''xhttp'' \<longleftrightarrow> xhttp"
      "network = js ''tcp'' \<longleftrightarrow> \<not> ws \<and> \<not> grpc \<and> \<not> xhttp"
      using excl by (auto simp: network_def)
    have security: "getq q ''security'' = js ''tls'' \<longleftrightarrow> tls \<and> \<not> xtls \<and> \<not> reality"
      "getq q ''security'' = js ''xtls'' \<longleftrightarrow> tls \<and> xtls" "getq q ''security'' = js ''reality'' \<longleftrightarrow> tls \<and> \<not> xtls \<and> reality"
      using qs by (auto simp: sec_def)
    have absent: "getq q ''public-key'' = []" "getq q ''short-id'' = []"
      by (rule getq_other[OF 11], simp add: keys_of_def query)+
    have collect: "collectUnknownQueryParams q
        ([''security'', ''sni'', ''flow'', ''type'', ''path'', ''host'', ''serviceName'', ''pbk'', ''public-key'',
          ''sid'', ''short-id'', ''fp''] @ (if \<not> ws \<and> \<not> grpc \<and> \<not> xhttp then [''encryption''] else [])) = Some []"
      by (rule collect_held_used[OF 11]) (use excl in \<open>auto simp: query\<close>)
    show ?case
      apply (rule exI, rule conjI)
       apply (unfold vless_body_def Let_def type network security)
       apply ((rule assigns_intros held_decodes[OF 11 es] held_decodes_or[OF 11 es enc_slash(1)]
              held_decodes_or[OF 11 es held_decodes[OF 11 es]])+)[1]
       apply (simp only: collect)
      apply (simp only: vless_fields_def list.set ball_simps)
      apply (intro conjI)
      apply (simp_all only: write_simps list.distinct)
      apply (simp_all add: qs absent link_simps wfs port extra uuid raw)
      apply (use excl header transport extra in \<open>auto simp: or_else_def enc_eq_Nil dec_enc enc_slash truthy_def tcp_def xtls_def reality_def\<close>)
      done
  qed (use wfs port extra scheme_words in \<open>auto simp: g_def[symmetric] plain_port_facts atom_enc js_def\<close>)
qed

end
