(* ===== verification/Round_Trip_Vmess.thy ===== *)
theory Round_Trip_Vmess
  imports Vmess_Links Link_Round_Trip
begin

text \<open>Importing an exported vmess link: the JSON object reads back, and so does every field.\<close>

section \<open>The printed object is well formed\<close>

lemma well_formed_ascii: "\<forall>c\<in>set s. 0 \<le> c \<and> c < 128 \<Longrightarrow> well_formed s"
  using code_points_ascii[of s] by (force simp: well_formed_def units_def)

lemma hex_lower4_ascii:
  assumes "0 \<le> c" "c < 65536" "x \<in> set (hex_lower4 c)"
  shows "0 \<le> x \<and> x < 128"
proof -
  have "0 \<le> hex_digit_lower d \<and> hex_digit_lower d < 128" if "0 \<le> d" "d < 16" for d
    using that by (simp add: hex_digit_lower_def)
  moreover have "0 \<le> c div 4096" "c div 4096 < 16" using assms by (simp_all add: pos_imp_zdiv_nonneg_iff)
  ultimately show ?thesis using assms(3) by (auto simp: hex_lower4_def)
qed

lemma quote_unit_well_formed: "0 \<le> c \<Longrightarrow> c < 65536 \<Longrightarrow> well_formed (quote_unit c)"
proof (cases "c < 128 \<or> is_high c \<or> is_low c")
  case True
  assume "0 \<le> c" "c < 65536"
  with True show ?thesis
    by (intro well_formed_ascii) (auto simp: quote_unit_def is_high_def is_low_def dest: hex_lower4_ascii)
next
  case False
  assume "0 \<le> c" "c < 65536"
  with False have "quote_unit c = [c]" by (simp add: quote_unit_def)
  with False \<open>0 \<le> c\<close> \<open>c < 65536\<close> show ?thesis by (simp add: well_formed_def)
qed

lemma quote_units_well_formed: "units s \<Longrightarrow> well_formed (quote_units s)"
proof (induction s rule: quote_units.induct)
  case (3 c d s)
  show ?case
  proof (cases "is_high c \<and> is_low d")
    case True
    then have "well_formed [c, d]" using 3 by (auto simp: well_formed_def is_high_def is_low_def)
    with 3 True well_formed_append[of "[c, d]" "quote_units s"] show ?thesis by simp
  next
    case False
    with 3 show ?thesis
      by (simp only: quote_units.simps if_False) (intro well_formed_append quote_unit_well_formed, auto)
  qed
qed (simp_all add: quote_unit_well_formed)

lemma json_quote_well_formed: "units s \<Longrightarrow> well_formed (json_quote s)"
  using well_formed_append[of "[34]"] well_formed_append[of "quote_units s" "[34]"] quote_units_well_formed[of s]
    well_formed_ascii[of "[34]"]
  by (simp add: json_quote_def)

lemma js_join_well_formed: "\<forall>x\<in>set xs. well_formed x \<Longrightarrow> well_formed sep \<Longrightarrow> well_formed (js_join sep xs)"
  by (induction sep xs rule: js_join.induct) (auto intro!: well_formed_append)

lemma json_stringify_well_formed:
  assumes "\<forall>(k, v)\<in>set ob. units k \<and> units v"
  shows "well_formed (json_stringify ob)"
proof -
  have one: "well_formed [c]" if "0 \<le> c" "c < 128" for c using that by (intro well_formed_ascii) simp
  have member: "well_formed (json_quote k @ [58] @ json_quote v)" if "(k, v) \<in> set (own_entries ob)" for k v
    using that assms by (intro well_formed_append json_quote_well_formed one) (auto simp: set_own_entries)
  have "well_formed ([123] @ js_join [44] (map (\<lambda>(k, v). json_quote k @ 58 # json_quote v) (own_entries ob)) @ [125])"
    using member by (intro well_formed_append js_join_well_formed one) auto
  then show ?thesis by (simp add: json_stringify_def)
qed

section \<open>Entries of an object literal that is updated\<close>

definition last_entry :: "(bool \<times> string \<times> jstr) list \<Rightarrow> string \<Rightarrow> jstr option" where
  "last_entry es k = fold (\<lambda>(c, k', v) r. if c \<and> k' = k then Some v else r) es None"

lemma get_last_entry:
  assumes "''__proto__'' \<notin> set (keys_of es)"
  shows "obj_get (query_of es) (js k) = last_entry es k"
proof -
  have "obj_get (fold (\<lambda>(c, k, v) q. if c then obj_set q (js k) v else q) es ob) (js k) =
      fold (\<lambda>(c, k', v) r. if c \<and> k' = k then Some v else r) es (obj_get ob (js k))" for ob
    using assms by (induction es arbitrary: ob) (auto simp: obj_get_set keys_of_def)
  from this[of "[]"] show ?thesis by (simp add: query_of_def last_entry_def)
qed

lemma query_of_entries:
  assumes "\<forall>(c, k, v)\<in>set es. c \<longrightarrow> units v"
  shows "distinct (map fst (query_of es))" "\<forall>(k, v)\<in>set (query_of es). units k \<and> units v"
    "set (map fst (query_of es)) \<subseteq> js ` set (keys_of es)"
proof -
  have d: "distinct (map fst (fold (\<lambda>(c, k, v) q. if c then obj_set q (js k) v else q) es ob))"
    if "distinct (map fst ob)" for ob
    using that by (induction es arbitrary: ob) (auto simp: distinct_obj_set)
  have s: "set (obj_put ob k v) \<subseteq> insert (k, v) (set ob)" for ob :: "jstr obj" and k v
    by (induction ob k v rule: obj_put.induct) auto
  have m: "kv \<in> set (fold (\<lambda>(c, k, v) q. if c then obj_set q (js k) v else q) es ob) \<Longrightarrow>
      kv \<in> set ob \<or> (\<exists>k. (True, k, snd kv) \<in> set es \<and> fst kv = js k)" for kv ob
  proof (induction es arbitrary: ob)
    case (Cons e es)
    obtain c k v where e: "e = (c, k, v)" by (cases e)
    let ?ob = "if c then obj_set ob (js k) v else ob"
    have "kv \<in> set ?ob \<Longrightarrow> kv \<in> set ob \<or> c \<and> kv = (js k, v)"
      using s[of ob "js k" v] by (auto simp: obj_set_def split: if_splits)
    moreover have "kv \<in> set ?ob \<or> (\<exists>k. (True, k, snd kv) \<in> set es \<and> fst kv = js k)"
      using Cons e by (intro Cons.IH) simp
    ultimately show ?case using e by auto
  qed simp
  show "distinct (map fst (query_of es))" using d[of "[]"] by (simp add: query_of_def)
  have q: "\<exists>k'. (True, k', v) \<in> set es \<and> k = js k'" if "(k, v) \<in> set (query_of es)" for k v
    using m[of "(k, v)" "[]"] that by (simp add: query_of_def)
  then show "\<forall>(k, v)\<in>set (query_of es). units k \<and> units v" using assms by (force simp: units_js)
  show "set (map fst (query_of es)) \<subseteq> js ` set (keys_of es)"
  proof
    fix k assume "k \<in> set (map fst (query_of es))"
    then obtain v where "(k, v) \<in> set (query_of es)" by auto
    with q obtain k' where "(True, k', v) \<in> set es" "k = js k'" by blast
    then show "k \<in> js ` set (keys_of es)" by (force simp: keys_of_def)
  qed
qed

section \<open>String fields\<close>

definition str_obj :: "jstr obj \<Rightarrow> json obj" where
  "str_obj ob = map (\<lambda>(k, v). (k, JStr v)) (own_entries ob)"

lemma field_str_obj:
  assumes "distinct (map fst ob)"
  shows "field (str_obj ob) k = map_option JStr (obj_get ob (js k))"
proof -
  have "map_of (map (\<lambda>(k, v). (k, JStr v)) xs) x = map_option JStr (map_of xs x)" for xs and x :: jstr
    by (induction xs) auto
  then show ?thesis
    using obj_get_own_entries[OF assms, of "js k"] by (simp add: field_def str_obj_def obj_get_def)
qed

lemma string_field_simps:
  "put_or ns f (Some (JStr s)) d = put f (or_else s d)"
  "form_text ns (Some (JStr s)) = Some s"
  "put_if ns f (Some (JStr s)) = js_if (truthy s) (put f s)"
  "put_if ns f None = js_if False (put_try f None)"
  "json_truthy ns (Some (JStr s)) = truthy s"
  "put_try f (Some s) = put f s"
  by (auto simp: put_or_def form_text_def json_truthy_def put_if_def or_else_def put_try_def fun_eq_iff js_if_def)

lemma all_known:
  assumes "distinct (map fst ob)" "set (map fst ob) \<subseteq> js ` set vmess_known"
  shows "vmess_unknown ns (str_obj ob) = Some []"
proof -
  have keys: "set (map fst (str_obj ob)) = set (map fst ob)"
    by (force simp: str_obj_def set_own_entries)
  then have "callable_has_own (str_obj ob)"
    using assms(2) by (auto simp: callable_has_own_def has_key_def vmess_known_def)
  moreover have "fold (\<lambda>(vk, v) r. if in_table vmess_known vk then r
        else (case unknown_text ns v of None \<Rightarrow> r
              | Some t \<Rightarrow> obj_set r vk (normalizeUnknownParamValueByKey vk (POne (YStr t))))) es [] = []"
    if "\<forall>(k, v)\<in>set es. in_table vmess_known k" for es
    using that by (induction es) auto
  moreover have "\<forall>(k, v)\<in>set (own_entries (str_obj ob)). in_table vmess_known k"
  proof -
    have "k \<in> set (map fst (str_obj ob))" if "(k, v) \<in> set (own_entries (str_obj ob))" for k v
      using that by (force simp: set_own_entries)
    then show ?thesis using keys assms(2) by (force simp: in_table_def)
  qed
  ultimately show ?thesis by (simp add: vmess_unknown_def)
qed

section \<open>The round trip\<close>

lemma split_parts: "sep \<noteq> [] \<Longrightarrow> x \<in> set (js_split sep s) \<Longrightarrow> set x \<subseteq> set s"
proof (induction sep s rule: js_split.induct)
  case (1 sep s)
  show ?case
  proof (cases "index_of sep s")
    case None
    with 1 show ?thesis by (simp add: js_split.simps)
  next
    case (Some i)
    then have split: "js_split sep s = take i s # js_split sep (drop (i + length sep) s)"
      using 1 by (subst js_split.simps) simp
    with 1 Some show ?thesis by (auto dest!: in_set_takeD in_set_dropD)
  qed
qed

lemma units_host_header:
  assumes "units h" "has_host h"
  shows "units (host_header h)"
proof -
  obtain i where i: "index_of (js ''Host:'') h = Some i"
    using assms(2) by (auto simp: has_host_def js_includes_def)
  let ?r = "js_split (js ''Host:'') (drop (i + length (js ''Host:'')) h)"
  have split: "js_split (js ''Host:'') h = take i h # ?r"
    using i by (subst js_split.simps) simp
  have "?r ! 0 \<in> set ?r" by (rule nth_mem) (simp add: js_split_nonempty)
  then have "js_split (js ''Host:'') h ! 1 \<in> set (js_split (js ''Host:'') h)" by (simp add: split)
  then have "set (js_split (js ''Host:'') h ! 1) \<subseteq> set h" by (rule split_parts[rotated]) simp
  moreover have "set (trim x) \<subseteq> set x" for x
    by (auto simp: trim_def dest!: set_dropWhileD)
  ultimately show ?thesis using assms(1) unfolding host_header_def units_def by blast
qed

definition vmess_fields :: "string list" where
  "vmess_fields = [''server'', ''port'', ''uuid'', ''alterId'', ''cipher'', ''name'', ''servername'', ''client_fingerprint'',
     ''ws_path'', ''ws_headers'', ''h2_path'', ''h2_host'', ''grpc_service_name'']"

definition vmess_ready :: "page \<Rightarrow> bool" where
  "vmess_ready pg \<longleftrightarrow> (\<forall>f\<in>set vmess_fields. units (getFormValue pg f)) \<and>
     truthy (getFormValue pg ''server'') \<and> truthy (getFormValue pg ''port'') \<and> truthy (getFormValue pg ''uuid'') \<and>
     parseOtherParameters (getFormValue pg ''other_parameters'') = []"

text \<open>The transport a vmess link can express.\<close>

definition vmess_obfs :: "jstr \<Rightarrow> jstr" where
  "vmess_obfs x = (if x = js ''websocket'' \<or> x = js ''h2'' \<or> x = js ''grpc'' then x else js ''none'')"

lemma vmess_link_object:
  assumes "vmess_ready pg"
  shows "\<exists>body. exportVmess pg = Some (Some (js ''vmess://'' @ body)) \<and>
    do { sstr \<leftarrow> b64DecodeUnicode body; json_parse sstr } = Some (JObj (str_obj (query_of (vmess_info pg))))"
proof -
  let ?q = "query_of (vmess_info pg)"
  have u: "units (getFormValue pg f)" if "f \<in> set vmess_fields" for f
    using assms that by (simp add: vmess_ready_def)
  note us = u[unfolded vmess_fields_def, simplified]
  have "\<forall>(c, k, v)\<in>set (vmess_info pg). c \<longrightarrow> units v"
    by (simp add: vmess_info_def Let_def u vmess_fields_def units_js or_else_def units_host_header)
  from query_of_entries[OF this] have q: "distinct (map fst ?q)" "\<forall>(k, v)\<in>set ?q. units k \<and> units v" by blast+
  have "well_formed (json_stringify ?q)" by (rule json_stringify_well_formed[OF q(2)])
  then obtain body where body: "b64EncodeUnicode (json_stringify ?q) = Some body"
    using b64EncodeUnicode_defined by blast
  have "b64DecodeUnicode body = Some (json_stringify ?q)"
    using \<open>well_formed _\<close> body by (intro b64unicode_inverse) (simp_all add: well_formed_def)
  then have "do { sstr \<leftarrow> b64DecodeUnicode body; json_parse sstr } = Some (JObj (str_obj ?q))"
    using json_round_trip[OF q] by (simp add: str_obj_def)
  moreover have "exportVmess pg = Some (Some (js ''vmess://'' @ body))"
    using assms body
    by (simp add: exportVmess_def vmess_ready_def Let_def mergeOtherParametersToQuery_def merge_entries_def own_entries_def)
  ultimately show ?thesis by blast
qed

lemma finishes_try: "finishes s kvs \<Longrightarrow> finishes (try_catch s h) kvs"
  by (simp add: finishes_def try_catch_def)

lemma vmess_info_known: "set (keys_of (vmess_info pg)) \<subseteq> set vmess_known"
  by (simp add: vmess_info_def Let_def keys_of_def vmess_known_def)

lemma vmess_entries:
  fixes pg
  defines "g \<equiv> getFormValue pg"
  defines "obfs \<equiv> g ''obfs_vmess''"
  shows "last_entry (vmess_info pg) ''ps'' = Some (g ''name'')"
    "last_entry (vmess_info pg) ''add'' = Some (g ''server'')"
    "last_entry (vmess_info pg) ''port'' = Some (g ''port'')"
    "last_entry (vmess_info pg) ''id'' = Some (g ''uuid'')"
    "last_entry (vmess_info pg) ''aid'' = Some (or_else (g ''alterId'') (js ''0''))"
    "last_entry (vmess_info pg) ''scy'' = Some (or_else (g ''cipher'') (js ''auto''))"
    "last_entry (vmess_info pg) ''type'' = Some (js ''none'')"
    "last_entry (vmess_info pg) ''tls'' = Some (if is_true (g ''tls'') then js ''tls'' else [])"
    "last_entry (vmess_info pg) ''sni'' = (if is_true (g ''tls'') then carried (g ''servername'') else None)"
    "last_entry (vmess_info pg) ''fp'' = carried (g ''client_fingerprint'')"
    "last_entry (vmess_info pg) ''net'' = Some (if obfs = js ''websocket'' then js ''ws'' else if obfs = js ''h2'' then js ''h2''
       else if obfs = js ''grpc'' then js ''grpc'' else js ''tcp'')"
    "last_entry (vmess_info pg) ''path'' = Some (if obfs = js ''websocket'' then or_else (g ''ws_path'') (js ''/'')
       else if obfs = js ''h2'' then or_else (g ''h2_path'') (js ''/'')
       else if obfs = js ''grpc'' then g ''grpc_service_name'' else [])"
    "last_entry (vmess_info pg) ''host'' = Some (if obfs = js ''websocket'' \<and> has_host (g ''ws_headers'') then host_header (g ''ws_headers'')
       else if obfs = js ''h2'' then g ''h2_host'' else [])"
  by (simp_all add: last_entry_def vmess_info_def Let_def g_def obfs_def carried_def)

definition vmess_network_of :: "jstr \<Rightarrow> jstr" where
  "vmess_network_of obfs = (if obfs = js ''websocket'' then js ''ws'' else if obfs = js ''h2'' then js ''h2''
     else if obfs = js ''grpc'' then js ''grpc'' else js ''tcp'')"

lemma put_if_carried:
  "put_if ns f (map_option JStr (carried v)) = js_if (truthy v) (put f v)"
  "put_if ns f (map_option JStr (if c then carried v else None)) = js_if (c \<and> truthy v) (put f v)"
  by (auto simp: carried_def string_field_simps fun_eq_iff js_if_def)

lemma tls_test: "map_option JStr (Some (if c then js ''tls'' else [])) = Some (JStr (js ''tls'')) \<longleftrightarrow> c"
  "map_option JStr (Some (js ''none'')) = Some (JStr (js ''http'')) \<longleftrightarrow> False"
  by simp_all

lemma js_if_else_False: "js_if_else False s t = t"
  by (simp add: js_if_else_def fun_eq_iff)

lemma vmess_network_string:
  "vmess_network ns (Some (JStr (vmess_network_of obfs))) = Some (vmess_network_of obfs)"
  by (simp add: vmess_network_def json_truthy_def vmess_network_of_def) (simp add: js_def to_lower_def lower_cu_def)

lemma vmess_export_import:
  assumes ready: "vmess_ready pg"
  defines "g \<equiv> getFormValue pg"
  defines "obfs \<equiv> g ''obfs_vmess''"
  shows "\<exists>body kvs. exportVmess pg = Some (Some (js ''vmess://'' @ body)) \<and> finishes (parseVmess ns nu body) kvs \<and>
    (last_write kvs ''type'' = Some (js ''vmess'') \<and>
     (\<forall>f\<in>{''server'', ''port'', ''uuid'', ''name''}. last_write kvs f = Some (g f)) \<and>
     last_write kvs ''alterId'' = Some (or_else (g ''alterId'') (js ''0'')) \<and>
     last_write kvs ''cipher'' = Some (or_else (g ''cipher'') (js ''auto'')) \<and>
     last_write kvs ''tls'' = (if is_true (g ''tls'') then Some (js ''true'') else None) \<and>
     last_write kvs ''servername'' = (if is_true (g ''tls'') then carried (g ''servername'') else None) \<and>
     last_write kvs ''client_fingerprint'' = carried (g ''client_fingerprint'') \<and>
     last_write kvs ''obfs_vmess'' = Some (vmess_obfs obfs) \<and>
     last_write kvs ''ws_path'' = (if obfs = js ''websocket'' then Some (or_else (g ''ws_path'') (js ''/'')) else None) \<and>
     last_write kvs ''ws_headers'' =
       (if obfs = js ''websocket'' \<and> has_host (g ''ws_headers'')
        then map_option ((@) (js ''Host: '')) (carried (host_header (g ''ws_headers''))) else None) \<and>
     last_write kvs ''h2_path'' = (if obfs = js ''h2'' then Some (or_else (g ''h2_path'') (js ''/'')) else None) \<and>
     last_write kvs ''h2_host'' = (if obfs = js ''h2'' then carried (g ''h2_host'') else None) \<and>
     last_write kvs ''grpc_service_name'' = (if obfs = js ''grpc'' then Some (g ''grpc_service_name'') else None))"
proof -
  let ?q = "query_of (vmess_info pg)"
  let ?ssm = "str_obj ?q"
  obtain body where ex: "exportVmess pg = Some (Some (js ''vmess://'' @ body))"
    and dec: "do { sstr \<leftarrow> b64DecodeUnicode body; json_parse sstr } = Some (JObj ?ssm)"
    using vmess_link_object[OF ready] by blast
  have "\<forall>(c, k, v)\<in>set (vmess_info pg). c \<longrightarrow> units v"
    using ready
    by (simp add: vmess_info_def Let_def vmess_ready_def vmess_fields_def units_js or_else_def units_host_header)
  note q = query_of_entries[OF this]
  have "''__proto__'' \<notin> set (keys_of (vmess_info pg))" using vmess_info_known[of pg] by (auto simp: vmess_known_def)
  then have f: "field ?ssm k = map_option JStr (last_entry (vmess_info pg) k)" for k
    by (simp add: field_str_obj[OF q(1)] get_last_entry)
  have unk: "vmess_unknown ns ?ssm = Some []"
    by (rule all_known[OF q(1)]) (use q(3) vmess_info_known[of pg] in blast)
  note es = vmess_entries[of pg, folded g_def, folded obfs_def, folded vmess_network_of_def[of obfs]]
  have net: "vmess_network_of obfs = js ''ws'' \<longleftrightarrow> obfs = js ''websocket''"
    "vmess_network_of obfs = js ''h2'' \<longleftrightarrow> obfs = js ''h2''" "vmess_network_of obfs = js ''grpc'' \<longleftrightarrow> obfs = js ''grpc''"
    "vmess_network_of obfs = js ''tcp'' \<longleftrightarrow> obfs \<noteq> js ''websocket'' \<and> obfs \<noteq> js ''h2'' \<and> obfs \<noteq> js ''grpc''"
    by (auto simp: vmess_network_of_def)
  show ?thesis
    apply (rule exI[of _ body], rule exI, rule conjI, rule ex, rule conjI)
     apply (unfold parseVmess_def parseVmess_json_def)
     apply (rule finishes_try, rule finishes_bind[OF dec])
     apply (rule finishes_Cons[OF assigns_put finishes_single], rule finishes_bind, rule json_fields.simps)
     apply (unfold vmess_json_body_def vmess_transport_def Let_def unk)
     apply (unfold f es put_if_carried tls_test)
     apply (unfold option.map string_field_simps net js_if_else_False)
     apply ((rule assigns_intros assigns_bind[OF vmess_network_string] assigns_bind[OF refl])+)[1]
     apply (rule refl)
    apply (simp only: ball_simps)
    apply (intro conjI)
    apply (simp_all only: write_simps list.distinct net)
    apply (simp_all add: vmess_obfs_def or_else_def carried_def)
     apply (simp_all add: truthy_def)
    done
qed

end
