(* ===== verification/Round_Trip_Shadowsocks.thy ===== *)
theory Round_Trip_Shadowsocks
  imports Import_Result Round_Trip_Vmess
begin

text \<open>Shadowsocks and ShadowsocksR: importing the exported link (export 824-909, import 1801-1885 and 1905-2012).\<close>

section \<open>ShadowsocksR\<close>

text \<open>A part of the colon-separated head.\<close>

definition ssr_atom :: "jstr \<Rightarrow> bool" where
  "ssr_atom v \<longleftrightarrow> list_all (\<lambda>c. is_byte c \<and> c \<noteq> 58 \<and> c \<noteq> 47) v"

definition ssr_ready :: "page \<Rightarrow> bool" where
  "ssr_ready pg \<longleftrightarrow>
     (let g = getFormValue pg in
      (\<forall>f\<in>set [''server'', ''port'', ''protocol'', ''cipher'', ''obfs_ssr'']. ssr_atom (g f)) \<and>
      (\<forall>f\<in>set [''server'', ''port'', ''password'', ''cipher'']. truthy (g f)) \<and>
      (\<forall>f\<in>set [''password'', ''obfs_param'', ''protocol_param'']. list_all is_byte (g f)) \<and>
      well_formed (g ''name'') \<and> parseOtherParameters (g ''other_parameters'') = [])"

lemma unreserved_byte: "unreserved c \<Longrightarrow> is_byte c \<and> c \<noteq> 58 \<and> c \<noteq> 47 \<and> c \<noteq> 38 \<and> c \<noteq> 61 \<and> c \<noteq> 37 \<and> c \<noteq> 64 \<and> c \<noteq> 35 \<and> c \<noteq> 63"
  by (auto simp: unreserved_def alnum_def is_byte_def)

lemma split_pair: "61 \<notin> set k \<Longrightarrow> 61 \<notin> set v \<Longrightarrow> js_split [61] (k @ 61 # v) = [k, v]"
  by (simp add: js_split_step js_split_absent)

lemma ssr_params_print:
  assumes "\<forall>(k, v)\<in>set es. (\<forall>c\<in>set k \<union> set v. unreserved c) \<and> k \<noteq> js ''__proto__''" "distinct (map fst es)"
  shows "ssr_params (js_join [38] (map (\<lambda>(k, v). k @ 61 # v) es)) = Some es"
proof -
  define step where "step = (\<lambda>p (ob :: jstr obj). case js_split (js ''='') p of
         [k, v] \<Rightarrow> do { key \<leftarrow> decodeURIComponent k; Some (obj_set ob key v) } | _ \<Rightarrow> Some ob)"
  have "fold_opt step (map (\<lambda>(k, v). k @ 61 # v) es) acc = Some (acc @ es)"
    if "fst ` set acc \<inter> fst ` set es = {}" for acc
    using assms that
  proof (induction es arbitrary: acc)
    case (Cons e es)
    obtain k v where e: "e = (k, v)" by (cases e)
    have u: "\<forall>c\<in>set k \<union> set v. unreserved c" "k \<noteq> js ''__proto__''" using Cons.prems(1) e by auto
    have "61 \<notin> set k" "61 \<notin> set v" "37 \<notin> set k" using u unreserved_byte by blast+
    moreover have "obj_set acc k v = acc @ [(k, v)]"
      using Cons.prems(3) u(2) e by (auto simp: obj_set_def intro!: obj_put_fresh)
    ultimately have "step (k @ 61 # v) acc = Some (acc @ [(k, v)])"
      by (simp add: step_def split_pair decode_uri_id)
    moreover have "fold_opt step (map (\<lambda>(k, v). k @ 61 # v) es) (acc @ [(k, v)]) = Some ((acc @ [(k, v)]) @ es)"
      using Cons.prems e by (intro Cons.IH) (auto simp: image_iff)
    ultimately show ?case by (simp add: e)
  qed simp
  from this[of "[]"] have fold: "fold_opt step (map (\<lambda>(k, v). k @ 61 # v) es) [] = Some es" by simp
  show ?thesis
  proof (cases "es = []")
    case True
    then show ?thesis by (simp add: ssr_params_def js_split_absent)
  next
    case False
    have "\<forall>x\<in>set (map (\<lambda>(k, v). k @ 61 # v) es). 38 \<notin> set x"
      using assms(1) unreserved_byte by fastforce
    then have "js_split [38] (js_join [38] (map (\<lambda>(k, v). k @ 61 # v) es)) = map (\<lambda>(k, v). k @ 61 # v) es"
      using False by (intro js_split_join) auto
    then show ?thesis using fold by (simp add: ssr_params_def step_def)
  qed
qed

text \<open>The entries of the query that are printed, as they are.\<close>

lemma print_unreserved:
  assumes "\<forall>(k, v)\<in>set ob. \<forall>c\<in>set k \<union> set v. unreserved c" "callable_has_own ob" "\<forall>k\<in>set (map fst ob). \<not> array_index k"
  shows "queryMapToString ob = Some (js_join [38] (map (\<lambda>(k, v). k @ 61 # v) (filter (\<lambda>(k, v). truthy v) ob)))"
proof -
  have "map_opt enc_pair (filter (\<lambda>(k, v). truthy v) ob) = Some (map (\<lambda>(k, v). k @ 61 # v) (filter (\<lambda>(k, v). truthy v) ob))"
    using assms(1) by (intro map_opt_Some) (fastforce simp: enc_pair_def encode_unreserved_id)
  then show ?thesis using assms by (simp add: queryMapToString_def own_entries_plain)
qed

lemma b64encsafe_Nil: "b64encsafe [] = Some []"
  by (simp add: b64encsafe_def btoa_bytes b64_text_def pad_count_def to_url_alphabet_def strip_trailing_def replace_cu_def)

lemma b64_field:
  assumes "list_all is_byte v"
  shows "\<exists>t. b64encsafe v = Some t \<and> b64decsafe t = Some v \<and> (\<forall>c\<in>set t. unreserved c) \<and> (truthy t \<longleftrightarrow> truthy v)"
proof -
  obtain t where t: "b64encsafe v = Some t" using b64encsafe_bytes[OF assms] by blast
  have d: "b64decsafe t = Some v" by (rule b64safe_inverse[OF assms t])
  have "b64encsafe [] = Some []" by (rule b64encsafe_Nil)
  moreover from this have "b64decsafe [] = Some []" by (rule b64safe_inverse[rotated]) simp
  ultimately have "truthy t \<longleftrightarrow> truthy v" using t d by (cases "t = []"; cases "v = []") (auto simp: truthy_def)
  then show ?thesis using t d b64encsafe_unreserved[OF assms t] by blast
qed

lemma b64_name:
  assumes "well_formed v"
  shows "\<exists>t. b64encutf8safe v = Some t \<and> b64decutf8safe t = Some v \<and> (\<forall>c\<in>set t. unreserved c) \<and> (truthy t \<longleftrightarrow> truthy v)"
proof -
  have u: "units v" using assms by (simp add: well_formed_def)
  obtain t where t: "b64encutf8safe v = Some t"
    using b64EncodeUnicode_defined[OF assms] by (auto simp: b64encutf8safe_def)
  have d: "b64decutf8safe t = Some v" by (rule b64utf8safe_inverse[OF u t])
  have "b64encsafe [] = Some []" by (rule b64encsafe_Nil)
  then have e: "b64encutf8safe [] = Some []"
    by (simp add: b64encutf8safe_def b64EncodeUnicode_def b64encsafe_def)
  then have "b64decutf8safe [] = Some []" by (rule b64utf8safe_inverse[rotated]) simp
  with e have "truthy t \<longleftrightarrow> truthy v" using t d by (cases "t = []"; cases "v = []") (auto simp: truthy_def)
  then show ?thesis using t d b64encutf8safe_unreserved[OF u t] by blast
qed

text \<open>The head of the text and its query.\<close>

definition ssr_head :: "page \<Rightarrow> jstr \<Rightarrow> jstr list" where
  "ssr_head pg pw =
     (let g = getFormValue pg in [g ''server'', g ''port'', g ''protocol'', g ''cipher'', g ''obfs_ssr'', pw])"

definition ssr_entries :: "jstr \<Rightarrow> jstr \<Rightarrow> jstr \<Rightarrow> jstr obj" where
  "ssr_entries obfs proto remarks =
     filter (\<lambda>(k, v). truthy v) [(js ''obfsparam'', obfs), (js ''protoparam'', proto), (js ''remarks'', remarks)]"

lemma plain_word_key: "\<forall>c\<in>set (js ''obfsparam''). unreserved c" "\<forall>c\<in>set (js ''protoparam''). unreserved c"
  "\<forall>c\<in>set (js ''remarks''). unreserved c"
  by (simp_all add: js_def unreserved_def alnum_def)

lemma not_index_keys: "\<not> array_index (js ''obfsparam'')" "\<not> array_index (js ''protoparam'')" "\<not> array_index (js ''remarks'')"
  by (simp_all add: array_index_def js_def is_digit_def)

lemma ssr_query_text:
  assumes "\<forall>c\<in>set ob \<union> set pr \<union> set re. unreserved c"
  shows "queryMapToString [(js ''obfsparam'', ob), (js ''protoparam'', pr), (js ''remarks'', re)] =
      Some (js_join [38] (map (\<lambda>(k, v). k @ 61 # v) (ssr_entries ob pr re)))"
    "ssr_params (js_join [38] (map (\<lambda>(k, v). k @ 61 # v) (ssr_entries ob pr re))) = Some (ssr_entries ob pr re)"
proof -
  show "queryMapToString [(js ''obfsparam'', ob), (js ''protoparam'', pr), (js ''remarks'', re)] =
      Some (js_join [38] (map (\<lambda>(k, v). k @ 61 # v) (ssr_entries ob pr re)))"
    unfolding ssr_entries_def using assms plain_word_key not_index_keys
    by (intro print_unreserved) (auto simp: callable_has_own_def has_key_def)
  show "ssr_params (js_join [38] (map (\<lambda>(k, v). k @ 61 # v) (ssr_entries ob pr re))) = Some (ssr_entries ob pr re)"
  proof (rule ssr_params_print)
    show "\<forall>(k, v)\<in>set (ssr_entries ob pr re). (\<forall>c\<in>set k \<union> set v. unreserved c) \<and> k \<noteq> js ''__proto__''"
      using assms plain_word_key by (auto simp: ssr_entries_def)
    show "distinct (map fst (ssr_entries ob pr re))" by (simp add: ssr_entries_def)
  qed
qed

lemma getq_entries:
  "getq (ssr_entries ob pr re) ''obfsparam'' = ob" "getq (ssr_entries ob pr re) ''protoparam'' = pr"
  "getq (ssr_entries ob pr re) ''remarks'' = re"
  by (auto simp: getq_def ssr_entries_def obj_get_Cons truthy_def)

lemma ssr_known: "collectUnknownQueryParams (ssr_entries ob pr re) [''obfsparam'', ''protoparam'', ''remarks''] = Some []"
  by (rule collect_known[where ks = "[''obfsparam'', ''protoparam'', ''remarks'']"])
    (auto simp: ssr_entries_def callable_has_own_def has_key_def)

lemma ssr_params_assigns:
  assumes "ssr_params t = Some (ssr_entries ob pr re)"
    and "b64decsafe ob = Some ob'" "b64decsafe pr = Some pr'" "b64decutf8safe re = Some re'"
  shows "assigns (ssr_params_stmt t)
    ((if truthy ob then [(''obfs_param'', ob')] else []) @ (if truthy pr then [(''protocol_param'', pr')] else []) @
     (if truthy re then [(''name'', re')] else []) @ [])"
  unfolding ssr_params_stmt_def Let_def
  apply (rule assigns_bind[OF assms(1)])
  apply (unfold getq_entries)
  apply (rule assigns_intros assigns_end assigns_put_try assms(2-4) ssr_known)+
  done

lemma ssr_head_split:
  assumes "\<forall>f\<in>set [''server'', ''port'', ''protocol'', ''cipher'', ''obfs_ssr'']. ssr_atom (getFormValue pg f)"
    and "\<forall>c\<in>set pw. unreserved c"
  shows "js_split [58] (js_join [58] (ssr_head pg pw)) = ssr_head pg pw" "47 \<notin> set (js_join [58] (ssr_head pg pw))"
    "list_all is_byte (js_join [58] (ssr_head pg pw))"
proof -
  have a: "\<forall>x\<in>set (ssr_head pg pw). \<forall>c\<in>set x. is_byte c \<and> c \<noteq> 58 \<and> c \<noteq> 47"
    using assms unreserved_byte by (auto simp: ssr_head_def Let_def ssr_atom_def list_all_iff)
  show "js_split [58] (js_join [58] (ssr_head pg pw)) = ssr_head pg pw"
    using a by (intro js_split_join) (auto simp: ssr_head_def Let_def)
  show "47 \<notin> set (js_join [58] (ssr_head pg pw))" using a by (auto dest!: set_js_join)
  show "list_all is_byte (js_join [58] (ssr_head pg pw))"
    using a by (auto simp: list_all_iff is_byte_def dest!: set_js_join)
qed

lemma ssr_query_bytes:
  assumes "\<forall>c\<in>set ob \<union> set pr \<union> set re. unreserved c"
  shows "list_all is_byte (js_join [38] (map (\<lambda>(k, v). k @ 61 # v) (ssr_entries ob pr re)))"
proof -
  have "\<forall>(k, v)\<in>set (ssr_entries ob pr re). \<forall>c\<in>set k \<union> set v. unreserved c"
    using assms plain_word_key by (auto simp: ssr_entries_def)
  then show ?thesis using unreserved_byte
    by (fastforce simp: list_all_iff is_byte_def dest!: set_js_join)
qed

lemma parseSSR_text:
  assumes dec: "b64decsafe text = Some (h @ [47, 63] @ t)" and h: "47 \<notin> set h" "h \<noteq> []"
    and parts: "js_split [58] h = [a, b, c, d, e, p]" and pw: "b64decsafe p = Some pw"
  shows "parseSSR text = seq [put ''type'' (js ''ssr''), seq [put ''server'' a, put ''port'' b, put ''protocol'' c,
     put ''cipher'' d, put ''obfs_ssr'' e, put ''password'' pw, js_if (truthy t) (ssr_params_stmt t), ret True]]"
proof
  fix pg
  have i: "index_of (js ''/?'') (h @ 47 # 63 # t) = Some (length h)"
    using index_of_first[OF h(1), of "[63]" t] by (simp add: js_def)
  have d: "b64decsafe text = Some (h @ 47 # 63 # t)" using dec by simp
  have "js_split (js '':'') h = [a, b, c, d, e, p]" using parts by (simp add: js_def)
  then show "parseSSR text pg = seq [put ''type'' (js ''ssr''), seq [put ''server'' a, put ''port'' b, put ''protocol'' c,
     put ''cipher'' d, put ''obfs_ssr'' e, put ''password'' pw, js_if (truthy t) (ssr_params_stmt t), ret True]] pg"
    using h(2) unfolding parseSSR_def d option.case i Let_def
    by (simp add: js_if_else_def bind_try_def pw put_def split del: if_split)
qed

lemma ssr_export_import:
  assumes ready: "ssr_ready pg"
  defines "g \<equiv> getFormValue pg"
  shows "\<exists>text kvs. exportSSR pg = Some (Some (js ''ssr://'' @ text)) \<and> 58 \<notin> set text \<and> finishes (parseSSR text) kvs \<and>
    (last_write kvs ''type'' = Some (js ''ssr'') \<and>
     (\<forall>f\<in>{''server'', ''port'', ''protocol'', ''cipher'', ''obfs_ssr'', ''password''}. last_write kvs f = Some (g f)) \<and>
     (\<forall>f\<in>{''obfs_param'', ''protocol_param'', ''name''}. last_write kvs f = carried (g f)))"
proof -
  note r = ready[unfolded ssr_ready_def Let_def, folded g_def]
  have atoms: "\<forall>f\<in>set [''server'', ''port'', ''protocol'', ''cipher'', ''obfs_ssr'']. ssr_atom (g f)" using r by blast
  obtain ob where ob: "b64encsafe (g ''obfs_param'') = Some ob" "b64decsafe ob = Some (g ''obfs_param'')"
    "\<forall>c\<in>set ob. unreserved c" "truthy ob \<longleftrightarrow> truthy (g ''obfs_param'')"
    using b64_field[of "g ''obfs_param''"] r by auto
  obtain pr where pr: "b64encsafe (g ''protocol_param'') = Some pr" "b64decsafe pr = Some (g ''protocol_param'')"
    "\<forall>c\<in>set pr. unreserved c" "truthy pr \<longleftrightarrow> truthy (g ''protocol_param'')"
    using b64_field[of "g ''protocol_param''"] r by auto
  obtain pw where pw: "b64encsafe (g ''password'') = Some pw" "b64decsafe pw = Some (g ''password'')" "\<forall>c\<in>set pw. unreserved c"
    using b64_field[of "g ''password''"] r by auto
  obtain re where re: "b64encutf8safe (g ''name'') = Some re" "b64decutf8safe re = Some (g ''name'')"
    "\<forall>c\<in>set re. unreserved c" "truthy re \<longleftrightarrow> truthy (g ''name'')"
    using b64_name[of "g ''name''"] r by auto
  let ?h = "js_join [58] (ssr_head pg pw)"
  let ?t = "js_join [38] (map (\<lambda>(k, v). k @ 61 # v) (ssr_entries ob pr re))"
  have u: "\<forall>c\<in>set ob \<union> set pr \<union> set re. unreserved c" using ob pr re by blast
  note q = ssr_query_text[OF u]
  note h = ssr_head_split[OF atoms[unfolded g_def] pw(3)]
  have bytes: "list_all is_byte (?h @ [47, 63] @ ?t)"
    using h(3) ssr_query_bytes[OF u] by (simp add: is_byte_def)
  obtain text' where enc_text: "b64encsafe (?h @ [47, 63] @ ?t) = Some text'" "b64decsafe text' = Some (?h @ [47, 63] @ ?t)"
    "\<forall>c\<in>set text'. unreserved c"
    using b64_field[OF bytes] by blast
  have merge: "mergeOtherParametersToQuery pg (query_of [(True, ''obfsparam'', ob), (True, ''protoparam'', pr), (True, ''remarks'', re)])
      [] getDefaultOtherParamSkipKeys = Some [(js ''obfsparam'', ob), (js ''protoparam'', pr), (js ''remarks'', re)]"
    using r by (simp add: mergeOtherParametersToQuery_def merge_entries_def own_entries_def query_of_def obj_set_def g_def)
  have "exportSSR pg = Some (Some (js ''ssr://'' @ text'))"
    using r enc_text(1) q(1) merge
    by (simp add: exportSSR_def g_def[symmetric] ob pr re pw ssr_head_def Let_def js_def)
  moreover have "58 \<notin> set text'" using enc_text(3) unreserved_byte by blast
  moreover have "?h \<noteq> []" using r by (simp add: ssr_head_def Let_def g_def truthy_def)
  then have parse: "parseSSR text' = seq [put ''type'' (js ''ssr''), seq [put ''server'' (g ''server''), put ''port'' (g ''port''),
     put ''protocol'' (g ''protocol''), put ''cipher'' (g ''cipher''), put ''obfs_ssr'' (g ''obfs_ssr''),
     put ''password'' (g ''password''), js_if (truthy ?t) (ssr_params_stmt ?t), ret True]]"
    using h(1) by (intro parseSSR_text[OF enc_text(2) h(2) _ _ pw(2)]) (simp_all add: ssr_head_def Let_def g_def)
  have t: "truthy ?t \<longleftrightarrow> truthy ob \<or> truthy pr \<or> truthy re"
    by (auto simp: ssr_entries_def truthy_def)
  have "\<exists>kvs. finishes (parseSSR text') kvs \<and>
    (last_write kvs ''type'' = Some (js ''ssr'') \<and>
     (\<forall>f\<in>{''server'', ''port'', ''protocol'', ''cipher'', ''obfs_ssr'', ''password''}. last_write kvs f = Some (g f)) \<and>
     (\<forall>f\<in>{''obfs_param'', ''protocol_param'', ''name''}. last_write kvs f = carried (g f)))"
    unfolding parse
    apply (rule exI, rule conjI)
     apply (rule finishes_Cons[OF assigns_put finishes_single])
     apply (rule finishes_ret assigns_intros ssr_params_assigns[OF q(2) ob(2) pr(2) re(2)])+
    apply (simp only: ball_simps)
    apply (intro conjI)
            apply (simp_all only: write_simps list.distinct t ob(4) pr(4) re(4) carried_def)
       apply (simp_all split: if_splits)
    done
  ultimately show ?thesis by blast
qed

section \<open>Shadowsocks\<close>

lemma index_of_none: "c \<notin> set s \<Longrightarrow> index_of (c # p) s = None"
  by (induction s) (auto simp: starts_with_def)

lemma index_of_skip: "c \<notin> set s \<Longrightarrow> index_of (c # p) (s @ r) = map_option ((+) (length s)) (index_of (c # p) r)"
proof (induction s)
  case Nil
  then show ?case by (cases "index_of (c # p) r") simp_all
next
  case (Cons d s)
  then have "\<not> starts_with (c # p) (d # s @ r)" by (auto simp: starts_with_def)
  with Cons show ?case by (cases "index_of (c # p) r") simp_all
qed

text \<open>The printed query has no character that would end a part of the link.\<close>

lemma print_query_chars:
  assumes es: "good_entries es" and other: "parseOtherParameters (getFormValue pg ''other_parameters'') = []"
    and t: "print_query pg es km = Some t" and c: "c \<in> set t"
  shows "uri_safe c \<or> c = 38 \<or> c = 61"
proof -
  let ?q = "query_of es"
  have pq: "plain_query ?q" by (rule plain_query_of[OF es])
  have "queryMapToString ?q = Some t"
    using t other by (simp add: print_query_def mergeOtherParametersToQuery_def merge_entries_def own_entries_def)
  then obtain ps where ps: "map_opt enc_pair (filter (\<lambda>(k, v). truthy v) (own_entries ?q)) = Some ps" "t = js_join [38] ps"
    by (auto simp: queryMapToString_def split: if_splits)
  show ?thesis
  proof (cases "c = 38")
    case False
    then obtain p where p: "p \<in> set ps" "c \<in> set p" using c ps(2) by (auto dest!: set_js_join)
    obtain k v where kv: "(k, v) \<in> set (own_entries ?q)" "enc_pair (k, v) = Some p"
      using map_opt_mem[OF ps(1) p(1)] by auto
    then have u: "units k" "units v"
      using pq by (auto simp: plain_query_def plain_key_def set_own_entries)
    obtain k' v' where "encodeURIComponent k = Some k'" "encodeURIComponent v = Some v'" "p = k' @ 61 # v'"
      using kv(2) by (auto simp: enc_pair_def split: bind_splits)
    then show ?thesis using p(2) encode_uri_safe[OF u(1)] encode_uri_safe[OF u(2)] by auto
  qed simp
qed

lemma cut_fragment:
  "b \<noteq> [] \<Longrightarrow> frag = [] \<and> n = [] \<or> frag = 35 # n \<Longrightarrow>
   (case (if frag = [] then None else Some (length b)) of
      Some i \<Rightarrow> if 0 < i then (take i (b @ frag), drop (i + 1) (b @ frag)) else (b @ frag, [])
    | None \<Rightarrow> (b @ frag, [])) = (b, n)"
  by auto

lemma parseSS_text:
  assumes ui: "\<forall>c\<in>set ui. unreserved c" "b64decsafe ui = Some (cipher @ 58 # password)" "58 \<notin> set cipher"
    and server: "atom server" "plain_port port"
    and t: "35 \<notin> set t" "47 \<notin> set t" and frag: "frag = [] \<and> n = [] \<or> frag = 35 # n"
  shows "parseSS (ui @ 64 # server @ 58 # port @ 47 # 63 # t @ frag) =
    seq [put ''type'' (js ''ss''),
         seq [js_if (truthy t) (ss_query_stmt t), put ''server'' server, put ''port'' port,
              put ''password'' password, put ''cipher'' cipher],
         put_dec_try ''name'' n, ret True]"
proof -
  let ?r = "server @ 58 # port @ 47 # 63 # t"
  have chars: "64 \<notin> set ui" "35 \<notin> set ui" using ui(1) unreserved_byte by blast+
  have srv: "58 \<notin> set server" "47 \<notin> set server" "35 \<notin> set server" "58 \<notin> set port" "47 \<notin> set port" "35 \<notin> set port"
    using server by (auto simp: atom_def word_cu_def plain_port_def is_digit_def list_all_iff)
  have at: "index_of (js ''@'') (ui @ 64 # s) = Some (length ui)" for s
    using index_of_first[OF chars(1), of "[]" s] by (simp add: js_def)
  have hash: "index_of (js ''#'') (ui @ 64 # ?r @ frag) = (if frag = [] then None else Some (length (ui @ 64 # ?r)))"
  proof -
    have h: "35 \<notin> set (ui @ 64 # ?r)" using chars srv t by simp
    show ?thesis
    proof (cases "frag = []")
      case True
      then show ?thesis using index_of_none[OF h, of "[]"] by (simp add: js_def)
    next
      case False
      then show ?thesis using frag index_of_first[OF h, of "[]" n] by (simp add: js_def)
    qed
  qed
  have split: "js_split (js ''/?'') ?r = [server @ 58 # port, t]"
  proof -
    have "47 \<notin> set (server @ 58 # port)" using srv by simp
    from js_split_first[OF this, of "[63]" t] have "js_split [47, 63] ?r = (server @ 58 # port) # js_split [47, 63] t"
      by simp
    moreover have "js_split [47, 63] t = [t]" using index_of_none[OF t(2), of "[63]"] by (subst js_split.simps) simp
    ultimately show ?thesis by (simp add: js_def)
  qed
  have host: "js_split (js '':'') (server @ 58 # port) = [server, port]"
    using srv by (simp add: js_def js_split_step js_split_absent)
  have user: "index_of (js '':'') (cipher @ 58 # password) = Some (length cipher)"
    using index_of_first[OF ui(3), of "[]" password] by (simp add: js_def)
  have sip: "ss_sip002 (ui @ 64 # ?r) (length ui) =
      seq [js_if (truthy t) (ss_query_stmt t), put ''server'' server, put ''port'' port,
              put ''password'' password, put ''cipher'' cipher]"
    by (simp add: ss_sip002_def ui(2) bind_try_def fun_eq_iff split user Let_def at_def host)
  have body: "(case index_of (js ''#'') (ui @ 64 # ?r @ frag) of
        Some i \<Rightarrow> if 0 < i then (take i (ui @ 64 # ?r @ frag), drop (i + 1) (ui @ 64 # ?r @ frag)) else (ui @ 64 # ?r @ frag, [])
      | None \<Rightarrow> (ui @ 64 # ?r @ frag, [])) = (ui @ 64 # ?r, n)"
    unfolding hash using cut_fragment[OF _ frag, of "ui @ 64 # ?r"] by (simp only: append_assoc append_Cons append_is_Nil_conv list.distinct simp_thms)
  have "parseSS (ui @ 64 # ?r @ frag) =
    seq [put ''type'' (js ''ss''),
         seq [js_if (truthy t) (ss_query_stmt t), put ''server'' server, put ''port'' port,
              put ''password'' password, put ''cipher'' cipher],
         put_dec_try ''name'' n, ret True]"
    unfolding parseSS_def Let_def at body prod.case option.case sip ..
  then show ?thesis by simp
qed

text \<open>The plugin string and its options.\<close>

lemma plugin_option_pair: "61 \<notin> set k \<Longrightarrow> trimmed k \<Longrightarrow> trimmed v \<Longrightarrow> plugin_option (k @ 61 # v) = Some (k, v)"
  using index_of_first[of 61 k "[]" v] by (simp add: plugin_option_def trim_trimmed)

lemma option_keys:
  "k \<in> set [''obfs'', ''obfs-host'', ''mode'', ''host'', ''path'', ''tls'', ''http'', ''websocket'', ''true''] \<Longrightarrow>
   61 \<notin> set (js k) \<and> 59 \<notin> set (js k) \<and> trimmed (js k)"
  by (simp only: list.set insert_iff empty_iff) (elim disjE FalseE; simp add: js_def trimmed_def is_ws_def)

lemmas option_key_facts = option_keys[of "''obfs''", simplified] option_keys[of "''obfs-host''", simplified]
  option_keys[of "''mode''", simplified] option_keys[of "''host''", simplified] option_keys[of "''path''", simplified]
  option_keys[of "''tls''", simplified] option_keys[of "''http''", simplified] option_keys[of "''websocket''", simplified]
  option_keys[of "''true''", simplified]

definition ss_options :: "page \<Rightarrow> (string \<times> jstr) list" where
  "ss_options pg =
     (let g = getFormValue pg; obfs = g ''obfs'' in
      if obfs = js ''websocket'' then
        [(''mode'', js ''websocket'')] @ (if truthy (g ''host'') then [(''host'', g ''host'')] else [])
          @ (if truthy (g ''path'') then [(''path'', g ''path'')] else []) @ (if is_true (g ''tls'') then [(''tls'', js ''true'')] else [])
      else [(''obfs'', obfs)] @ (if truthy (g ''host'') then [(''obfs-host'', g ''host'')] else []))"

definition ss_plugin_name :: "page \<Rightarrow> jstr" where
  "ss_plugin_name pg = (if getFormValue pg ''obfs'' = js ''websocket'' then js ''v2ray-plugin'' else js ''obfs-local'')"

definition ss_has_plugin :: "page \<Rightarrow> bool" where
  "ss_has_plugin pg \<longleftrightarrow> getFormValue pg ''obfs'' \<in> set (map js [''http'', ''tls'', ''websocket''])"

lemma ss_plugin_options:
  "ss_plugin pg = (if ss_has_plugin pg then
     js_join [59] (ss_plugin_name pg # map (\<lambda>(k, v). js k @ 61 # v) (ss_options pg)) else [])"
proof (cases "getFormValue pg ''obfs'' = js ''websocket''")
  case True
  then show ?thesis
    by (simp add: ss_plugin_def Let_def ss_has_plugin_def ss_options_def ss_plugin_name_def) (simp add: js_def)
next
  case False
  then show ?thesis
    by (auto simp: ss_plugin_def Let_def ss_has_plugin_def ss_options_def ss_plugin_name_def) (simp_all add: js_def)
qed

definition plugin_text_ok :: "page \<Rightarrow> bool" where
  "plugin_text_ok pg \<longleftrightarrow> (\<forall>f\<in>{''host'', ''path''}. 59 \<notin> set (getFormValue pg f) \<and> trimmed (getFormValue pg f))"

lemma options_ok:
  assumes "ss_has_plugin pg" "plugin_text_ok pg"
  shows "\<forall>(k, v)\<in>set (ss_options pg). 61 \<notin> set (js k) \<and> trimmed (js k) \<and> trimmed v \<and> 59 \<notin> set (js k) \<and> 59 \<notin> set v"
proof -
  have t: "59 \<notin> set (getFormValue pg ''host'')" "trimmed (getFormValue pg ''host'')"
    "59 \<notin> set (getFormValue pg ''path'')" "trimmed (getFormValue pg ''path'')"
    using assms(2) by (simp_all add: plugin_text_ok_def)
  show ?thesis
  proof (cases "getFormValue pg ''obfs'' = js ''websocket''")
    case True
    then show ?thesis by (auto simp: ss_options_def Let_def option_key_facts t)
  next
    case False
    with assms(1) have "getFormValue pg ''obfs'' = js ''http'' \<or> getFormValue pg ''obfs'' = js ''tls''"
      by (auto simp: ss_has_plugin_def)
    then show ?thesis using False by (elim disjE) (auto simp: ss_options_def Let_def option_key_facts t)
  qed
qed

lemma plugin_value_options:
  assumes "\<forall>(k, v)\<in>set os. 61 \<notin> set (js k) \<and> trimmed (js k) \<and> trimmed v"
  shows "plugin_value (map (\<lambda>(k, v). js k @ 61 # v) os) key d =
    (case map_of (rev os) key of Some v \<Rightarrow> v | None \<Rightarrow> d)"
  using assms
proof (induction os arbitrary: d)
  case (Cons e os)
  obtain k v where e: "e = (k, v)" by (cases e)
  then have "plugin_option (js k @ 61 # v) = Some (js k, v)" using Cons.prems by (intro plugin_option_pair) auto
  with Cons e show ?case by (auto simp: plugin_value_def map_add_def split: option.splits)
qed (simp add: plugin_value_def)

lemma plugin_names:
  "js ''v2ray-plugin'' \<noteq> js ''obfs-local''" "\<not> js_includes (js ''v2ray-plugin'') (js ''obfs'')"
  by (simp, simp add: js_includes_def js_def starts_with_def)

definition ss_plugin_writes :: "page \<Rightarrow> (string \<times> jstr) list" where
  "ss_plugin_writes pg =
     (let g = getFormValue pg in
      [(''obfs'', g ''obfs'')] @ (if truthy (g ''host'') then [(''host'', g ''host'')] else []) @
      (if g ''obfs'' = js ''websocket''
       then [(''path'', or_else (g ''path'') (js ''/''))] @ (if is_true (g ''tls'') then [(''tls'', js ''true'')] else [])
       else []))"

lemma assigns_cong: "assigns s kvs \<Longrightarrow> kvs = kvs' \<Longrightarrow> assigns s kvs'"
  by simp

lemma ss_plugin_assigns:
  assumes p: "ss_has_plugin pg" "plugin_text_ok pg"
  shows "assigns (ss_plugin_stmt (ss_plugin pg)) (ss_plugin_writes pg)"
proof -
  let ?g = "getFormValue pg"
  note ok = options_ok[OF p]
  have name: "59 \<notin> set (ss_plugin_name pg)" by (simp add: ss_plugin_name_def js_def)
  have "js_split [59] (ss_plugin pg) = ss_plugin_name pg # map (\<lambda>(k, v). js k @ 61 # v) (ss_options pg)"
    unfolding ss_plugin_options using p(1) name ok by (simp del: js_join.simps) (rule js_split_join, auto)
  then have split: "js_split (js '';'') (ss_plugin pg) = ss_plugin_name pg # map (\<lambda>(k, v). js k @ 61 # v) (ss_options pg)"
    by (simp add: js_def)
  have val: "plugin_value (map (\<lambda>(k, v). js k @ 61 # v) (ss_options pg)) key d =
      (case map_of (rev (ss_options pg)) key of Some v \<Rightarrow> v | None \<Rightarrow> d)" for key d
    by (rule plugin_value_options) (use ok in auto)
  show ?thesis
  proof (cases "?g ''obfs'' = js ''websocket''")
    case True
    then have v: "map_of (rev (ss_options pg)) ''host'' = carried (?g ''host'')"
      "map_of (rev (ss_options pg)) ''path'' = carried (?g ''path'')"
      "map_of (rev (ss_options pg)) ''tls'' = (if is_true (?g ''tls'') then Some (js ''true'') else None)"
      by (simp_all add: ss_options_def Let_def carried_def)
    have name: "ss_plugin_name pg = js ''v2ray-plugin''" using True by (simp add: ss_plugin_name_def)
    have dflt: "(case carried x of Some v \<Rightarrow> v | None \<Rightarrow> d) = or_else x d" for x d
      by (simp add: carried_def)
    have tls: "one_or_true (case (if is_true (?g ''tls'') then Some (js ''true'') else None) of Some v \<Rightarrow> v | None \<Rightarrow> [])
        \<longleftrightarrow> is_true (?g ''tls'')"
      by (simp add: one_or_true_def)
    show ?thesis
      unfolding ss_plugin_stmt_def Let_def split list.sel name plugin_names val v dflt tls
      apply (rule assigns_cong)
       apply (rule assigns_intros)+
      apply (simp add: plugin_names ss_plugin_writes_def True Let_def or_else_def)
      done
  next
    case False
    then have v: "map_of (rev (ss_options pg)) ''obfs'' = Some (?g ''obfs'')"
      "map_of (rev (ss_options pg)) ''obfs-host'' = carried (?g ''host'')"
      by (simp_all add: ss_options_def Let_def carried_def)
    have name: "ss_plugin_name pg = js ''obfs-local''" using False by (simp add: ss_plugin_name_def)
    have dflt: "(case carried x of Some v \<Rightarrow> v | None \<Rightarrow> d) = or_else x d" for x d
      by (simp add: carried_def)
    show ?thesis
      unfolding ss_plugin_stmt_def Let_def split list.sel name val v dflt option.case
      apply (rule assigns_cong)
       apply (rule assigns_intros)+
      apply (simp add: ss_plugin_writes_def False Let_def or_else_def)
      done
  qed
qed

definition ss_ready :: "page \<Rightarrow> bool" where
  "ss_ready pg \<longleftrightarrow>
     (let g = getFormValue pg in
      truthy (g ''server'') \<and> atom (g ''server'') \<and> plain_port (g ''port'') \<and>
      truthy (g ''cipher'') \<and> list_all is_byte (g ''cipher'') \<and> 58 \<notin> set (g ''cipher'') \<and>
      truthy (g ''password'') \<and> list_all is_byte (g ''password'') \<and>
      (\<forall>f\<in>set [''name'', ''host'', ''path'']. well_formed (g f)) \<and> plugin_text_ok pg \<and>
      parseOtherParameters (g ''other_parameters'') = [])"

definition ss_query :: "page \<Rightarrow> (bool \<times> string \<times> jstr) list" where
  "ss_query pg =
     [(truthy (ss_plugin pg), ''plugin'', ss_plugin pg), (is_true (getFormValue pg ''udp_over_tcp''), ''uot'', js ''1'')]"

lemma ss_plugin_well_formed:
  assumes "well_formed (getFormValue pg ''host'')" "well_formed (getFormValue pg ''path'')"
  shows "well_formed (ss_plugin pg)"
proof -
  let ?g = "getFormValue pg"
  have one: "well_formed [61]" "well_formed [59]" by (rule well_formed_ascii, simp)+
  have opts: "\<forall>(k, v)\<in>set (ss_options pg). well_formed v" if "ss_has_plugin pg"
    using that assms by (auto simp: ss_options_def Let_def ss_has_plugin_def)
  have "well_formed (js k @ [61] @ v)" if "well_formed v" for k v
    using that one by (intro well_formed_append) auto
  then have "\<forall>x\<in>set (map (\<lambda>(k, v). js k @ 61 # v) (ss_options pg)). well_formed x" if "ss_has_plugin pg"
    using opts[OF that] by fastforce
  then show ?thesis unfolding ss_plugin_options using one
    by (auto simp del: js_join.simps set_map simp: ss_plugin_name_def intro!: js_join_well_formed)
qed

lemma truthy_plugin: "truthy (ss_plugin pg) \<longleftrightarrow> ss_has_plugin pg"
  by (cases "ss_options pg") (auto simp: ss_plugin_options ss_plugin_name_def)

lemma ss_query_assigns:
  assumes q: "parseQuery (63 # t) = Some q" "holds_query (ss_query pg) q" and good: "good_entries (ss_query pg)"
    and p: "plugin_text_ok pg"
  shows "assigns (ss_query_stmt t)
    ((if ss_has_plugin pg then ss_plugin_writes pg else []) @
     (if is_true (getFormValue pg ''udp_over_tcp'') then [(''udp_over_tcp'', js ''true'')] else []) @ [])"
proof -
  have wf: "ss_has_plugin pg \<Longrightarrow> well_formed (ss_plugin pg)"
    using good by (simp add: good_entries_def ss_query_def truthy_plugin)
  have plug: "getq q ''plugin'' = (if ss_has_plugin pg then enc (ss_plugin pg) else [])"
    and uot: "getq q ''uot'' = (if is_true (getFormValue pg ''udp_over_tcp'') then js ''1'' else [])"
    using q(2) by (simp_all add: holds_query_def ss_query_def truthy_plugin)
  have "getq q ''udp-over-tcp'' = []" by (rule getq_other[OF q(2)]) (simp add: ss_query_def keys_of_def)
  then have cond: "truthy (getq q ''plugin'') = ss_has_plugin pg"
    "(getq q ''udp-over-tcp'' = js ''true'' \<or> getq q ''uot'' = js ''1'') = is_true (getFormValue pg ''udp_over_tcp'')"
    using plug uot wf by (auto simp: truthy_enc truthy_plugin)
  have unk: "collectUnknownQueryParams q [''plugin'', ''udp-over-tcp'', ''uot''] = Some []"
    by (rule collect_held[OF q(2)]) (simp add: ss_query_def keys_of_def)
  have plugin: "assigns (bind_try (decodeURIComponent (getq q ''plugin'')) ss_plugin_stmt) (ss_plugin_writes pg)"
    if "ss_has_plugin pg"
    using that wf plug by (intro assigns_bind[where v = "ss_plugin pg"] ss_plugin_assigns p) (simp add: dec_enc)
  have "parseQuery (js ''?'' @ t) = Some q" using q(1) by (simp add: js_def)
  then show ?thesis unfolding ss_query_stmt_def Let_def
    apply (rule assigns_bind)
    apply (unfold cond)
    apply (rule plugin assigns_intros assigns_end unk | assumption)+
    done
qed

lemma ss_export_import:
  assumes ready: "ss_ready pg"
  defines "g \<equiv> getFormValue pg"
  shows "\<exists>rest kvs. exportSS pg = Some (Some (js ''ss://'' @ rest)) \<and> \<not> js_includes rest (js ''://'') \<and>
    finishes (parseSS rest) kvs \<and>
    (last_write kvs ''type'' = Some (js ''ss'') \<and>
     (\<forall>f\<in>{''server'', ''port'', ''cipher'', ''password''}. last_write kvs f = Some (g f)) \<and>
     last_write kvs ''name'' = carried (g ''name'') \<and>
     last_write kvs ''udp_over_tcp'' = (if is_true (g ''udp_over_tcp'') then Some (js ''true'') else None) \<and>
     last_write kvs ''obfs'' = (if ss_has_plugin pg then Some (g ''obfs'') else None) \<and>
     last_write kvs ''host'' = (if ss_has_plugin pg then carried (g ''host'') else None) \<and>
     last_write kvs ''path'' = (if g ''obfs'' = js ''websocket'' then Some (or_else (g ''path'') (js ''/'')) else None) \<and>
     last_write kvs ''tls'' = (if g ''obfs'' = js ''websocket'' \<and> is_true (g ''tls'') then Some (js ''true'') else None))"
proof -
  note r = ready[unfolded ss_ready_def Let_def, folded g_def]
  have wf: "well_formed (g ''name'')" "well_formed (g ''host'')" "well_formed (g ''path'')" using r by auto
  have good: "good_entries (ss_query pg)"
    using ss_plugin_well_formed[of pg] wf by (simp add: good_entries_def ss_query_def keys_of_def ascii_key_def g_def)
  have other: "parseOtherParameters (getFormValue pg ''other_parameters'') = []" using r by (simp add: g_def)
  obtain t q where t: "print_query pg (ss_query pg) [] = Some t" "35 \<notin> set t" "parseQuery (63 # t) = Some q"
    "callable_has_own q" "set (map fst q) \<subseteq> js ` set (keys_of (filter fst (ss_query pg)))"
    "\<forall>(c, k, v)\<in>set (ss_query pg). getq q k = (if c then enc v else [])" "ss_query pg = [] \<longrightarrow> t = []"
    by (rule print_query_parse[OF good other, where km = "[]"])
  have held: "holds_query (ss_query pg) q" using t(4-6) by (simp add: holds_query_def)
  have tc: "47 \<notin> set t" "58 \<notin> set t"
    using print_query_chars[OF good other t(1), of 47] print_query_chars[OF good other t(1), of 58]
    by (auto simp: uri_safe_def unreserved_def alnum_def)
  have bytes: "list_all is_byte (g ''cipher'' @ 58 # g ''password'')" using r by (simp add: is_byte_def)
  obtain ui where ui: "b64encsafe (g ''cipher'' @ 58 # g ''password'') = Some ui"
    "b64decsafe ui = Some (g ''cipher'' @ 58 # g ''password'')" "\<forall>c\<in>set ui. unreserved c"
    using b64_field[OF bytes] by blast
  have p: "plugin_text_ok pg" using r by (simp add: g_def)
  let ?frag = "name_frag (g ''name'')" and ?n = "if truthy (g ''name'') then enc (g ''name'') else []"
  let ?rest = "ui @ 64 # g ''server'' @ 58 # g ''port'' @ 47 # 63 # t @ ?frag"
  have "g ''port'' \<noteq> []" "48 \<le> hd (g ''port'')" "58 \<notin> set (g ''port'')"
    using r by (auto simp: plain_port_def list_all_iff is_digit_def)
  moreover have "58 \<notin> set ui" "58 \<notin> set (g ''server'')" using ui(3) unreserved_byte r
    by (auto simp: atom_def list_all_iff word_cu_def)
  moreover have "58 \<notin> set ?frag" using enc_safe[OF wf(1), of 58] uri_safe_word[of 58] by (auto simp: name_frag_def word_cu_def)
  ultimately have colon: "\<not> js_includes ?rest (js ''://'')"
    using index_of_skip[of 58 "ui @ 64 # g ''server''" "[47, 47]" "58 # g ''port'' @ 47 # 63 # t @ ?frag"] tc
      index_of_none[of 58 "g ''port'' @ 47 # 63 # t @ ?frag" "[47, 47]"]
    by (cases "g ''port''") (auto simp: js_includes_def js_def starts_with_def)
  have ex: "exportSS pg = Some (Some (js ''ss://'' @ ?rest))"
    using r t(1) ui(1) name_part_parts(1)[OF wf(1)] plain_port_facts(1)[of "g ''port''"]
    by (simp add: exportSS_def g_def[symmetric] Let_def ss_query_def js_def name_frag_def)
  have parse: "parseSS ?rest = seq [put ''type'' (js ''ss''),
         seq [js_if (truthy t) (ss_query_stmt t), put ''server'' (g ''server''), put ''port'' (g ''port''),
              put ''password'' (g ''password''), put ''cipher'' (g ''cipher'')],
         put_dec_try ''name'' ?n, ret True]"
    using r t(2) tc(1) by (intro parseSS_text ui) (auto simp: name_frag_def)
  have dec: "decodeURIComponent ?n = Some (decodeURIComponentSafe ?n)"
    using wf(1) by (simp add: dec_enc decode_uri_id decodeURIComponentSafe_def)
  have empty_q: "truthy t \<or> (\<not> ss_has_plugin pg \<and> \<not> is_true (g ''udp_over_tcp''))"
  proof (rule ccontr)
    assume n: "\<not> ?thesis"
    then have "q = []" using t(3) by (simp add: truthy_def parseQuery_def)
    then have "getq q k = []" for k by (simp add: getq_def)
    moreover have "ss_has_plugin pg \<Longrightarrow> enc (ss_plugin pg) \<noteq> []"
      using truthy_enc[OF ss_plugin_well_formed[of pg]] truthy_plugin[of pg] wf by (simp add: truthy_def g_def)
    ultimately show False using n t(6) by (auto simp: ss_query_def g_def truthy_plugin split: if_splits)
  qed
  have ws: "g ''obfs'' = js ''websocket'' \<Longrightarrow> ss_has_plugin pg" by (simp add: ss_has_plugin_def g_def)
  have "\<exists>kvs. finishes (parseSS ?rest) kvs \<and>
    (last_write kvs ''type'' = Some (js ''ss'') \<and>
     (\<forall>f\<in>{''server'', ''port'', ''cipher'', ''password''}. last_write kvs f = Some (g f)) \<and>
     last_write kvs ''name'' = carried (g ''name'') \<and>
     last_write kvs ''udp_over_tcp'' = (if is_true (g ''udp_over_tcp'') then Some (js ''true'') else None) \<and>
     last_write kvs ''obfs'' = (if ss_has_plugin pg then Some (g ''obfs'') else None) \<and>
     last_write kvs ''host'' = (if ss_has_plugin pg then carried (g ''host'') else None) \<and>
     last_write kvs ''path'' = (if g ''obfs'' = js ''websocket'' then Some (or_else (g ''path'') (js ''/'')) else None) \<and>
     last_write kvs ''tls'' = (if g ''obfs'' = js ''websocket'' \<and> is_true (g ''tls'') then Some (js ''true'') else None))"
    unfolding parse
    apply (rule exI, rule conjI)
     apply (rule finishes_ret ss_query_assigns[OF t(3) held good p] assigns_intros dec)+
    apply (simp only: ball_simps)
    apply (intro conjI)
    apply (simp_all only: write_simps list.distinct ss_plugin_writes_def Let_def g_def[symmetric] carried_def)
         apply (use empty_q wf ws in \<open>auto simp: truthy_enc decodeURIComponentSafe_def dec_enc\<close>)
    done
  with ex colon show ?thesis by blast
qed

end
