(* ===== verification/Link_Claims.thy ===== *)
theory Link_Claims
  imports Import_Result Round_Trip_Hysteria Round_Trip_Proxy Round_Trip_Tls Round_Trip_Vmess Round_Trip_Shadowsocks
begin

text \<open>
  The round trips of whole pages: a link exported from one page and imported by
  \<open>import_url\<close> into another, protocol by protocol, on pages whose every field is one text
  element or checkbox. A field of the target page holds what its element keeps of the exported value
  (\<open>kept_text\<close>), a checkbox is also ticked or not (\<open>ticked\<close>); a field the
  link does not carry keeps its old value.
\<close>

section \<open>The scheme of every exported link\<close>

lemma link_schemes:
  "exportSS pg = Some (Some link) \<Longrightarrow> \<exists>r. link = js ''ss'' @ js ''://'' @ r"
  "exportSSR pg = Some (Some link) \<Longrightarrow> \<exists>r. link = js ''ssr'' @ js ''://'' @ r"
  "exportVmess pg = Some (Some link) \<Longrightarrow> \<exists>r. link = js ''vmess'' @ js ''://'' @ r"
  "exportVless pg = Some (Some link) \<Longrightarrow> \<exists>r. link = js ''vless'' @ js ''://'' @ r"
  "exportTrojan pg = Some (Some link) \<Longrightarrow> \<exists>r. link = js ''trojan'' @ js ''://'' @ r"
  "exportHysteria pg = Some (Some link) \<Longrightarrow> \<exists>r. link = js ''hysteria'' @ js ''://'' @ r"
  "exportHysteria2 pg = Some (Some link) \<Longrightarrow> \<exists>r. link = js ''hysteria2'' @ js ''://'' @ r"
  "exportTuic pg = Some (Some link) \<Longrightarrow> \<exists>r. link = js ''tuic'' @ js ''://'' @ r"
  "exportSocks pg = Some (Some link) \<Longrightarrow> \<exists>r. link = js ''socks5'' @ js ''://'' @ r"
  "exportHttp pg = Some (Some link) \<Longrightarrow> \<exists>r. link = js ''http'' @ js ''://'' @ r \<or> link = js ''https'' @ js ''://'' @ r"
  "exportAnyTLS pg = Some (Some link) \<Longrightarrow> \<exists>r. link = js ''anytls'' @ js ''://'' @ r"
  "exportMieru pg = Some (Some link) \<Longrightarrow> \<exists>r. link = js ''mierus'' @ js ''://'' @ r"
  by (auto simp: exportSS_def exportSSR_def exportVmess_def exportVless_def exportTrojan_def exportHysteria_def
      exportHysteria2_def exportTuic_def exportSocks_def exportHttp_def exportAnyTLS_def exportMieru_def
      Let_def js_def split: if_splits bind_splits prod.splits)

text \<open>The import function the whole link is given to.\<close>

lemma link_imported:
  assumes tgt: "text_page tgt" "status tgt \<noteq> None"
    and shape: "\<exists>r. link = sch @ js ''://'' @ r" and sch: "58 \<notin> set sch"
    and stmt: "\<And>ssu. hd ssu = sch \<Longrightarrow> import_stmt ns nu ssu link = Some s" and fin: "finishes s kvs"
  shows "imported tgt (import_url ns nu (Some link) tgt) (last_write kvs)"
proof -
  obtain r where r: "link = sch @ js ''://'' @ r" using shape by blast
  show ?thesis using scheme_split[OF r sch] stmt by (intro import_written[OF tgt _ _ _ fin]) simp_all
qed

lemma page_imports:
  assumes "text_page tgt" "status tgt \<noteq> None"
  shows
    "exportVless pg = Some (Some link) \<Longrightarrow> finishes (parseVless nu link) kvs \<Longrightarrow> imported tgt (import_url ns nu (Some link) tgt) (last_write kvs)"
    "exportTrojan pg = Some (Some link) \<Longrightarrow> finishes (parseTrojan nu link) kvs \<Longrightarrow> imported tgt (import_url ns nu (Some link) tgt) (last_write kvs)"
    "exportHysteria pg = Some (Some link) \<Longrightarrow> finishes (parseHysteria nu link) kvs \<Longrightarrow> imported tgt (import_url ns nu (Some link) tgt) (last_write kvs)"
    "exportHysteria2 pg = Some (Some link) \<Longrightarrow> finishes (parseHysteria2 nu link) kvs \<Longrightarrow> imported tgt (import_url ns nu (Some link) tgt) (last_write kvs)"
    "exportTuic pg = Some (Some link) \<Longrightarrow> finishes (parseTuic nu link) kvs \<Longrightarrow> imported tgt (import_url ns nu (Some link) tgt) (last_write kvs)"
    "exportSocks pg = Some (Some link) \<Longrightarrow> finishes (parseSocks nu link) kvs \<Longrightarrow> imported tgt (import_url ns nu (Some link) tgt) (last_write kvs)"
    "exportAnyTLS pg = Some (Some link) \<Longrightarrow> finishes (parseAnyTLS nu link) kvs \<Longrightarrow> imported tgt (import_url ns nu (Some link) tgt) (last_write kvs)"
    "exportMieru pg = Some (Some link) \<Longrightarrow> finishes (parseMieru nu link) kvs \<Longrightarrow> imported tgt (import_url ns nu (Some link) tgt) (last_write kvs)"
proof -
  show "imported tgt (import_url ns nu (Some link) tgt) (last_write kvs)"
    if "exportVless pg = Some (Some link)" "finishes (parseVless nu link) kvs"
    by (rule link_imported[OF assms link_schemes(4)[OF that(1)] _ _ that(2)]) (simp_all add: scheme_no_colon import_stmt_simps)
  show "imported tgt (import_url ns nu (Some link) tgt) (last_write kvs)"
    if "exportTrojan pg = Some (Some link)" "finishes (parseTrojan nu link) kvs"
    by (rule link_imported[OF assms link_schemes(5)[OF that(1)] _ _ that(2)]) (simp_all add: scheme_no_colon import_stmt_simps)
  show "imported tgt (import_url ns nu (Some link) tgt) (last_write kvs)"
    if "exportHysteria pg = Some (Some link)" "finishes (parseHysteria nu link) kvs"
    by (rule link_imported[OF assms link_schemes(6)[OF that(1)] _ _ that(2)]) (simp_all add: scheme_no_colon import_stmt_simps)
  show "imported tgt (import_url ns nu (Some link) tgt) (last_write kvs)"
    if "exportHysteria2 pg = Some (Some link)" "finishes (parseHysteria2 nu link) kvs"
    by (rule link_imported[OF assms link_schemes(7)[OF that(1)] _ _ that(2)]) (simp_all add: scheme_no_colon import_stmt_simps)
  show "imported tgt (import_url ns nu (Some link) tgt) (last_write kvs)"
    if "exportTuic pg = Some (Some link)" "finishes (parseTuic nu link) kvs"
    by (rule link_imported[OF assms link_schemes(8)[OF that(1)] _ _ that(2)]) (simp_all add: scheme_no_colon import_stmt_simps)
  show "imported tgt (import_url ns nu (Some link) tgt) (last_write kvs)"
    if "exportSocks pg = Some (Some link)" "finishes (parseSocks nu link) kvs"
    by (rule link_imported[OF assms link_schemes(9)[OF that(1)] _ _ that(2)]) (simp_all add: scheme_no_colon import_stmt_simps)
  show "imported tgt (import_url ns nu (Some link) tgt) (last_write kvs)"
    if "exportAnyTLS pg = Some (Some link)" "finishes (parseAnyTLS nu link) kvs"
    by (rule link_imported[OF assms link_schemes(11)[OF that(1)] _ _ that(2)]) (simp_all add: scheme_no_colon import_stmt_simps)
  show "imported tgt (import_url ns nu (Some link) tgt) (last_write kvs)"
    if "exportMieru pg = Some (Some link)" "finishes (parseMieru nu link) kvs"
    by (rule link_imported[OF assms link_schemes(12)[OF that(1)] _ _ that(2)]) (simp_all add: scheme_no_colon import_stmt_simps)
qed

lemma http_imported:
  assumes "text_page tgt" "status tgt \<noteq> None" "exportHttp pg = Some (Some link)" "finishes (parseHttp nu link) kvs"
  shows "imported tgt (import_url ns nu (Some link) tgt) (last_write kvs)"
proof -
  obtain r where "link = js ''http'' @ js ''://'' @ r \<or> link = js ''https'' @ js ''://'' @ r"
    using link_schemes(10)[OF assms(3)] by blast
  then show ?thesis
  proof
    assume "link = js ''http'' @ js ''://'' @ r"
    then show ?thesis
      by (intro link_imported[OF assms(1,2) _ _ _ assms(4), where sch = "js ''http''"])
        (auto simp: scheme_no_colon import_stmt_simps)
  next
    assume "link = js ''https'' @ js ''://'' @ r"
    then show ?thesis
      by (intro link_imported[OF assms(1,2) _ _ _ assms(4), where sch = "js ''https''"])
        (auto simp: scheme_no_colon import_stmt_simps)
  qed
qed

text \<open>The formats that are not URLs get what follows the scheme.\<close>

lemma part_imported:
  assumes tgt: "text_page tgt" "status tgt \<noteq> None"
    and rest: "\<not> js_includes rest (js ''://'')" and sch: "58 \<notin> set sch"
    and stmt: "\<And>ssu link. hd ssu = sch \<Longrightarrow> ssu ! 1 = rest \<Longrightarrow> import_stmt ns nu ssu link = Some s"
    and fin: "finishes s kvs"
  shows "imported tgt (import_url ns nu (Some (sch @ js ''://'' @ rest)) tgt) (last_write kvs)"
proof -
  have "js_split (js ''://'') rest = [rest]" using rest by (subst js_split.simps) (simp add: js_includes_def)
  with scheme_split[OF refl sch, of rest] stmt show ?thesis by (intro import_written[OF tgt _ _ _ fin]) simp_all
qed

lemma no_colon_part: "58 \<notin> set rest \<Longrightarrow> \<not> js_includes rest (js ''://'')"
  using index_of_none[of 58 rest "[47, 47]"] by (simp add: js_includes_def js_def)

lemma b64_no_colon:
  assumes "units s" "b64EncodeUnicode s = Some t"
  shows "58 \<notin> set t"
proof -
  from assms obtain ps where b: "list_all is_byte (concat (map utf8 ps))" "btoa (concat (map utf8 ps)) = Some t"
    by (rule b64EncodeUnicode_eq)
  then have "c \<in> set t \<Longrightarrow> c = 61 \<or> c = 43 \<or> c = 47 \<or> alnum c" for c
    using b64_text_chars[OF b(1), of c] b(2) by (auto simp: btoa_bytes[OF b(1)])
  then show ?thesis by (fastforce simp: alnum_def)
qed

lemma vmess_body_chars:
  assumes "vmess_ready pg" "exportVmess pg = Some (Some (js ''vmess://'' @ body))"
  shows "58 \<notin> set body"
proof -
  let ?q = "query_of (vmess_info pg)"
  have "\<forall>(c, k, v)\<in>set (vmess_info pg). c \<longrightarrow> units v"
    using assms(1)
    by (simp add: vmess_info_def Let_def vmess_ready_def vmess_fields_def units_js or_else_def units_host_header)
  from json_stringify_well_formed[OF query_of_entries(2)[OF this]] have "units (json_stringify ?q)"
    by (simp add: well_formed_def)
  moreover have "b64EncodeUnicode (json_stringify ?q) = Some body"
    using assms by (auto simp: exportVmess_def vmess_ready_def Let_def mergeOtherParametersToQuery_def
        merge_entries_def own_entries_def split: bind_splits)
  ultimately show ?thesis by (rule b64_no_colon)
qed

lemma part_imports:
  assumes "text_page tgt" "status tgt \<noteq> None"
  shows "\<not> js_includes rest (js ''://'') \<Longrightarrow> finishes (parseSS rest) kvs \<Longrightarrow>
      imported tgt (import_url ns nu (Some (js ''ss://'' @ rest)) tgt) (last_write kvs)"
    "58 \<notin> set rest \<Longrightarrow> finishes (parseSSR rest) kvs \<Longrightarrow>
      imported tgt (import_url ns nu (Some (js ''ssr://'' @ rest)) tgt) (last_write kvs)"
    "58 \<notin> set rest \<Longrightarrow> finishes (parseVmess ns nu rest) kvs \<Longrightarrow>
      imported tgt (import_url ns nu (Some (js ''vmess://'' @ rest)) tgt) (last_write kvs)"
proof -
  have link: "js ''ss'' @ js ''://'' @ rest = js ''ss://'' @ rest" "js ''ssr'' @ js ''://'' @ rest = js ''ssr://'' @ rest"
    "js ''vmess'' @ js ''://'' @ rest = js ''vmess://'' @ rest"
    by (simp_all add: js_def)
  show "\<not> js_includes rest (js ''://'') \<Longrightarrow> finishes (parseSS rest) kvs \<Longrightarrow>
      imported tgt (import_url ns nu (Some (js ''ss://'' @ rest)) tgt) (last_write kvs)"
    unfolding link(1)[symmetric] by (rule part_imported[OF assms]) (simp_all add: scheme_no_colon import_stmt_simps)
  show "58 \<notin> set rest \<Longrightarrow> finishes (parseSSR rest) kvs \<Longrightarrow>
      imported tgt (import_url ns nu (Some (js ''ssr://'' @ rest)) tgt) (last_write kvs)"
    unfolding link(2)[symmetric]
    by (rule part_imported[OF assms no_colon_part]) (simp_all add: scheme_no_colon import_stmt_simps)
  show "58 \<notin> set rest \<Longrightarrow> finishes (parseVmess ns nu rest) kvs \<Longrightarrow>
      imported tgt (import_url ns nu (Some (js ''vmess://'' @ rest)) tgt) (last_write kvs)"
    unfolding link(3)[symmetric]
    by (rule part_imported[OF assms no_colon_part]) (simp_all add: scheme_no_colon import_stmt_simps)
qed

section \<open>A page of text fields\<close>

definition text_input :: "jstr \<Rightarrow> element" where
  "text_input v = \<lparr>ekind = Plain, etag = js ''input'', etype = js ''text'', evalue = v, echecked = False, cm_next = None,
     cm_parent = None, keeps = (\<lambda>x. x), cm_keeps = (\<lambda>x. x), in_list = False, ecombo = None\<rparr>"

definition form_page :: "(string \<times> string) list \<Rightarrow> page" where
  "form_page kvs = \<lparr>controls = (\<lambda>f. \<lparr>els = [text_input (case map_of kvs f of Some v \<Rightarrow> js v | None \<Rightarrow> [])], buttons = None\<rparr>),
     timers = [], trace = [], importing = None, status = Some ('''', [])\<rparr>"

lemma form_page_facts:
  "text_page (form_page kvs)" "status (form_page kvs) \<noteq> None"
  "getFormValue (form_page kvs) f = (case map_of kvs f of Some v \<Rightarrow> js v | None \<Rightarrow> [])"
  "kept_text (form_page kvs) f v = v"
proof -
  have e: "text_element (text_input v)" "\<not> checkbox (text_input v)" "getElementValue (text_input v) = v" "getCodeMirrorInstance (text_input v) = None" for v
    by (simp_all add: text_element_def checkbox_def text_input_def getElementValue_def getCodeMirrorInstance_def js_def to_lower_def lower_cu_def)
  have c: "controls (form_page kvs) f = \<lparr>els = [text_input (case map_of kvs f of Some v \<Rightarrow> js v | None \<Rightarrow> [])], buttons = None\<rparr>" for f
    by (simp add: form_page_def)
  then have t: "text_control (controls (form_page kvs) f)" for f using e by (simp add: text_control_def)
  then show "text_page (form_page kvs)" by (simp add: text_page_def)
  show "status (form_page kvs) \<noteq> None" by (simp add: form_page_def)
  show "getFormValue (form_page kvs) f = (case map_of kvs f of Some v \<Rightarrow> js v | None \<Rightarrow> [])"
    using text_elements(2,3)[OF t] e c by (simp add: getFormValue_def Let_def)
  show "kept_text (form_page kvs) f v = v"
    using e by (simp add: kept_text_def kept_element_def c) (simp add: text_input_def)
qed

lemma no_parameters: "parseOtherParameters [] = []"
  by (simp add: parseOtherParameters_def text_lines_def js_split_absent key_line_def)

lemma sample_words: "atom (js ''a.example'')" "atom (js ''u-1'')" "plain_port (js ''8443'')" "37 \<notin> set (js ''u-1'')"
  "37 \<notin> set (js ''node 1'')" "stable (js ''node 1'')"
  by (auto simp: atom_def js_def word_cu_def plain_port_def is_digit_def intro!: stable_no_percent)

lemma bytes_js: "list_all is_byte (js k)"
  using js_range by (fastforce simp: list_all_iff is_byte_def)

lemma sample_parts: "58 \<notin> set (js ''rc4'')" "59 \<notin> set (js ''h.example'')" "trimmed (js ''h.example'')" "trimmed []"
  "ssr_atom (js ''a.example'')" "ssr_atom (js ''8443'')" "ssr_atom (js ''origin'')" "ssr_atom (js ''rc4'')" "ssr_atom (js ''plain'')"
  "list_all is_digit (js ''100'')" "list_all is_digit (js ''200'')" "list_all unreserved (js ''udp'')"
  by (simp_all add: js_def trimmed_def is_ws_def ssr_atom_def is_byte_def is_digit_def unreserved_def alnum_def)

section \<open>Shadowsocks\<close>

text \<open>C11: importing the link exported for a Shadowsocks node.\<close>

theorem ss_link_roundtrip:
  assumes "ss_ready pg"
    and "text_page tgt" "status tgt \<noteq> None"
  shows "\<exists>link. exportSS pg = Some (Some link) \<and>
    (let new = import_url num_str new_url (Some link) tgt; g = getFormValue pg
     in status new = Some import_ok \<and> importing new = None \<and>
        getFormValue new ''type'' = kept_text tgt ''type'' (js ''ss'') \<and>
        getFormValue new ''server'' = kept_text tgt ''server'' (g ''server'') \<and>
        getFormValue new ''port'' = kept_text tgt ''port'' (g ''port'') \<and>
        getFormValue new ''cipher'' = kept_text tgt ''cipher'' (g ''cipher'') \<and>
        getFormValue new ''password'' = kept_text tgt ''password'' (g ''password'') \<and>
        getFormValue new ''name'' = form_after tgt ''name'' (carried (g ''name'')) \<and>
        getFormValue new ''udp_over_tcp'' =
          form_after tgt ''udp_over_tcp'' (if is_true (g ''udp_over_tcp'') then Some (js ''true'') else None) \<and>
        getFormValue new ''obfs'' = form_after tgt ''obfs'' (if ss_has_plugin pg then Some (g ''obfs'') else None) \<and>
        getFormValue new ''host'' =
          form_after tgt ''host'' (if ss_has_plugin pg then carried (g ''host'') else None) \<and>
        getFormValue new ''path'' =
          form_after tgt ''path'' (if g ''obfs'' = js ''websocket'' then Some (or_else (g ''path'') (js ''/'')) else None) \<and>
        getFormValue new ''tls'' =
          form_after tgt ''tls'' (if g ''obfs'' = js ''websocket'' \<and> is_true (g ''tls'') then Some (js ''true'') else None))"
  by (insert ss_export_import[OF assms(1)], elim exE conjE)
    (frule (1) part_imports(1)[OF assms(2,3), where ns = num_str and nu = new_url],
      simp add: imported_def Let_def form_after_def)

theorem ss_link_roundtrip_witness:
  "\<exists>link. exportSS (form_page [(''server'', ''a.example''), (''port'', ''8443''), (''name'', ''node 1''), (''cipher'', ''rc4''), (''password'', ''p:w''), (''obfs'', ''http''), (''host'', ''h.example'')]) = Some (Some link) \<and>
    (let new = import_url (\<lambda>t. t) (\<lambda>s. None) (Some link) (form_page [])
     in getFormValue new ''cipher'' = js ''rc4'' \<and>
        getFormValue new ''password'' = js ''p:w'' \<and>
        getFormValue new ''host'' = js ''h.example'')"
  using ss_link_roundtrip[of "form_page [(''server'', ''a.example''), (''port'', ''8443''), (''name'', ''node 1''), (''cipher'', ''rc4''), (''password'', ''p:w''), (''obfs'', ''http''), (''host'', ''h.example'')]" "form_page []" "\<lambda>t. t" "\<lambda>s. None"]
  by (auto simp: exportable_def  ss_ready_def plugin_text_ok_def bytes_js sample_parts ss_has_plugin_def form_page_facts sample_words no_parameters Let_def
      form_after_def carried_def is_true_def)

section \<open>ShadowsocksR\<close>

text \<open>C26: importing the link exported for a ShadowsocksR node.\<close>

theorem ssr_link_roundtrip:
  assumes "ssr_ready pg"
    and "text_page tgt" "status tgt \<noteq> None"
  shows "\<exists>link. exportSSR pg = Some (Some link) \<and>
    (let new = import_url num_str new_url (Some link) tgt; g = getFormValue pg
     in status new = Some import_ok \<and> importing new = None \<and>
        getFormValue new ''type'' = kept_text tgt ''type'' (js ''ssr'') \<and>
        getFormValue new ''server'' = kept_text tgt ''server'' (g ''server'') \<and>
        getFormValue new ''port'' = kept_text tgt ''port'' (g ''port'') \<and>
        getFormValue new ''protocol'' = kept_text tgt ''protocol'' (g ''protocol'') \<and>
        getFormValue new ''cipher'' = kept_text tgt ''cipher'' (g ''cipher'') \<and>
        getFormValue new ''obfs_ssr'' = kept_text tgt ''obfs_ssr'' (g ''obfs_ssr'') \<and>
        getFormValue new ''password'' = kept_text tgt ''password'' (g ''password'') \<and>
        getFormValue new ''obfs_param'' = form_after tgt ''obfs_param'' (carried (g ''obfs_param'')) \<and>
        getFormValue new ''protocol_param'' = form_after tgt ''protocol_param'' (carried (g ''protocol_param'')) \<and>
        getFormValue new ''name'' = form_after tgt ''name'' (carried (g ''name'')))"
  by (insert ssr_export_import[OF assms(1)], elim exE conjE)
    (frule (1) part_imports(2)[OF assms(2,3), where ns = num_str and nu = new_url],
      simp add: imported_def Let_def form_after_def)

theorem ssr_link_roundtrip_witness:
  "\<exists>link. exportSSR (form_page [(''server'', ''a.example''), (''port'', ''8443''), (''name'', ''node 1''), (''cipher'', ''rc4''), (''password'', ''p:w''), (''protocol'', ''origin''), (''obfs_ssr'', ''plain''), (''obfs_param'', ''x'')]) = Some (Some link) \<and>
    (let new = import_url (\<lambda>t. t) (\<lambda>s. None) (Some link) (form_page [])
     in getFormValue new ''protocol'' = js ''origin'' \<and>
        getFormValue new ''password'' = js ''p:w'' \<and>
        getFormValue new ''obfs_param'' = js ''x'')"
  using ssr_link_roundtrip[of "form_page [(''server'', ''a.example''), (''port'', ''8443''), (''name'', ''node 1''), (''cipher'', ''rc4''), (''password'', ''p:w''), (''protocol'', ''origin''), (''obfs_ssr'', ''plain''), (''obfs_param'', ''x'')]" "form_page []" "\<lambda>t. t" "\<lambda>s. None"]
  by (auto simp: exportable_def  ssr_ready_def bytes_js sample_parts form_page_facts sample_words no_parameters Let_def
      form_after_def carried_def is_true_def)

section \<open>VMess\<close>

text \<open>C1: importing the link exported for a VMess node.\<close>

theorem vmess_link_roundtrip:
  assumes "vmess_ready pg"
    and "text_page tgt" "status tgt \<noteq> None"
  shows "\<exists>link. exportVmess pg = Some (Some link) \<and>
    (let new = import_url num_str new_url (Some link) tgt; g = getFormValue pg
     in status new = Some import_ok \<and> importing new = None \<and>
        getFormValue new ''type'' = kept_text tgt ''type'' (js ''vmess'') \<and>
        getFormValue new ''server'' = kept_text tgt ''server'' (g ''server'') \<and>
        getFormValue new ''port'' = kept_text tgt ''port'' (g ''port'') \<and>
        getFormValue new ''uuid'' = kept_text tgt ''uuid'' (g ''uuid'') \<and>
        getFormValue new ''name'' = kept_text tgt ''name'' (g ''name'') \<and>
        getFormValue new ''alterId'' = kept_text tgt ''alterId'' (or_else (g ''alterId'') (js ''0'')) \<and>
        getFormValue new ''cipher'' = kept_text tgt ''cipher'' (or_else (g ''cipher'') (js ''auto'')) \<and>
        getFormValue new ''tls'' = form_after tgt ''tls'' (if is_true (g ''tls'') then Some (js ''true'') else None) \<and>
        getFormValue new ''servername'' =
          form_after tgt ''servername'' (if is_true (g ''tls'') then carried (g ''servername'') else None) \<and>
        getFormValue new ''client_fingerprint'' =
          form_after tgt ''client_fingerprint'' (carried (g ''client_fingerprint'')) \<and>
        getFormValue new ''obfs_vmess'' = kept_text tgt ''obfs_vmess'' (vmess_obfs (g ''obfs_vmess'')) \<and>
        getFormValue new ''ws_path'' =
          form_after tgt ''ws_path'' (if g ''obfs_vmess'' = js ''websocket'' then Some (or_else (g ''ws_path'') (js ''/'')) else None) \<and>
        getFormValue new ''ws_headers'' =
          form_after tgt ''ws_headers'' (if g ''obfs_vmess'' = js ''websocket'' \<and> has_host (g ''ws_headers'')
            then map_option ((@) (js ''Host: '')) (carried (host_header (g ''ws_headers''))) else None) \<and>
        getFormValue new ''h2_path'' =
          form_after tgt ''h2_path'' (if g ''obfs_vmess'' = js ''h2'' then Some (or_else (g ''h2_path'') (js ''/'')) else None) \<and>
        getFormValue new ''h2_host'' =
          form_after tgt ''h2_host'' (if g ''obfs_vmess'' = js ''h2'' then carried (g ''h2_host'') else None) \<and>
        getFormValue new ''grpc_service_name'' =
          form_after tgt ''grpc_service_name'' (if g ''obfs_vmess'' = js ''grpc'' then Some (g ''grpc_service_name'') else None))"
  by (insert vmess_export_import[OF assms(1), of num_str new_url], elim exE conjE)
    (frule vmess_body_chars[OF assms(1)], frule (1) part_imports(3)[OF assms(2,3), where ns = num_str and nu = new_url],
      simp add: imported_def Let_def form_after_def)

theorem vmess_link_roundtrip_witness:
  "\<exists>link. exportVmess (form_page [(''server'', ''a.example''), (''port'', ''8443''), (''name'', ''node 1''), (''uuid'', ''u-1''), (''tls'', ''true''), (''obfs_vmess'', ''websocket'')]) = Some (Some link) \<and>
    (let new = import_url (\<lambda>t. t) (\<lambda>s. None) (Some link) (form_page [])
     in getFormValue new ''uuid'' = js ''u-1'' \<and>
        getFormValue new ''alterId'' = js ''0'' \<and>
        getFormValue new ''ws_path'' = js ''/'')"
  using vmess_link_roundtrip[of "form_page [(''server'', ''a.example''), (''port'', ''8443''), (''name'', ''node 1''), (''uuid'', ''u-1''), (''tls'', ''true''), (''obfs_vmess'', ''websocket'')]" "form_page []" "\<lambda>t. t" "\<lambda>s. None"]
  by (auto simp: exportable_def  vmess_ready_def vmess_fields_def units_js form_page_facts sample_words no_parameters Let_def
      form_after_def carried_def is_true_def)

section \<open>VLESS\<close>

text \<open>C12: importing the link exported for a VLESS node.\<close>

theorem vless_link_roundtrip:
  assumes "exportable pg vless_fields" "plain_port (getFormValue pg ''port'')" "vless_extra pg" "transport_ok pg"
    and "text_page tgt" "status tgt \<noteq> None"
  shows "\<exists>link. exportVless pg = Some (Some link) \<and>
    (let new = import_url num_str new_url (Some link) tgt; g = getFormValue pg
     in status new = Some import_ok \<and> importing new = None \<and>
        (\<forall>f\<in>set vless_fields. getFormValue new f = form_after tgt f (carried (g f))) \<and>
        getFormValue new ''type'' = kept_text tgt ''type'' (js ''vless'') \<and>
        getFormValue new ''uuid'' = kept_text tgt ''uuid'' (g ''uuid'') \<and>
        getFormValue new ''obfs_vless'' =
          kept_text tgt ''obfs_vless'' (if g ''obfs_vless'' = js ''ws'' then js ''ws'' else if g ''obfs_vless'' = js ''grpc'' then js ''grpc''
            else if g ''obfs_vless'' = js ''xhttp'' then js ''xhttp'' else js ''tcp'') \<and>
        getFormValue new ''tls'' = form_after tgt ''tls'' (if is_true (g ''tls'') then Some (js ''true'') else None) \<and>
        getFormValue new ''servername'' =
          form_after tgt ''servername'' (if is_true (g ''tls'') then carried (g ''servername'') else None) \<and>
        getFormValue new ''ws_path'' =
          form_after tgt ''ws_path'' (if g ''obfs_vless'' = js ''ws'' then Some (or_else (g ''ws_path'') (js ''/'')) else None) \<and>
        getFormValue new ''ws_headers'' =
          form_after tgt ''ws_headers'' (if g ''obfs_vless'' = js ''ws'' then carried (g ''ws_headers'') else None) \<and>
        getFormValue new ''grpc_service_name'' =
          form_after tgt ''grpc_service_name'' (if g ''obfs_vless'' = js ''grpc'' then Some (g ''grpc_service_name'') else None) \<and>
        getFormValue new ''xhttp_opts_path'' =
          form_after tgt ''xhttp_opts_path'' (if g ''obfs_vless'' = js ''xhttp'' then carried (g ''xhttp_opts_path'') else None) \<and>
        getFormValue new ''xhttp_opts_host'' =
          form_after tgt ''xhttp_opts_host'' (if g ''obfs_vless'' = js ''xhttp'' then carried (g ''xhttp_opts_host'') else None))"
  by (insert vless_export_import[OF assms(1-4), of new_url], elim exE conjE)
    (frule (1) page_imports(1)[OF assms(5,6), where ns = num_str],
      simp add: imported_def Let_def vless_fields_def form_after_def)

theorem vless_link_roundtrip_witness:
  "\<exists>link. exportVless (form_page [(''server'', ''a.example''), (''port'', ''8443''), (''name'', ''node 1''), (''uuid'', ''u-1''), (''tls'', ''true''), (''servername'', ''a.example''), (''obfs_vless'', ''ws'')]) = Some (Some link) \<and>
    (let new = import_url (\<lambda>t. t) (\<lambda>s. None) (Some link) (form_page [])
     in getFormValue new ''uuid'' = js ''u-1'' \<and>
        getFormValue new ''ws_path'' = js ''/'' \<and>
        getFormValue new ''tls'' = js ''true'')"
  using vless_link_roundtrip[of "form_page [(''server'', ''a.example''), (''port'', ''8443''), (''name'', ''node 1''), (''uuid'', ''u-1''), (''tls'', ''true''), (''servername'', ''a.example''), (''obfs_vless'', ''ws'')]" "form_page []" "\<lambda>t. t" "\<lambda>s. None"]
  by (auto simp: exportable_def vless_fields_def vless_extra_def transport_ok_def header_ok_def form_page_facts sample_words no_parameters Let_def
      form_after_def carried_def is_true_def)

section \<open>Trojan\<close>

text \<open>C13: importing the link exported for a Trojan node.\<close>

theorem trojan_link_roundtrip:
  assumes "exportable pg trojan_fields" "plain_port (getFormValue pg ''port'')" "truthy (getFormValue pg ''password'')" "transport_ok pg"
    and "text_page tgt" "status tgt \<noteq> None"
  shows "\<exists>link. exportTrojan pg = Some (Some link) \<and>
    (let new = import_url num_str new_url (Some link) tgt; g = getFormValue pg
     in status new = Some import_ok \<and> importing new = None \<and>
        (\<forall>f\<in>set trojan_fields. getFormValue new f = form_after tgt f (carried (g f))) \<and>
        getFormValue new ''type'' = kept_text tgt ''type'' (js ''trojan'') \<and>
        getFormValue new ''skip_cert_verify'' =
          form_after tgt ''skip_cert_verify'' (if is_true (g ''skip_cert_verify'') then Some (js ''true'') else None) \<and>
        getFormValue new ''obfs_trojan'' =
          kept_text tgt ''obfs_trojan'' (if g ''obfs_trojan'' = js ''ws'' then js ''ws'' else if g ''obfs_trojan'' = js ''grpc'' then js ''grpc'' else js ''none'') \<and>
        getFormValue new ''ws_path'' =
          form_after tgt ''ws_path'' (if g ''obfs_trojan'' = js ''ws'' then Some (or_else (g ''ws_path'') (js ''/'')) else None) \<and>
        getFormValue new ''ws_headers'' =
          form_after tgt ''ws_headers'' (if g ''obfs_trojan'' = js ''ws'' then carried (g ''ws_headers'') else None) \<and>
        getFormValue new ''grpc_service_name'' =
          form_after tgt ''grpc_service_name'' (if g ''obfs_trojan'' = js ''grpc'' then Some (g ''grpc_service_name'') else None))"
  by (insert trojan_export_import[OF assms(1-4), of new_url], elim exE conjE)
    (frule (1) page_imports(2)[OF assms(5,6), where ns = num_str],
      simp add: imported_def Let_def trojan_fields_def form_after_def)

theorem trojan_link_roundtrip_witness:
  "\<exists>link. exportTrojan (form_page [(''server'', ''a.example''), (''port'', ''8443''), (''name'', ''node 1''), (''password'', ''p w''), (''sni'', ''a.example''), (''skip_cert_verify'', ''true'')]) = Some (Some link) \<and>
    (let new = import_url (\<lambda>t. t) (\<lambda>s. None) (Some link) (form_page [])
     in getFormValue new ''password'' = js ''p w'' \<and>
        getFormValue new ''sni'' = js ''a.example'' \<and>
        getFormValue new ''skip_cert_verify'' = js ''true'')"
  using trojan_link_roundtrip[of "form_page [(''server'', ''a.example''), (''port'', ''8443''), (''name'', ''node 1''), (''password'', ''p w''), (''sni'', ''a.example''), (''skip_cert_verify'', ''true'')]" "form_page []" "\<lambda>t. t" "\<lambda>s. None"]
  by (auto simp: exportable_def trojan_fields_def transport_ok_def header_ok_def form_page_facts sample_words no_parameters Let_def
      form_after_def carried_def is_true_def)

section \<open>Hysteria\<close>

text \<open>Importing the link exported for a Hysteria node.\<close>

theorem hysteria_link_roundtrip:
  assumes "exportable pg hysteria_fields" "plain_port (getFormValue pg ''port'')" "hysteria_extra pg"
    and "text_page tgt" "status tgt \<noteq> None"
  shows "\<exists>link. exportHysteria pg = Some (Some link) \<and>
    (let new = import_url num_str new_url (Some link) tgt; g = getFormValue pg
     in status new = Some import_ok \<and> importing new = None \<and>
        (\<forall>f\<in>set hysteria_fields. getFormValue new f = form_after tgt f (carried (g f))) \<and>
        getFormValue new ''type'' = kept_text tgt ''type'' (js ''hysteria'') \<and>
        getFormValue new ''hysteria_protocol'' =
          form_after tgt ''hysteria_protocol'' (carried (g ''hysteria_protocol'')) \<and>
        getFormValue new ''skip_cert_verify'' =
          form_after tgt ''skip_cert_verify'' (if is_true (g ''skip_cert_verify'') then Some (js ''true'') else None) \<and>
        getFormValue new ''disable_mtu_discovery'' =
          form_after tgt ''disable_mtu_discovery'' (if is_true (g ''disable_mtu_discovery'') then Some (js ''true'') else None) \<and>
        getFormValue new ''fast_open'' =
          form_after tgt ''fast_open'' (if is_true (g ''fast_open'') then Some (js ''true'') else None))"
  by (insert hysteria_export_import[OF assms(1-3), of new_url], elim exE conjE)
    (frule (1) page_imports(3)[OF assms(4,5), where ns = num_str],
      simp add: imported_def Let_def hysteria_fields_def form_after_def)

theorem hysteria_link_roundtrip_witness:
  "\<exists>link. exportHysteria (form_page [(''server'', ''a.example''), (''port'', ''8443''), (''name'', ''node 1''), (''hysteria_up'', ''100''), (''hysteria_down'', ''200''), (''hysteria_protocol'', ''udp''), (''fast_open'', ''true'')]) = Some (Some link) \<and>
    (let new = import_url (\<lambda>t. t) (\<lambda>s. None) (Some link) (form_page [])
     in getFormValue new ''hysteria_up'' = js ''100'' \<and>
        getFormValue new ''hysteria_protocol'' = js ''udp'' \<and>
        getFormValue new ''fast_open'' = js ''true'')"
  using hysteria_link_roundtrip[of "form_page [(''server'', ''a.example''), (''port'', ''8443''), (''name'', ''node 1''), (''hysteria_up'', ''100''), (''hysteria_down'', ''200''), (''hysteria_protocol'', ''udp''), (''fast_open'', ''true'')]" "form_page []" "\<lambda>t. t" "\<lambda>s. None"]
  by (auto simp: exportable_def hysteria_fields_def hysteria_extra_def sample_parts form_page_facts sample_words no_parameters Let_def
      form_after_def carried_def is_true_def)

section \<open>Hysteria 2\<close>

text \<open>
  C28: importing the link exported for a Hysteria 2 node. The port hopping flag is switched on when
  the link carries ports or an interval, and else left as it was; when it is a checkbox, it is
  then ticked exactly when it was before or when there are ports or an interval.
\<close>

theorem hysteria2_link_roundtrip:
  assumes "exportable pg hysteria2_fields" "plain_port (getFormValue pg ''port'')"
    and "text_page tgt" "status tgt \<noteq> None"
  shows "\<exists>link. exportHysteria2 pg = Some (Some link) \<and>
    (let new = import_url num_str new_url (Some link) tgt; g = getFormValue pg
     in status new = Some import_ok \<and> importing new = None \<and>
        (\<forall>f\<in>set hysteria2_fields. getFormValue new f = form_after tgt f (carried (g f))) \<and>
        getFormValue new ''type'' = kept_text tgt ''type'' (js ''hysteria2'') \<and>
        getFormValue new ''skip_cert_verify'' =
          form_after tgt ''skip_cert_verify'' (if is_true (g ''skip_cert_verify'') then Some (js ''true'') else None) \<and>
        getFormValue new ''flag_port_hopping'' =
          form_after tgt ''flag_port_hopping'' (if truthy (g ''ports'') \<or> truthy (g ''hop_interval'') then Some (js ''1'') else None) \<and>
        (is_checkbox tgt ''flag_port_hopping'' \<longrightarrow>
          (ticked new ''flag_port_hopping'' \<longleftrightarrow>
            ticked tgt ''flag_port_hopping'' \<or> g ''ports'' \<noteq> [] \<or> g ''hop_interval'' \<noteq> [])))"
  by (insert hysteria2_export_import[OF assms(1-2), of new_url], elim exE conjE)
    (frule (1) page_imports(4)[OF assms(3,4), where ns = num_str],
      simp add: imported_def Let_def hysteria2_fields_def form_after_def ticked_after_def one_checked truthy_def)

text \<open>An empty page whose port hopping flag is a checkbox that is not ticked.\<close>

definition flag_page :: page where
  "flag_page = (form_page [])\<lparr>controls := (controls (form_page []))
     (''flag_port_hopping'' := \<lparr>els = [text_input (js ''1'')\<lparr>etype := js ''checkbox''\<rparr>], buttons = None\<rparr>)\<rparr>"

lemma flag_page_facts:
  "text_page flag_page" "status flag_page \<noteq> None" "is_checkbox flag_page ''flag_port_hopping''"
  "\<not> ticked flag_page ''flag_port_hopping''" "f \<noteq> ''flag_port_hopping'' \<Longrightarrow> kept_text flag_page f v = v"
proof -
  let ?e = "text_input (js ''1'')\<lparr>etype := js ''checkbox''\<rparr>"
  have e: "checkbox ?e" "text_element ?e" "\<not> echecked ?e"
    by (simp_all add: text_element_def checkbox_def text_input_def getCodeMirrorInstance_def js_def to_lower_def lower_cu_def)
  have c: "controls flag_page ''flag_port_hopping'' = \<lparr>els = [?e], buttons = None\<rparr>"
    "f \<noteq> ''flag_port_hopping'' \<Longrightarrow> controls flag_page f = controls (form_page []) f" for f
    by (simp_all add: flag_page_def)
  show "text_page flag_page"
    unfolding text_page_def
  proof
    fix f
    show "text_control (controls flag_page f)"
      using c e(2) form_page_facts(1)[of "[]"] by (cases "f = ''flag_port_hopping''") (simp_all add: text_control_def text_page_def)
  qed
  show "status flag_page \<noteq> None" by (simp add: flag_page_def form_page_def)
  show "is_checkbox flag_page ''flag_port_hopping''" "\<not> ticked flag_page ''flag_port_hopping''"
    using e by (simp_all add: is_checkbox_def ticked_def c)
  show "f \<noteq> ''flag_port_hopping'' \<Longrightarrow> kept_text flag_page f v = v"
    using form_page_facts(4)[of "[]" f v] by (simp add: kept_text_def c)
qed

theorem hysteria2_link_roundtrip_witness:
  "\<exists>link. exportHysteria2 (form_page [(''server'', ''a.example''), (''port'', ''8443''), (''name'', ''node 1''), (''password'', ''p w''), (''ports'', ''1-9''), (''skip_cert_verify'', ''true'')]) = Some (Some link) \<and>
    (let new = import_url (\<lambda>t. t) (\<lambda>s. None) (Some link) flag_page
     in getFormValue new ''password'' = js ''p w'' \<and>
        getFormValue new ''ports'' = js ''1-9'' \<and>
        ticked new ''flag_port_hopping'')"
  using hysteria2_link_roundtrip[of "form_page [(''server'', ''a.example''), (''port'', ''8443''), (''name'', ''node 1''), (''password'', ''p w''), (''ports'', ''1-9''), (''skip_cert_verify'', ''true'')]" flag_page "\<lambda>t. t" "\<lambda>s. None"]
  by (auto simp: exportable_def hysteria2_fields_def flag_page_facts form_page_facts sample_words no_parameters Let_def
      form_after_def carried_def is_true_def)

section \<open>TUIC\<close>

text \<open>C27: importing the link exported for a TUIC node.\<close>

theorem tuic_link_roundtrip:
  assumes "exportable pg tuic_fields" "plain_port (getFormValue pg ''port'')" "tuic_auth pg"
    and "text_page tgt" "status tgt \<noteq> None"
  shows "\<exists>link. exportTuic pg = Some (Some link) \<and>
    (let new = import_url num_str new_url (Some link) tgt; g = getFormValue pg
     in status new = Some import_ok \<and> importing new = None \<and>
        (\<forall>f\<in>set tuic_fields. getFormValue new f = form_after tgt f (carried (g f))) \<and>
        getFormValue new ''type'' = kept_text tgt ''type'' (js ''tuic'') \<and>
        getFormValue new ''fast_open'' = form_after tgt ''fast_open'' (carried (g ''fast_open'')) \<and>
        getFormValue new ''skip_cert_verify'' =
          form_after tgt ''skip_cert_verify'' (carried (g ''skip_cert_verify'')) \<and>
        getFormValue new ''disable_sni'' =
          form_after tgt ''disable_sni'' (if is_true (g ''disable_sni'') then Some (js ''true'') else None) \<and>
        getFormValue new ''reduce_rtt'' =
          form_after tgt ''reduce_rtt'' (if is_true (g ''reduce_rtt'') then Some (js ''true'') else None) \<and>
        getFormValue new ''uuid'' =
          form_after tgt ''uuid'' (if truthy (g ''password'') then Some (g ''uuid'') else None) \<and>
        getFormValue new ''password'' = form_after tgt ''password'' (carried (g ''password'')) \<and>
        getFormValue new ''token'' =
          form_after tgt ''token'' (if truthy (g ''password'') then None else Some (g ''token'')))"
  by (insert tuic_export_import[OF assms(1-3), of new_url], elim exE conjE)
    (frule (1) page_imports(5)[OF assms(4,5), where ns = num_str],
      simp add: imported_def Let_def tuic_fields_def form_after_def)

theorem tuic_link_roundtrip_witness:
  "\<exists>link. exportTuic (form_page [(''server'', ''a.example''), (''port'', ''8443''), (''name'', ''node 1''), (''uuid'', ''u-1''), (''password'', ''p w''), (''reduce_rtt'', ''true'')]) = Some (Some link) \<and>
    (let new = import_url (\<lambda>t. t) (\<lambda>s. None) (Some link) (form_page [])
     in getFormValue new ''uuid'' = js ''u-1'' \<and>
        getFormValue new ''password'' = js ''p w'' \<and>
        getFormValue new ''reduce_rtt'' = js ''true'')"
  using tuic_link_roundtrip[of "form_page [(''server'', ''a.example''), (''port'', ''8443''), (''name'', ''node 1''), (''uuid'', ''u-1''), (''password'', ''p w''), (''reduce_rtt'', ''true'')]" "form_page []" "\<lambda>t. t" "\<lambda>s. None"]
  by (auto simp: exportable_def tuic_fields_def tuic_auth_def form_page_facts sample_words no_parameters Let_def
      form_after_def carried_def is_true_def)

section \<open>SOCKS\<close>

text \<open>C36: importing the link exported for a SOCKS proxy.\<close>

theorem socks_link_roundtrip:
  assumes "exportable pg proxy_fields" "plain_port (getFormValue pg ''port'')"
    and "text_page tgt" "status tgt \<noteq> None"
  shows "\<exists>link. exportSocks pg = Some (Some link) \<and>
    (let new = import_url num_str new_url (Some link) tgt; g = getFormValue pg
     in status new = Some import_ok \<and> importing new = None \<and>
        getFormValue new ''type'' = kept_text tgt ''type'' (js ''socks5'') \<and>
        getFormValue new ''server'' = kept_text tgt ''server'' (g ''server'') \<and>
        getFormValue new ''port'' = kept_text tgt ''port'' (g ''port'') \<and>
        getFormValue new ''username'' =
          form_after tgt ''username'' (if truthy (g ''password'') then carried (g ''username'') else None) \<and>
        getFormValue new ''password'' =
          form_after tgt ''password'' (if truthy (g ''username'') then carried (g ''password'') else None) \<and>
        getFormValue new ''name'' =
          kept_text tgt ''name'' (if truthy (g ''name'') then g ''name'' else g ''server'' @ js '':'' @ g ''port''))"
  by (insert socks_export_import[OF assms(1-2), of new_url], elim exE conjE)
    (frule (1) page_imports(6)[OF assms(3,4), where ns = num_str],
      simp add: imported_def Let_def form_after_def)

theorem socks_link_roundtrip_witness:
  "\<exists>link. exportSocks (form_page [(''server'', ''a.example''), (''port'', ''8443''), (''name'', ''node 1''), (''username'', ''me''), (''password'', ''p w'')]) = Some (Some link) \<and>
    (let new = import_url (\<lambda>t. t) (\<lambda>s. None) (Some link) (form_page [])
     in getFormValue new ''server'' = js ''a.example'' \<and>
        getFormValue new ''username'' = js ''me'' \<and>
        getFormValue new ''password'' = js ''p w'')"
  using socks_link_roundtrip[of "form_page [(''server'', ''a.example''), (''port'', ''8443''), (''name'', ''node 1''), (''username'', ''me''), (''password'', ''p w'')]" "form_page []" "\<lambda>t. t" "\<lambda>s. None"]
  by (auto simp: exportable_def  proxy_fields_def form_page_facts sample_words no_parameters Let_def
      form_after_def carried_def is_true_def)

section \<open>HTTP\<close>

text \<open>
  C7: importing the link exported for a HTTP proxy: TLS travels as the scheme, user and password only
  together, and a proxy without a name is named after its address.
\<close>

theorem http_link_roundtrip:
  assumes "exportable pg proxy_fields" "plain_port (getFormValue pg ''port'')"
    and "text_page tgt" "status tgt \<noteq> None"
  shows "\<exists>link. exportHttp pg = Some (Some link) \<and>
    (let new = import_url num_str new_url (Some link) tgt; g = getFormValue pg
     in status new = Some import_ok \<and> importing new = None \<and>
        getFormValue new ''type'' = kept_text tgt ''type'' (js ''http'') \<and>
        getFormValue new ''server'' = kept_text tgt ''server'' (g ''server'') \<and>
        getFormValue new ''port'' = kept_text tgt ''port'' (g ''port'') \<and>
        getFormValue new ''tls'' = form_after tgt ''tls'' (if is_true (g ''tls'') then Some (js ''true'') else None) \<and>
        getFormValue new ''username'' =
          form_after tgt ''username'' (if truthy (g ''password'') then carried (g ''username'') else None) \<and>
        getFormValue new ''password'' =
          form_after tgt ''password'' (if truthy (g ''username'') then carried (g ''password'') else None) \<and>
        getFormValue new ''name'' =
          kept_text tgt ''name'' (if truthy (g ''name'') then g ''name'' else g ''server'' @ js '':'' @ g ''port''))"
  by (insert http_export_import[OF assms(1-2), of new_url], elim exE conjE)
    (frule (1) http_imported[OF assms(3,4), where ns = num_str],
      simp add: imported_def Let_def form_after_def)

theorem http_link_roundtrip_witness:
  "\<exists>link. exportHttp (form_page [(''server'', ''a.example''), (''port'', ''8443''), (''name'', ''node 1''), (''username'', ''me''), (''password'', ''p w'')]) = Some (Some link) \<and>
    (let new = import_url (\<lambda>t. t) (\<lambda>s. None) (Some link) (form_page [])
     in getFormValue new ''server'' = js ''a.example'' \<and>
        getFormValue new ''username'' = js ''me'' \<and>
        getFormValue new ''password'' = js ''p w'')"
  using http_link_roundtrip[of "form_page [(''server'', ''a.example''), (''port'', ''8443''), (''name'', ''node 1''), (''username'', ''me''), (''password'', ''p w'')]" "form_page []" "\<lambda>t. t" "\<lambda>s. None"]
  by (auto simp: exportable_def  proxy_fields_def form_page_facts sample_words no_parameters Let_def
      form_after_def carried_def is_true_def)

section \<open>AnyTLS\<close>

text \<open>Importing the link exported for an AnyTLS node without a user name.\<close>

theorem anytls_link_roundtrip:
  assumes "exportable pg anytls_fields" "plain_port (getFormValue pg ''port'')" "anytls_extra pg"
    and "text_page tgt" "status tgt \<noteq> None"
  shows "\<exists>link. exportAnyTLS pg = Some (Some link) \<and>
    (let new = import_url num_str new_url (Some link) tgt; g = getFormValue pg
     in status new = Some import_ok \<and> importing new = None \<and>
        (\<forall>f\<in>set anytls_fields. getFormValue new f = form_after tgt f (carried (g f))) \<and>
        getFormValue new ''type'' = kept_text tgt ''type'' (js ''anytls'') \<and>
        getFormValue new ''server'' = kept_text tgt ''server'' (g ''server'') \<and>
        getFormValue new ''port'' = kept_text tgt ''port'' (g ''port'') \<and>
        getFormValue new ''password'' = kept_text tgt ''password'' ([]) \<and>
        getFormValue new ''udp'' = form_after tgt ''udp'' (carried (g ''udp'')) \<and>
        getFormValue new ''skip_cert_verify'' =
          form_after tgt ''skip_cert_verify'' (if is_true (g ''skip_cert_verify'') then Some (js ''true'') else None) \<and>
        getFormValue new ''name'' =
          kept_text tgt ''name'' (if truthy (g ''name'') then g ''name'' else g ''server'' @ js '':'' @ g ''port''))"
  by (insert anytls_export_import[OF assms(1-3), of new_url], elim exE conjE)
    (frule (1) page_imports(7)[OF assms(4,5), where ns = num_str],
      simp add: imported_def Let_def anytls_fields_def form_after_def)

theorem anytls_link_roundtrip_witness:
  "\<exists>link. exportAnyTLS (form_page [(''server'', ''a.example''), (''port'', ''8443''), (''name'', ''node 1''), (''password'', ''p w''), (''sni'', ''a.example''), (''udp'', ''true'')]) = Some (Some link) \<and>
    (let new = import_url (\<lambda>t. t) (\<lambda>s. None) (Some link) (form_page [])
     in getFormValue new ''sni'' = js ''a.example'' \<and>
        getFormValue new ''udp'' = js ''true'' \<and>
        getFormValue new ''password'' = js '''')"
  using anytls_link_roundtrip[of "form_page [(''server'', ''a.example''), (''port'', ''8443''), (''name'', ''node 1''), (''password'', ''p w''), (''sni'', ''a.example''), (''udp'', ''true'')]" "form_page []" "\<lambda>t. t" "\<lambda>s. None"]
  by (auto simp: exportable_def anytls_fields_def anytls_extra_def form_page_facts sample_words no_parameters Let_def
      form_after_def carried_def is_true_def)

section \<open>Mieru\<close>

text \<open>C35: importing the link exported for a Mieru node.\<close>

theorem mieru_link_roundtrip:
  assumes "exportable pg mieru_fields" "mieru_ports pg"
    and "text_page tgt" "status tgt \<noteq> None"
  shows "\<exists>link. exportMieru pg = Some (Some link) \<and>
    (let new = import_url num_str new_url (Some link) tgt; g = getFormValue pg
     in status new = Some import_ok \<and> importing new = None \<and>
        getFormValue new ''type'' = kept_text tgt ''type'' (js ''mieru'') \<and>
        getFormValue new ''server'' = kept_text tgt ''server'' (g ''server'') \<and>
        getFormValue new ''username'' = kept_text tgt ''username'' (g ''username'') \<and>
        getFormValue new ''password'' = kept_text tgt ''password'' (g ''password'') \<and>
        getFormValue new ''port'' =
          form_after tgt ''port'' (if truthy (g ''port_range'') then None else Some (g ''port'')) \<and>
        getFormValue new ''port_range'' = form_after tgt ''port_range'' (carried (g ''port_range'')) \<and>
        getFormValue new ''transport'' = kept_text tgt ''transport'' (or_else (g ''transport'') (js ''TCP'')) \<and>
        getFormValue new ''multiplexing'' = form_after tgt ''multiplexing'' (carried (g ''multiplexing'')) \<and>
        getFormValue new ''name'' = form_after tgt ''name'' (carried (g ''name'')))"
  by (insert mieru_export_import[OF assms(1-2), of new_url], elim exE conjE)
    (frule (1) page_imports(8)[OF assms(3,4), where ns = num_str],
      simp add: imported_def Let_def form_after_def)

theorem mieru_link_roundtrip_witness:
  "\<exists>link. exportMieru (form_page [(''server'', ''a.example''), (''port'', ''8443''), (''name'', ''node 1''), (''username'', ''me''), (''password'', ''p w'')]) = Some (Some link) \<and>
    (let new = import_url (\<lambda>t. t) (\<lambda>s. None) (Some link) (form_page [])
     in getFormValue new ''port'' = js ''8443'' \<and>
        getFormValue new ''username'' = js ''me'' \<and>
        getFormValue new ''transport'' = js ''TCP'')"
  using mieru_link_roundtrip[of "form_page [(''server'', ''a.example''), (''port'', ''8443''), (''name'', ''node 1''), (''username'', ''me''), (''password'', ''p w'')]" "form_page []" "\<lambda>t. t" "\<lambda>s. None"]
  by (auto simp: exportable_def  mieru_fields_def mieru_ports_def list_items_of_def form_page_facts sample_words no_parameters Let_def
      form_after_def carried_def is_true_def)

end
