(* ===== verification/Param_Text.thy ===== *)
theory Param_Text
  imports Other_Params
begin

text \<open>
  The free parameters as text: what an import prints, an export reads back
  (\<open>parse_rebuild\<close>), and the comments an import keeps hold no parameter.
\<close>

section \<open>Comment lines\<close>

lemma starts_with_Cons: "starts_with (c # p) s \<longleftrightarrow> (\<exists>t. s = c # t \<and> starts_with p t)"
  by (cases s) (auto simp: starts_with_def)

lemma starts_with_Nil [simp]: "starts_with [] s"
  by (simp add: starts_with_def)

lemma comment_no_key:
  assumes "blank_line l \<or> comment_line l"
  shows "key_line l = None"
proof (rule ccontr)
  assume "key_line l \<noteq> None"
  then have k: "starts_with (js ''    '') l" "takeWhile key_cu (drop 4 l) \<noteq> []"
    by (auto simp: key_line_def Let_def split: if_splits)
  from k(1) obtain t where l: "l = 32 # 32 # 32 # 32 # t" by (auto simp: js_def starts_with_Cons)
  with k(2) obtain c u where t: "t = c # u" "key_cu c" by (cases t) (auto split: if_splits)
  then have c: "\<not> is_ws c" "c \<noteq> 35" by (auto simp: key_cu_def alnum_def is_ws_def)
  moreover have "is_ws 32" by (simp add: is_ws_def)
  ultimately have "\<not> blank_line l" "\<not> comment_line l" using l t by (simp_all add: blank_line_def comment_line_def)
  with assms show False by blast
qed

lemma parse_skip: "\<forall>l\<in>set ls. key_line l = None \<Longrightarrow> parse_lines (ls @ rest) m = parse_lines rest m"
  by (induction ls) simp_all

section \<open>Lines of a joined text\<close>

lemma norm_newlines_id: "13 \<notin> set s \<Longrightarrow> norm_newlines s = s"
  by (induction s) auto

lemma norm_newlines_no_cr: "13 \<notin> set (norm_newlines s)"
  by (induction s rule: norm_newlines.induct) (auto split: list.splits)

lemma js_join_eq_Nil: "js_join [c] ls = [] \<longleftrightarrow> ls = [] \<or> ls = [[]]"
  by (induction "[c]" ls rule: js_join.induct) auto

lemma text_lines_join:
  assumes "\<forall>l\<in>set ls. 10 \<notin> set l \<and> 13 \<notin> set l" "ls \<noteq> [[]]"
  shows "text_lines (js_join [10] ls) = ls"
proof (cases "ls = []")
  case False
  have "13 \<notin> set (js_join [10] ls)" using assms(1) by (auto dest!: set_js_join)
  then show ?thesis using assms False
    by (simp add: text_lines_def Let_def norm_newlines_id js_join_eq_Nil js_split_join)
qed (simp add: text_lines_def)

lemma text_lines_no_nl: "l \<in> set (text_lines s) \<Longrightarrow> 10 \<notin> set l \<and> 13 \<notin> set l"
proof -
  assume l: "l \<in> set (text_lines s)"
  have split: "l \<in> set (js_split [10] u) \<Longrightarrow> 10 \<notin> set l \<and> set l \<subseteq> set u" for u :: jstr
  proof (induction u rule: length_induct)
    case (1 u)
    show ?case
    proof (cases "10 \<in> set u")
      case True
      then obtain a b where u: "u = a @ 10 # b" "10 \<notin> set a" by (meson split_list_first)
      then have "l \<in> set (js_split [10] b) \<longrightarrow> 10 \<notin> set l \<and> set l \<subseteq> set b"
        using spec[OF "1.IH", of b] by simp
      moreover have "l = a \<or> l \<in> set (js_split [10] b)" using "1.prems" u by (simp add: js_split_step)
      ultimately show ?thesis using u by auto
    next
      case False
      with 1 show ?thesis by (auto simp: js_split_absent)
    qed
  qed
  from l have "l \<in> set (js_split [10] (norm_newlines s))" by (auto simp: text_lines_def Let_def split: if_splits)
  with split[of "norm_newlines s"] norm_newlines_no_cr[of s] show ?thesis by blast
qed

text \<open>A text of comments and blank lines.\<close>

definition comment_text :: "jstr \<Rightarrow> bool" where
  "comment_text s \<longleftrightarrow> (\<forall>l\<in>set (text_lines s). blank_line l \<or> comment_line l)"

lemma comment_text_no_parameters: "comment_text s \<Longrightarrow> parseOtherParameters s = []"
  using parse_skip[of "text_lines s" "[]" "[]"] comment_no_key
  by (simp add: comment_text_def parseOtherParameters_def)

definition kept_lines :: "jstr \<Rightarrow> jstr list" where
  "kept_lines s = rev (dropWhile blank_line (rev (filter (\<lambda>l. blank_line l \<or> comment_line l) (text_lines s))))"

lemma kept_lines_in: "l \<in> set (kept_lines s) \<Longrightarrow> l \<in> set (text_lines s) \<and> (blank_line l \<or> comment_line l)"
  unfolding kept_lines_def by (auto dest!: set_dropWhileD)

lemma kept_lines_last: "kept_lines s \<noteq> [] \<Longrightarrow> \<not> blank_line (last (kept_lines s))"
  unfolding kept_lines_def by (simp add: last_rev hd_dropWhile)

lemma keepOnly_lines: "text_lines (keepOnlyCommentLines s) = kept_lines s"
proof -
  have "kept_lines s \<noteq> [[]]" using kept_lines_last[of s] by (auto simp: blank_line_def)
  moreover have "\<forall>l\<in>set (kept_lines s). 10 \<notin> set l \<and> 13 \<notin> set l"
    using kept_lines_in text_lines_no_nl by blast
  moreover have "keepOnlyCommentLines s = js_join [10] (kept_lines s)"
    by (simp add: keepOnlyCommentLines_def kept_lines_def Let_def)
  ultimately show ?thesis by (simp add: text_lines_join)
qed

lemma keepOnly_comment_text: "comment_text (keepOnlyCommentLines s)"
  using kept_lines_in by (auto simp: comment_text_def keepOnly_lines)

lemma keepOnly_idem: "keepOnlyCommentLines (keepOnlyCommentLines s) = keepOnlyCommentLines s"
proof -
  have "filter (\<lambda>l. blank_line l \<or> comment_line l) (kept_lines s) = kept_lines s"
    using kept_lines_in by (auto simp: filter_id_conv)
  moreover have "dropWhile blank_line (rev (kept_lines s)) = rev (kept_lines s)"
    using kept_lines_last[of s] by (cases "kept_lines s = []") (auto simp: dropWhile_id hd_rev)
  ultimately have "kept_lines (keepOnlyCommentLines s) = kept_lines s"
    by (simp add: kept_lines_def[of "keepOnlyCommentLines s"] keepOnly_lines)
  moreover have "keepOnlyCommentLines u = js_join [10] (kept_lines u)" for u
    by (simp add: keepOnlyCommentLines_def kept_lines_def Let_def)
  ultimately show ?thesis by simp
qed

section \<open>Printing and parsing parameters\<close>

text \<open>
  Values the text can carry: printed without line terminators, and, because
  \<open>stripYamlQuotes\<close> does not undo the escapes of \<open>encodeYamlScalar\<close>, without
  quotes and backslashes.
\<close>

definition plain_scalar :: "jstr \<Rightarrow> bool" where
  "plain_scalar v \<longleftrightarrow> v \<noteq> [] \<and> list_all (\<lambda>c. \<not> is_lt c \<and> c \<noteq> 34 \<and> c \<noteq> 92) v"

definition plain_value :: "pvalue \<Rightarrow> bool" where
  "plain_value v = (case v of
     POne (YStr s) \<Rightarrow> plain_scalar s
   | PList vs \<Rightarrow> vs \<noteq> [] \<and> list_all (\<lambda>y. case y of YStr s \<Rightarrow> plain_scalar s | YRaw _ \<Rightarrow> False) vs
   | _ \<Rightarrow> False)"

definition param_key :: "jstr \<Rightarrow> bool" where
  "param_key k \<longleftrightarrow> k \<noteq> [] \<and> list_all key_cu k \<and> k \<noteq> js ''hasOwnProperty''"

lemma replace_with_absent: "c \<notin> set s \<Longrightarrow> replace_with c t s = s"
  by (induction s) auto

lemma plain_encode:
  assumes "plain_scalar v"
  shows "encodeYamlScalar (YStr v) = v \<and> (yaml_word v \<or> yaml_number v) \<or> encodeYamlScalar (YStr v) = 34 # v @ [34]"
proof -
  have "34 \<notin> set v" "92 \<notin> set v" using assms by (auto simp: plain_scalar_def list_all_iff)
  then show ?thesis by (simp add: replace_with_absent)
qed

text \<open>A scalar that is printed bare starts with a letter, a digit or a minus sign and has no white space.\<close>

lemma bare_chars:
  assumes "yaml_word v \<or> yaml_number v" "c \<in> set v"
  shows "(65 \<le> c \<and> c \<le> 90) \<or> (97 \<le> c \<and> c \<le> 122) \<or> c = 0x212A \<or> is_digit c \<or> c = 45 \<or> c = 46"
proof (cases "yaml_word v")
  case True
  then have "lower_cu c \<in> set (to_lower v)" "to_lower v \<in> set (map js [''true'', ''false'', ''null''])"
    using assms(2) by (auto simp: yaml_word_def to_lower_def)
  then have "97 \<le> lower_cu c \<and> lower_cu c \<le> 122" by (auto simp: js_def)
  then show ?thesis by (auto simp: lower_cu_def split: if_splits)
next
  case False
  define u where "u = (if starts_with (js ''-'') v then drop 1 v else v)"
  have u: "dropWhile is_digit u = [] \<or> hd (dropWhile is_digit u) = 46 \<and> list_all is_digit (tl (dropWhile is_digit u))"
    using False assms(1) unfolding yaml_number_def Let_def u_def[symmetric] by auto
  have v: "c = 45 \<or> c \<in> set u" using assms(2) by (auto simp: u_def starts_with_Cons js_def)
  have "set u = set (takeWhile is_digit u) \<union> set (dropWhile is_digit u)"
    by (metis set_append takeWhile_dropWhile_id)
  moreover have "x \<in> set (dropWhile is_digit u) \<Longrightarrow> x = 46 \<or> is_digit x" for x
    using u by (cases "dropWhile is_digit u") (auto simp: list_all_iff)
  ultimately show ?thesis using v by (auto dest: set_takeWhileD)
qed

lemma plain_read:
  assumes "plain_scalar v"
  shows "trim (encodeYamlScalar (YStr v)) = encodeYamlScalar (YStr v)"
    "stripYamlQuotes (encodeYamlScalar (YStr v)) = v"
    "\<exists>c t. encodeYamlScalar (YStr v) = c # t \<and> c \<noteq> 35 \<and> c \<noteq> 91 \<and> \<not> is_ws c"
    "\<forall>c\<in>set (encodeYamlScalar (YStr v)). \<not> is_lt c"
proof -
  let ?e = "encodeYamlScalar (YStr v)"
  have v: "v \<noteq> []" "\<forall>c\<in>set v. \<not> is_lt c \<and> c \<noteq> 34 \<and> c \<noteq> 92" using assms by (auto simp: plain_scalar_def list_all_iff)
  consider (bare) "?e = v" "yaml_word v \<or> yaml_number v" | (quoted) "?e = 34 # v @ [34]" using plain_encode[OF assms] by blast
  then have "trim ?e = ?e \<and> stripYamlQuotes ?e = v \<and> (\<exists>c t. ?e = c # t \<and> c \<noteq> 35 \<and> c \<noteq> 91 \<and> \<not> is_ws c) \<and> (\<forall>c\<in>set ?e. \<not> is_lt c)"
  proof cases
    case bare
    have b: "\<not> is_ws c \<and> c \<noteq> 34 \<and> c \<noteq> 39 \<and> c \<noteq> 35 \<and> c \<noteq> 91" if "c \<in> set v" for c
      using bare_chars[OF bare(2) that] by (auto simp: is_ws_def is_digit_def)
    have "trimmed v" using v(1) b by (simp add: trimmed_def)
    then have t: "trim v = v" by (rule trim_trimmed)
    moreover have "hd v \<noteq> 34" "hd v \<noteq> 39" using b[of "hd v"] v(1) by simp_all
    ultimately have "stripYamlQuotes v = v" by (simp add: stripYamlQuotes_def Let_def)
    moreover obtain c t where "v = c # t" using v(1) by (cases v) auto
    ultimately show ?thesis using t v b bare(1) by (simp del: encodeYamlScalar.simps)
  next
    case quoted
    have "trimmed (34 # v @ [34])" by (simp add: trimmed_def is_ws_def)
    then have "trim (34 # v @ [34]) = 34 # v @ [34]" by (rule trim_trimmed)
    then show ?thesis using quoted v
      by (auto simp: stripYamlQuotes_def Let_def is_ws_def is_lt_def simp del: encodeYamlScalar.simps)
  qed
  then show "trim ?e = ?e" "stripYamlQuotes ?e = v" "\<exists>c t. ?e = c # t \<and> c \<noteq> 35 \<and> c \<noteq> 91 \<and> \<not> is_ws c"
    "\<forall>c\<in>set ?e. \<not> is_lt c"
    by blast+
qed

section \<open>One block\<close>

lemma key_cu_plain: "key_cu c \<Longrightarrow> \<not> is_ws c \<and> c \<noteq> 58 \<and> c \<noteq> 10 \<and> c \<noteq> 13 \<and> \<not> is_lt c"
  by (auto simp: key_cu_def alnum_def is_ws_def is_lt_def)

lemma key_line_print:
  assumes "param_key k" "\<forall>c\<in>set r. \<not> is_lt c" "r = [] \<or> \<not> is_ws (hd r)"
  shows "key_line (js ''    '' @ k @ 58 # 32 # r) = Some (k, r)"
    "r = [] \<Longrightarrow> key_line (js ''    '' @ k @ [58]) = Some (k, [])"
proof -
  have k: "k \<noteq> []" "\<forall>c\<in>set k. key_cu c" using assms(1) by (auto simp: param_key_def list_all_iff)
  have n: "\<not> key_cu 58" by (simp add: key_cu_def alnum_def)
  have "takeWhile key_cu (k @ 58 # s) = k" "dropWhile key_cu (k @ 58 # s) = 58 # s" for s
    using k n by (auto intro: takeWhile_stop dropWhile_stop)
  moreover have "dropWhile is_ws (32 # r) = r" using assms(3) by (simp add: dropWhile_id is_ws_def)
  moreover have "list_all (\<lambda>c. \<not> is_lt c) r" using assms(2) by (simp add: list_all_iff)
  ultimately show "key_line (js ''    '' @ k @ 58 # 32 # r) = Some (k, r)"
    "r = [] \<Longrightarrow> key_line (js ''    '' @ k @ [58]) = Some (k, [])"
    using k(1) by (simp_all add: key_line_def Let_def js_def starts_with_Cons)
qed

lemma item_line_print:
  assumes "\<forall>c\<in>set r. \<not> is_lt c" "r \<noteq> []" "\<not> is_ws (hd r)"
  shows "item_line (js ''      - '' @ r) = Some r"
proof -
  have "dropWhile is_ws (32 # r) = r" using assms(2,3) by (simp add: dropWhile_id is_ws_def)
  moreover have "list_all (\<lambda>c. \<not> is_lt c) r" using assms(1) by (simp add: list_all_iff)
  ultimately show ?thesis by (simp add: item_line_def Let_def js_def starts_with_Cons)
qed

text \<open>What a value reads back as: the same, because plain values hold strings only.\<close>

lemma parse_block_one:
  assumes "param_key k" "plain_scalar v"
  shows "parse_lines (buildOtherParameterBlock k (POne (YStr v)) @ ls) m = parse_lines ls (obj_set m k (POne (YStr v)))"
proof -
  let ?e = "encodeYamlScalar (YStr v)"
  note e = plain_read[OF assms(2)]
  obtain c t where ct: "?e = c # t" "c \<noteq> 35" "c \<noteq> 91" "\<not> is_ws c" using e(3) by blast
  have "key_line (js ''    '' @ k @ 58 # 32 # ?e) = Some (k, ?e)"
    using ct(1,4) by (intro key_line_print(1)[OF assms(1) e(4)]) simp
  moreover have "inline_value ?e = POne (YStr v)" using ct e(2) by (simp add: inline_value_def)
  ultimately show ?thesis
    using e(1) ct(1,2) by (simp add: js_def Let_def del: encodeYamlScalar.simps)
qed

text \<open>What may follow a block: nothing, or a blank line and the next key.\<close>

definition next_block :: "jstr list \<Rightarrow> bool" where
  "next_block ls \<longleftrightarrow> ls = [] \<or> (\<exists>l r. ls = [] # l # r \<and> key_line l \<noteq> None)"

lemma key_line_no_item: "key_line l \<noteq> None \<Longrightarrow> item_line l = None"
proof (rule ccontr)
  assume "key_line l \<noteq> None" "item_line l \<noteq> None"
  then have k: "starts_with (js ''    '') l" "takeWhile key_cu (drop 4 l) \<noteq> []" and i: "starts_with (js ''      -'') l"
    by (auto simp: key_line_def item_line_def Let_def split: if_splits)
  from i obtain t where "l = 32 # 32 # 32 # 32 # 32 # t" by (auto simp: js_def starts_with_Cons)
  with k(2) show False by (simp add: key_cu_def alnum_def split: if_splits)
qed

lemma list_items_next:
  assumes "next_block rest"
  shows "fst (list_items rest) = []" "parse_lines (snd (list_items rest)) m = parse_lines rest m"
proof -
  have k: "key_line [] = None" by (simp add: key_line_def Let_def js_def starts_with_Cons)
  moreover have "item_line [] = None" by (simp add: item_line_def Let_def js_def starts_with_Cons)
  moreover have "\<not> block_end []" using k by (simp add: block_end_def outdented_def)
  ultimately have "fst (list_items rest) = [] \<and> parse_lines (snd (list_items rest)) m = parse_lines rest m"
    using assms key_line_no_item by (auto simp: next_block_def block_end_def)
  then show "fst (list_items rest) = []" "parse_lines (snd (list_items rest)) m = parse_lines rest m" by auto
qed

lemma list_items_print:
  "\<forall>v\<in>set vs. plain_scalar v \<Longrightarrow>
   list_items (map (\<lambda>v. js ''      - '' @ encodeYamlScalar (YStr v)) vs @ rest) = (vs @ fst (list_items rest), snd (list_items rest))"
proof (induction vs)
  case (Cons v vs)
  let ?e = "encodeYamlScalar (YStr v)"
  have v: "plain_scalar v" using Cons.prems by simp
  note e = plain_read[OF v]
  obtain c t where ct: "?e = c # t" "\<not> is_ws c" using e(3) by blast
  have "item_line (js ''      - '' @ ?e) = Some ?e"
    using ct by (intro item_line_print[OF e(4)]) simp_all
  then show ?case using Cons e(1,2) by (simp del: encodeYamlScalar.simps)
qed simp

lemma parse_block:
  assumes k: "param_key k" and v: "plain_value v" and rest: "next_block rest"
  shows "parse_lines (buildOtherParameterBlock k v @ rest) m = parse_lines rest (obj_set m k v)"
proof (cases v)
  case (POne y)
  with v show ?thesis by (cases y) (simp_all add: plain_value_def parse_block_one[OF k] del: encodeYamlScalar.simps buildOtherParameterBlock.simps)
next
  case (PList ys)
  define ss where "ss = map scalar_string ys"
  have ys: "ys = map YStr ss" "\<forall>s\<in>set ss. plain_scalar s" "ss \<noteq> []"
  proof -
    have y: "YStr (scalar_string y) = y \<and> plain_scalar (scalar_string y)" if "y \<in> set ys" for y
      using v PList that by (cases y) (auto simp: plain_value_def list_all_iff)
    show "ys = map YStr ss" using y by (simp add: ss_def map_idI)
    show "\<forall>s\<in>set ss. plain_scalar s" using y by (simp add: ss_def)
    show "ss \<noteq> []" using v PList by (simp add: ss_def plain_value_def)
  qed
  have block: "buildOtherParameterBlock k v @ rest =
      (js ''    '' @ k @ [58]) # map (\<lambda>v. js ''      - '' @ encodeYamlScalar (YStr v)) ss @ rest"
    using PList ys(1) by (simp add: js_def del: encodeYamlScalar.simps)
  have key: "key_line (js ''    '' @ k @ [58]) = Some (k, [])"
    using key_line_print(2)[OF k, of "[]"] by simp
  show ?thesis unfolding block
    using ys(2,3) list_items_next[OF rest] PList ys(1)
    by (simp add: key list_items_print Let_def del: encodeYamlScalar.simps)
qed

section \<open>All blocks\<close>

fun block_lines :: "(jstr \<times> pvalue) list \<Rightarrow> jstr list" where
  "block_lines [] = []"
| "block_lines [(k, v)] = buildOtherParameterBlock k v"
| "block_lines ((k, v) # e # es) = buildOtherParameterBlock k v @ [] # block_lines (e # es)"

lemma block_nonempty: "buildOtherParameterBlock k v \<noteq> []"
  by (cases v) simp_all

lemma block_lines_fold:
  "lines \<noteq> [] \<Longrightarrow> fold (\<lambda>(key, v) lines. (if lines = [] then [] else lines @ [[]]) @ buildOtherParameterBlock key v) es lines =
   (if es = [] then lines else lines @ [] # block_lines es)"
proof (induction es arbitrary: lines)
  case (Cons e es)
  obtain k v where "e = (k, v)" by (cases e)
  with Cons show ?case by (cases es) (simp_all add: block_nonempty)
qed simp

lemma param_lines_blocks: "param_lines es = block_lines (filter (\<lambda>(k, v). \<not> empty_value v) es)"
proof -
  have "fold (\<lambda>(key, v) lines. (if lines = [] then [] else lines @ [[]]) @ buildOtherParameterBlock key v) fs [] = block_lines fs" for fs
  proof (cases fs)
    case (Cons e es)
    obtain k v where "e = (k, v)" by (cases e)
    with Cons have "fold (\<lambda>(key, v) lines. (if lines = [] then [] else lines @ [[]]) @ buildOtherParameterBlock key v) fs [] =
        fold (\<lambda>(key, v) lines. (if lines = [] then [] else lines @ [[]]) @ buildOtherParameterBlock key v) es
          (buildOtherParameterBlock k v)"
      by simp
    then show ?thesis unfolding block_lines_fold[OF block_nonempty] using Cons \<open>e = (k, v)\<close> by (cases es) simp_all
  qed simp
  then show ?thesis by (simp add: param_lines_def)
qed

lemma block_lines_hd:
  assumes "param_key k" "plain_value v"
  shows "\<exists>l r. block_lines ((k, v) # es) = l # r \<and> key_line l \<noteq> None"
proof -
  have "\<exists>l r. buildOtherParameterBlock k v = l # r \<and> key_line l \<noteq> None"
  proof (cases v)
    case (POne y)
    with assms(2) obtain s where y: "y = YStr s" "plain_scalar s" by (cases y) (auto simp: plain_value_def)
    obtain c t where ct: "encodeYamlScalar (YStr s) = c # t" "\<not> is_ws c" using plain_read(3)[OF y(2)] by blast
    have "key_line (js ''    '' @ k @ 58 # 32 # encodeYamlScalar (YStr s)) \<noteq> None"
      using key_line_print(1)[OF assms(1) plain_read(4)[OF y(2)]] ct by (simp del: encodeYamlScalar.simps)
    then show ?thesis using POne y by (simp add: js_def del: encodeYamlScalar.simps)
  next
    case (PList ys)
    then show ?thesis using key_line_print(2)[OF assms(1), of "[]"] by (simp add: js_def)
  qed
  then show ?thesis by (cases es) auto
qed

lemma parse_block_lines:
  assumes "\<forall>(k, v)\<in>set es. param_key k \<and> plain_value v"
  shows "parse_lines (block_lines es) m = fold (\<lambda>(k, v) m. obj_set m k v) es m"
  using assms
proof (induction es arbitrary: m rule: block_lines.induct)
  case (2 k v)
  then show ?case using parse_block[of k v "[]" m] by (simp add: next_block_def)
next
  case (3 k v e es)
  obtain k' v' where e: "e = (k', v')" by (cases e)
  have "next_block ([] # block_lines (e # es))"
    using block_lines_hd[of k' v' es] "3.prems" e by (auto simp: next_block_def)
  moreover have "key_line [] = None" by (simp add: key_line_def Let_def js_def starts_with_Cons)
  ultimately show ?case using 3 parse_block[of k v "[] # block_lines (e # es)" m] by simp
qed simp

section \<open>The whole text\<close>

lemma block_line_chars:
  assumes "param_key k" "plain_value v" "l \<in> set (buildOtherParameterBlock k v)"
  shows "10 \<notin> set l \<and> 13 \<notin> set l"
proof -
  have k: "10 \<notin> set k" "13 \<notin> set k" using assms(1) key_cu_plain[of 10] key_cu_plain[of 13] by (auto simp: param_key_def list_all_iff)
  have e: "10 \<notin> set (encodeYamlScalar (YStr s)) \<and> 13 \<notin> set (encodeYamlScalar (YStr s))" if "plain_scalar s" for s
  proof -
    have "is_lt 10" "is_lt 13" by (simp_all add: is_lt_def)
    then show ?thesis using plain_read(4)[OF that] by blast
  qed
  have lits: "10 \<notin> set (js p) \<and> 13 \<notin> set (js p)" if "p \<in> {''    '', '':'', '': '', ''      - ''}" for p
    using that by (auto simp: js_def)
  show ?thesis
  proof (cases v)
    case (POne y)
    with assms(2) obtain s where "y = YStr s" "plain_scalar s" by (cases y) (auto simp: plain_value_def)
    then show ?thesis using POne assms(3) k e[of s] lits by (simp del: encodeYamlScalar.simps)
  next
    case (PList ys)
    have y: "10 \<notin> set (encodeYamlScalar y) \<and> 13 \<notin> set (encodeYamlScalar y)" if "y \<in> set ys" for y
    proof -
      have "case y of YStr s \<Rightarrow> plain_scalar s | YRaw _ \<Rightarrow> False" using assms(2) that PList by (simp add: plain_value_def list_all_iff)
      then obtain s where "y = YStr s" "plain_scalar s" by (cases y) simp_all
      then show ?thesis using e by simp
    qed
    from assms(3) PList consider "l = js ''    '' @ k @ js '':''" | z where "z \<in> set ys" "l = js ''      - '' @ encodeYamlScalar z"
      by auto
    then show ?thesis using k y lits by cases simp_all
  qed
qed

lemma block_lines_chars:
  "\<forall>(k, v)\<in>set es. param_key k \<and> plain_value v \<Longrightarrow> l \<in> set (block_lines es) \<Longrightarrow> 10 \<notin> set l \<and> 13 \<notin> set l"
proof (induction es rule: block_lines.induct)
  case (3 k v e es)
  then have "l \<in> set (buildOtherParameterBlock k v) \<or> l = [] \<or> l \<in> set (block_lines (e # es))" by auto
  with 3 block_line_chars[of k v l] show ?case by auto
qed (auto dest: block_line_chars)

lemma plain_not_empty: "plain_value v \<Longrightarrow> \<not> empty_value v"
  by (auto simp: plain_value_def empty_value_def plain_scalar_def)

lemma fold_obj_set:
  assumes "distinct (map fst es)" "\<forall>(k, v)\<in>set es. k \<noteq> js ''__proto__''"
  shows "fold (\<lambda>(k, v) m. obj_set m k v) es [] = es"
proof -
  have "fold (\<lambda>(k, v) m. obj_set m k v) es m = fold (\<lambda>(k, v) m. obj_put m k v) es m" for m
    using assms(2) by (induction es arbitrary: m) (auto simp: obj_set_def)
  then show ?thesis using fold_obj_put[of es "[]"] assms(1) by simp
qed

lemma join_append: "a \<noteq> [] \<Longrightarrow> b \<noteq> [] \<Longrightarrow> js_join [c] (a @ b) = js_join [c] a @ c # js_join [c] b"
proof (induction a)
  case (Cons x a)
  then show ?case by (cases "a = []") (simp_all add: js_join_Cons)
qed simp

lemma keepOnly_strip: "strip_trailing_nl (norm_newlines (keepOnlyCommentLines s)) = keepOnlyCommentLines s"
proof -
  have j: "keepOnlyCommentLines s = js_join [10] (kept_lines s)"
    by (simp add: keepOnlyCommentLines_def kept_lines_def Let_def)
  have l: "10 \<notin> set l \<and> 13 \<notin> set l" if "l \<in> set (kept_lines s)" for l
    using that kept_lines_in text_lines_no_nl by blast
  have "13 \<notin> set (js_join [10] (kept_lines s))" using l by (auto dest!: set_js_join)
  moreover have "strip_trailing_nl (js_join [10] (kept_lines s)) = js_join [10] (kept_lines s)"
  proof (cases "kept_lines s = []")
    case False
    let ?l = "last (kept_lines s)"
    have "?l \<noteq> []" using kept_lines_last[OF False] by (auto simp: blank_line_def)
    moreover have "last ?l \<noteq> 10" using l[of ?l] False \<open>?l \<noteq> []\<close> by (metis last_in_set)
    moreover have "last (js_join [10] ls) = last (last ls) \<and> js_join [10] ls \<noteq> []" if "ls \<noteq> []" "last ls \<noteq> []" for ls :: "jstr list"
      using that by (induction ls) (auto simp: js_join_Cons)
    ultimately show ?thesis using False
      by (simp add: strip_trailing_nl_def dropWhile_id hd_rev)
  qed (simp add: strip_trailing_nl_def)
  ultimately show ?thesis by (simp add: j norm_newlines_id)
qed

lemma rebuild_text:
  assumes es: "\<forall>(k, v)\<in>set (params st). param_key k \<and> plain_value v" and c: "commentsText st = keepOnlyCommentLines s"
  shows "rebuildOtherParametersFromState st = Some (js_join [10] (kept_lines s @ block_lines (own_entries (params st))))"
proof -
  let ?es = "own_entries (params st)"
  have own: "callable_has_own (params st)"
    using es by (force simp: callable_has_own_def has_key_def param_key_def)
  have "filter (\<lambda>(k, v). \<not> empty_value v) ?es = ?es"
    using es plain_not_empty by (fastforce simp: filter_id_conv set_own_entries)
  then have p: "param_lines ?es = block_lines ?es" by (simp add: param_lines_blocks)
  have j: "keepOnlyCommentLines s = js_join [10] (kept_lines s)"
    by (simp add: keepOnlyCommentLines_def kept_lines_def Let_def)
  have str: "strip_trailing_nl (norm_newlines (js_join [10] (kept_lines s))) = js_join [10] (kept_lines s)"
    using keepOnly_strip[of s] j by simp
  have k: "js_join [10] (kept_lines s) = [] \<longleftrightarrow> kept_lines s = []"
    using kept_lines_last[of s] by (auto simp: js_join_eq_Nil blank_line_def)
  have b: "js_join [10] (block_lines ?es) = [] \<longleftrightarrow> block_lines ?es = []"
  proof (cases ?es)
    case (Cons e fs)
    obtain key v where e: "e = (key, v)" by (cases e)
    have "(key, v) \<in> set (params st)" using Cons e by (metis list.set_intros(1) set_own_entries)
    then have "param_key key" "plain_value v" using es by auto
    from block_lines_hd[OF this, of fs] obtain l r where "block_lines ?es = l # r" "key_line l \<noteq> None"
      unfolding Cons e by blast
    moreover have "key_line [] = None" by (simp add: key_line_def Let_def js_def starts_with_Cons)
    ultimately show ?thesis by (auto simp: js_join_eq_Nil)
  qed simp
  show ?thesis
    unfolding rebuildOtherParametersFromState_def Let_def c p j str
    using own k b by (auto simp: truthy_def join_append or_else_def)
qed

lemma parse_rebuild [roundtrip]:
  assumes es: "\<forall>(k, v)\<in>set (params st). param_key k \<and> plain_value v \<and> k \<noteq> js ''__proto__''"
    and d: "distinct (map fst (params st))" and c: "commentsText st = keepOnlyCommentLines s"
  shows "\<exists>t. rebuildOtherParametersFromState st = Some t \<and> parseOtherParameters t = own_entries (params st)"
proof -
  let ?es = "own_entries (params st)" and ?c = "kept_lines s"
  have es': "\<forall>(k, v)\<in>set ?es. param_key k \<and> plain_value v" "\<forall>(k, v)\<in>set ?es. k \<noteq> js ''__proto__''"
    using es by (auto simp: set_own_entries)
  let ?ls = "?c @ block_lines ?es"
  let ?t = "js_join [10] ?ls"
  have chars: "\<forall>l\<in>set ?ls. 10 \<notin> set l \<and> 13 \<notin> set l"
    using block_lines_chars[OF es'(1)] kept_lines_in[of _ s] text_lines_no_nl by auto
  have nonblank: "?ls \<noteq> [[]]"
  proof
    assume "?ls = [[]]"
    moreover have "key_line [] = None" by (simp add: key_line_def Let_def js_def starts_with_Cons)
    moreover have "blank_line []" by (simp add: blank_line_def)
    moreover have "?es = (k, v) # fs \<Longrightarrow> \<exists>l r. block_lines ?es = l # r \<and> key_line l \<noteq> None" for k v fs
      using block_lines_hd[of k v fs] es'(1) by auto
    ultimately show False using kept_lines_last[of s]
      by (cases ?es) (auto simp: append_eq_Cons_conv)
  qed
  have lines: "text_lines ?t = ?ls" by (rule text_lines_join[OF chars nonblank])
  have "\<forall>l\<in>set ?c. key_line l = None" using kept_lines_in comment_no_key by blast
  then have "parseOtherParameters ?t = parse_lines (block_lines ?es) []"
    by (simp add: parseOtherParameters_def lines parse_skip)
  also have "\<dots> = ?es"
    using parse_block_lines[OF es'(1), of "[]"] fold_obj_set[OF distinct_own_entries[OF d] es'(2)] by simp
  finally show ?thesis using rebuild_text[OF _ c] es by auto
qed

end
