(* ===== verification/Page_Claims.thy ===== *)
theory Page_Claims
  imports Link_Claims Param_Text
begin

text \<open>
  What importing and exporting do to the page as a whole, whatever the link: what never changes,
  the retries of a field that is not there yet, and when an export gives no link.
\<close>

section \<open>What an import leaves alone\<close>

text \<open>
  An import, whatever the link and however it ends, changes no element but its value: no
  element, option of a name, editor or button appears or disappears.
\<close>

theorem import_url_shape: "page_shape (import_url num_str new_url answer pg) = page_shape pg"
  by (rule shape_inv.inv_import_url) simp

text \<open>
  When no import is in progress before, none is in progress after an import, also one that
  threw halfway: the parameters collected for one link never reach the next one.
\<close>

theorem import_url_clears:
  assumes "importing pg = None"
  shows "importing (import_url num_str new_url answer pg) = None"
  using assms by (auto simp: import_url_def Let_def import_done_simps split: option.split)

theorem import_url_clears_witness:
  "importing (import_url (\<lambda>t. t) (\<lambda>s. None) (Some (js ''ss://x'')) (form_page [])) = None"
  by (rule import_url_clears) (simp add: form_page_def)

section \<open>Retries\<close>

text \<open>
  C34: writing a field whose elements are not there yet tries again, at most 30 times, whatever the
  framework and the user do to the page in between; after the thirtieth none is left over.
\<close>

theorem setFormValue_retries:
  assumes "timers pg = []" "page_run (setFormValue f v pg) n new"
  shows "n \<le> 30 \<and> length (timers new) + n \<le> 30"
proof -
  have pre: "timers_ok (setFormValue f v pg)" "budget (setFormValue f v pg) \<le> 30"
    using setFormValue_timers[of 0 f v pg] assms(1)
    by (auto simp: timers_ok_def budget_def setFormValue_def)
  have "timers_ok new" "n + budget new \<le> 30"
    using run_budget[OF assms(2) pre(1)] pre(2) by auto
  moreover have "length (timers new) \<le> budget new"
  proof -
    have "length ts \<le> (\<Sum>(f, v, r)\<leftarrow>ts. 31 - r)" if "\<forall>(f, v, r)\<in>set ts. r \<le> 30" for ts :: "(string \<times> jstr \<times> nat) list"
      using that by (induction ts) auto
    then show ?thesis using \<open>timers_ok new\<close> by (simp add: timers_ok_def budget_def)
  qed
  ultimately show ?thesis by simp
qed

theorem setFormValue_retries_witness:
  "\<exists>pg n new. timers pg = [] \<and> n = 1 \<and> page_run (setFormValue ''server'' (js ''x'') pg) n new \<and> length (timers new) + n \<le> 30"
proof -
  define pg where "pg = \<lparr>controls = (\<lambda>f. \<lparr>els = [], buttons = None\<rparr>), timers = [], trace = [], importing = None, status = None\<rparr>"
  have t: "timers pg = []" by (simp add: pg_def)
  have e: "setFormValue ''server'' (js ''x'') pg = pg\<lparr>timers := [(''server'', js ''x'', 1)]\<rparr>"
    by (simp add: setFormValue_def setFormValue_retry_def Let_def isMultiValueField_def getDynamicListInputs_def
        getFormElements_def named_def pg_def schedule_def)
  have "page_step (setFormValue ''server'' (js ''x'') pg) 1
      (setFormValue_retry 1 ''server'' (js ''x'') ((pg\<lparr>timers := [(''server'', js ''x'', 1)]\<rparr>)\<lparr>timers := [] @ []\<rparr>))"
    unfolding e by (rule page_step.fire[where xs = "[]"]) simp
  from next_step[OF this stop] have r: "page_run (setFormValue ''server'' (js ''x'') pg) 1
      (setFormValue_retry 1 ''server'' (js ''x'') ((pg\<lparr>timers := [(''server'', js ''x'', 1)]\<rparr>)\<lparr>timers := [] @ []\<rparr>))"
    by simp
  show ?thesis using t r setFormValue_retries[OF t r] by blast
qed

section \<open>Fields\<close>

text \<open>
  On a page of text fields and checkboxes, a field reads back what its element keeps of the value written,
  and no other field changes.
\<close>

theorem setFormValue_getFormValue:
  assumes "text_page pg"
  shows "getFormValue (setFormValue f v pg) g = (if g = f then kept_text pg f v else getFormValue pg g)"
  using assms by (rule text_form.get_put)

theorem setFormValue_getFormValue_witness:
  "getFormValue (setFormValue ''server'' (js ''a'') (form_page [(''port'', ''1'')])) ''server'' = js ''a'' \<and>
   getFormValue (setFormValue ''server'' (js ''a'') (form_page [(''port'', ''1'')])) ''port'' = js ''1''"
  using setFormValue_getFormValue[of "form_page [(''port'', ''1'')]" "''server''" "js ''a''" "''server''"]
    setFormValue_getFormValue[of "form_page [(''port'', ''1'')]" "''server''" "js ''a''" "''port''"]
  by (simp add: form_page_facts)

text \<open>
  A multi-value field shown as a dynamic list with enough rows reads back the written list in
  its normal form: items trimmed, empty ones dropped, joined by commas.
\<close>

theorem dynamic_list_value:
  assumes "isMultiValueField f" "list_control (controls pg f)"
    and "length (normalizeListValue v) \<le> length (els (controls pg f))"
    and "\<And>e x. e \<in> set (els (controls pg f)) \<Longrightarrow> x = [] \<or> x \<in> set (normalizeListValue v) \<Longrightarrow> kept_element e x = x"
  shows "getFormValue (setFormValue f v pg) f = js_join (js '','') (normalizeListValue v)"
  using assms by (rule set_dynamic_list)

theorem dynamic_list_value_witness:
  "getFormValue (setFormValue ''alpn'' (js '' h2 ,, h3'')
      (form_page []\<lparr>controls := (\<lambda>f. \<lparr>els = [text_input []\<lparr>in_list := True\<rparr>, text_input []\<lparr>in_list := True\<rparr>], buttons = Some []\<rparr>)\<rparr>)) ''alpn''
    = js ''h2,h3''"
proof -
  let ?pg = "form_page []\<lparr>controls := (\<lambda>f. \<lparr>els = [text_input []\<lparr>in_list := True\<rparr>, text_input []\<lparr>in_list := True\<rparr>], buttons = Some []\<rparr>)\<rparr>"
  have split: "js_split [44] (104 # 50 # 32 # 44 # 44 # 32 # 104 # [51]) = [[104, 50, 32], [], [32, 104, 51]]"
    using js_split_step[of 44 "[104, 50, 32]" "[44, 32, 104, 51]"] js_split_step[of 44 "[]" "[32, 104, 51]"]
      js_split_absent[of 44 "[32, 104, 51]"] by simp
  have n: "normalizeListValue (js '' h2 ,, h3'') = [js ''h2'', js ''h3'']"
    by (simp add: normalizeListValue_def Let_def js_def trim_def is_ws_def split)
  have e: "text_element (text_input []\<lparr>in_list := True\<rparr>)" "kept_element (text_input []\<lparr>in_list := True\<rparr>) x = x" for x
    by (simp_all add: text_element_def checkbox_def text_input_def kept_element_def getCodeMirrorInstance_def js_def to_lower_def lower_cu_def)
  have "list_control (controls ?pg ''alpn'')" using e(1) by (simp add: list_control_def) (simp add: text_input_def)
  then show ?thesis
    using dynamic_list_value[of "''alpn''" ?pg "js '' h2 ,, h3''"] e(2)
    by (simp add: n isMultiValueField_def js_append[symmetric]) (simp add: js_def)
qed

section \<open>Exports without a link\<close>




section \<open>Free parameters\<close>

text \<open>
  C29: the free parameters an import prints below the kept comments read back, in the order the
  code enumerates them, for keys the text can name and values without quotes, backslashes and line
  ends.
\<close>

theorem parameters_roundtrip:
  assumes "\<forall>(k, v)\<in>set (params st). param_key k \<and> plain_value v \<and> k \<noteq> js ''__proto__''"
    and "distinct (map fst (params st))" "commentsText st = keepOnlyCommentLines old"
  shows "\<exists>t. rebuildOtherParametersFromState st = Some t \<and> parseOtherParameters t = own_entries (params st)"
  using assms by (rule parse_rebuild)

theorem parameters_roundtrip_witness:
  "\<exists>t. rebuildOtherParametersFromState
      \<lparr>commentsText = keepOnlyCommentLines [], params = [(js ''fp'', POne (YStr (js ''a b''))), (js ''dns'', PList [YStr (js ''x'')])]\<rparr> = Some t \<and>
    parseOtherParameters t = [(js ''fp'', POne (YStr (js ''a b''))), (js ''dns'', PList [YStr (js ''x'')])]"
proof -
  let ?ps = "[(js ''fp'', POne (YStr (js ''a b''))), (js ''dns'', PList [YStr (js ''x'')])]"
  have "own_entries ?ps = ?ps"
    by (rule own_entries_plain) (simp add: array_index_def js_def is_digit_def)
  moreover have "\<forall>(k, v)\<in>set ?ps. param_key k \<and> plain_value v \<and> k \<noteq> js ''__proto__''"
    by (simp add: param_key_def plain_value_def plain_scalar_def) (simp add: js_def key_cu_def alnum_def is_lt_def)
  ultimately show ?thesis
    using parameters_roundtrip[of "\<lparr>commentsText = keepOnlyCommentLines [], params = ?ps\<rparr>" "[]"] by simp
qed

text \<open>
  The comments an import keeps of the old free text are the lines it keeps of its own output,
  and they hold no parameter.
\<close>

lemma keepOnlyCommentLines_clean:
  "keepOnlyCommentLines (keepOnlyCommentLines s) = keepOnlyCommentLines s \<and> parseOtherParameters (keepOnlyCommentLines s) = []"
  using keepOnly_idem comment_text_no_parameters[OF keepOnly_comment_text] by blast

section \<open>What the text of a parameter loses\<close>

text \<open>
  The escapes of \<open>encodeYamlScalar\<close> are not undone by \<open>stripYamlQuotes\<close>: a
  value with a double quote reads back with a backslash before it.
\<close>

lemma quote_gains_backslash:
  "stripYamlQuotes (encodeYamlScalar (YStr [97, 34, 98])) = [97, 92, 34, 98]"
proof -
  have "yaml_word [97, 34, 98] = False" by (simp add: yaml_word_def to_lower_def lower_cu_def js_def)
  moreover have "yaml_number [97, 34, 98] = False" by (simp add: yaml_number_def starts_with_def js_def is_digit_def)
  ultimately show ?thesis by (simp add: stripYamlQuotes_def trim_def is_ws_def Let_def)
qed

end
