(* ===== verification/Bandix_Devices.thy ===== *)
theory Bandix_Devices
  imports Vmess_Links "HOL-Library.Multiset"
begin

text \<open>
  The device selection of Bandix (\<open>bandix/devices.js\<close>): which devices are ticked, and the
  deletion of the ticked ones in requests of at most 50. The state is what the closure of
  \<open>create\<close> keeps (10-134); its operations are the handlers of the page, one
  \<open>event\<close> each, so that polling, ticking, dialogs and replies interleave freely. A deletion
  is a chain of promises: the request in flight is the head of \<open>pending\<close>, and the chain
  moves on when its reply arrives. A \<open>Set\<close> and the keys of a \<open>Map\<close> are lists
  without repetition in insertion order. What a reply holds is a JSON value.
\<close>

section \<open>Sets and requests\<close>

definition set_add :: "'a \<Rightarrow> 'a list \<Rightarrow> 'a list" where
  "set_add x xs = (if x \<in> set xs then xs else xs @ [x])"

definition set_delete :: "'a \<Rightarrow> 'a list \<Rightarrow> 'a list" where
  "set_delete x xs = filter (\<lambda>y. y \<noteq> x) xs"

text \<open>\<open>key(mac)\<close>; a missing address is the empty string. Addresses are ASCII.\<close>

definition mac_key :: "jstr \<Rightarrow> jstr" where
  "mac_key mac = to_lower mac"

fun batches :: "nat \<Rightarrow> 'a list \<Rightarrow> 'a list list" where
  "batches n xs = (if n = 0 \<or> xs = [] then [] else take n xs # batches n (drop n xs))"

declare batches.simps [simp del]

section \<open>The reply of a request\<close>

text \<open>
  What a deletion can fail with: the message of the service, a fixed (translated) message, the
  rejection of the request, or the exception of a text that cannot be made.
\<close>

datatype delete_error = Said json | Fixed string | Rejection jstr | Type_error

text \<open>
  The address an entry reports: of \<open>failed\<close> the \<open>mac\<close> of a truthy entry, and the
  entry itself when it is falsy; \<open>None\<close> when it is no string.
\<close>

definition reported_mac :: "string \<Rightarrow> json \<Rightarrow> jstr option" where
  "reported_mac f entry =
     (case (if f = ''failed'' \<and> entry \<noteq> JStr [] then json_prop entry ''mac'' else Some entry) of
        Some (JStr s) \<Rightarrow> Some s | _ \<Rightarrow> None)"

definition report_entry :: "string \<Rightarrow> json \<Rightarrow> jstr list \<Rightarrow> jstr list option" where
  "report_entry f entry remaining =
     (case reported_mac f entry of
        None \<Rightarrow> None
      | Some mac \<Rightarrow> if mac_key mac \<in> set remaining then Some (set_delete (mac_key mac) remaining) else None)"

definition report_field :: "json \<Rightarrow> string \<Rightarrow> jstr list \<Rightarrow> (json list \<times> jstr list) option" where
  "report_field data f remaining =
     (case json_prop data f of
        Some (JArr entries) \<Rightarrow> map_option (Pair entries) (fold_opt (report_entry f) entries remaining)
      | _ \<Rightarrow> None)"

record delete_report =
  deleted :: "json list"
  not_found :: "json list"
  failed :: "json list"

definition delete_lists :: "jstr list \<Rightarrow> json \<Rightarrow> delete_report option" where
  "delete_lists requested data = do {
     (d, r1) \<leftarrow> report_field data ''deleted'' (remdups requested);
     (n, r2) \<leftarrow> report_field data ''not_found'' r1;
     (f, r3) \<leftarrow> report_field data ''failed'' r2;
     if r3 = [] then Some \<lparr>deleted = d, not_found = n, failed = f\<rparr> else None
   }"

definition delete_result :: "(jstr \<Rightarrow> jstr) \<Rightarrow> json \<Rightarrow> jstr list \<Rightarrow> delete_error + delete_report" where
  "delete_result num_str reply requested =
     (if \<not> json_truthy num_str (Some reply) \<or> json_prop reply ''status'' \<noteq> Some (JStr (js ''success''))
         \<or> \<not> json_truthy num_str (json_prop reply ''data'')
      then
        (let message = (if json_truthy num_str (json_prop reply ''message'') then json_prop reply ''message'' else json_prop reply ''error'')
         in if message = Some (JStr (js ''Batch deletion is unavailable. Update the Bandix service.''))
            then Inl (Fixed ''Batch deletion is unavailable. Update the Bandix service.'')
            else if json_truthy num_str message then Inl (Said (the message))
            else Inl (Fixed ''Failed to delete devices''))
      else
        (let data = the (json_prop reply ''data'')
         in case delete_lists requested data of
              None \<Rightarrow> Inl (Fixed ''Invalid batch deletion response'')
            | Some rep \<Rightarrow> Inr rep))"

section \<open>The state of the list\<close>

record device_input =
  in_mac :: jstr
  in_checked :: bool
  in_disabled :: bool

text \<open>
  A deletion in progress: the addresses it began with, the requests without a reply yet (the first
  is in flight), the counts and the failures reported so far.
\<close>

record deletion =
  pending :: "jstr list list"
  n_deleted :: nat
  n_not_found :: nat
  n_failed :: nat
  failures :: "jstr list"

text \<open>The values the notification at the end of a deletion is worded from.\<close>

record notification =
  note_error :: "delete_error option"
  note_counts :: "nat \<times> nat \<times> nat"
  note_failures :: "jstr list"

record device_list =
  selected :: "jstr list"
  visible :: "jstr list"
  inputs :: "device_input list"
  busy :: bool
  writable :: bool
  all_checked :: bool
  all_indeterminate :: bool
  all_disabled :: bool
  remove_disabled :: bool
  remove_count :: nat
  dialogs :: "jstr list list"
  chain :: "deletion option"
  requests :: "jstr list list"
  reports :: "notification list"
  refreshes :: nat

definition sync :: "device_list \<Rightarrow> device_list" where
  "sync s = s\<lparr>
     all_checked := (0 < length (visible s) \<and> length (selected s) = length (visible s)),
     all_indeterminate := (0 < length (selected s) \<and> length (selected s) < length (visible s)),
     all_disabled := (busy s \<or> \<not> writable s \<or> length (visible s) = 0),
     remove_disabled := (busy s \<or> \<not> writable s \<or> length (selected s) = 0),
     remove_count := length (selected s),
     inputs := map (\<lambda>i. i\<lparr>in_checked := in_mac i \<in> set (selected s), in_disabled := busy s \<or> \<not> writable s\<rparr>) (inputs s)\<rparr>"

definition new_list :: "bool \<Rightarrow> device_list" where
  "new_list w = \<lparr>selected = [], visible = [], inputs = [], busy = False, writable = w,
     all_checked = False, all_indeterminate = False, all_disabled = True, remove_disabled = True, remove_count = 0,
     dialogs = [], chain = None, requests = [], reports = [], refreshes = 0\<rparr>"

section \<open>Operations\<close>

definition setDevices :: "jstr list \<Rightarrow> device_list \<Rightarrow> device_list" where
  "setDevices macs s =
     (let vis = fold (\<lambda>mac. if truthy mac then set_add (mac_key mac) else (\<lambda>v. v)) macs []
      in sync (s\<lparr>visible := vis, inputs := [], selected := filter (\<lambda>mac. mac \<in> set vis) (selected s)\<rparr>))"

definition make_checkbox :: "jstr \<Rightarrow> device_list \<Rightarrow> device_list" where
  "make_checkbox mac s =
     s\<lparr>inputs := inputs s @
         [\<lparr>in_mac = mac_key mac, in_checked = mac_key mac \<in> set (selected s), in_disabled = busy s \<or> \<not> writable s\<rparr>]\<rparr>"

text \<open>The user sets the tick of a checkbox, then its handler runs.\<close>

definition toggle :: "nat \<Rightarrow> bool \<Rightarrow> device_list \<Rightarrow> device_list" where
  "toggle i b s =
     (if length (inputs s) \<le> i then s
      else
        (let item = inputs s ! i; s1 = s\<lparr>inputs := (inputs s)[i := item\<lparr>in_checked := b\<rparr>]\<rparr>
         in if busy s \<or> \<not> writable s then s1
            else sync (s1\<lparr>selected := (if b then set_add else set_delete) (in_mac item) (selected s)\<rparr>)))"

definition toggle_all :: "bool \<Rightarrow> device_list \<Rightarrow> device_list" where
  "toggle_all b s =
     (let s1 = s\<lparr>all_checked := b\<rparr>
      in if busy s \<or> \<not> writable s then s1
         else sync (s1\<lparr>selected := (if b then fold set_add (visible s) [] else [])\<rparr>))"

text \<open>The button opens a confirmation that holds the addresses selected now.\<close>

definition click_remove :: "device_list \<Rightarrow> device_list" where
  "click_remove s =
     (if busy s \<or> \<not> writable s \<or> length (selected s) = 0 then s
      else s\<lparr>dialogs := dialogs s @ [selected s]\<rparr>)"

text \<open>The end of the chain: the report (70-77) and the \<open>finally\<close> (99-102).\<close>

definition end_chain :: "delete_error option \<Rightarrow> deletion \<Rightarrow> device_list \<Rightarrow> device_list" where
  "end_chain err d s =
     (let s1 = (if err = None \<and> n_failed d = 0 then s
                else s\<lparr>reports := reports s @
                  [\<lparr>note_error = err, note_counts = (n_deleted d, n_not_found d, n_failed d), note_failures = failures d\<rparr>]\<rparr>);
          s2 = sync (s1\<lparr>busy := False, chain := None\<rparr>)
      in s2\<lparr>refreshes := refreshes s2 + 1\<rparr>)"

text \<open>Sending the next request, or ending the chain after the last one.\<close>

definition next_request :: "deletion \<Rightarrow> device_list \<Rightarrow> device_list" where
  "next_request d s =
     (case pending d of
        [] \<Rightarrow> end_chain None d s
      | b # _ \<Rightarrow> s\<lparr>chain := Some d, requests := requests s @ [b]\<rparr>)"

definition confirm :: "jstr list \<Rightarrow> device_list \<Rightarrow> device_list" where
  "confirm macs s =
     (if busy s then s
      else next_request
             \<lparr>pending = batches 50 macs, n_deleted = 0, n_not_found = 0, n_failed = 0, failures = []\<rparr>
             (sync (s\<lparr>busy := True\<rparr>)))"

text \<open>
  The text of a failure; \<open>None\<close> when its message is an object no string can be made of.
\<close>

definition failure_text :: "(jstr \<Rightarrow> jstr) \<Rightarrow> json \<Rightarrow> jstr option" where
  "failure_text num_str entry =
     (let mac = (case json_prop entry ''mac'' of Some (JStr m) \<Rightarrow> m | _ \<Rightarrow> js ''undefined'')
      in map_option (\<lambda>m. mac @ js '': '' @ m)
           (if json_truthy num_str (json_prop entry ''message'') then json_string num_str (the (json_prop entry ''message''))
            else Some (js ''Failed to delete device'')))"

fun push_failures :: "(jstr \<Rightarrow> jstr) \<Rightarrow> json list \<Rightarrow> jstr list \<Rightarrow> jstr list \<times> bool" where
  "push_failures num_str [] fs = (fs, True)"
| "push_failures num_str (e # es) fs =
     (case failure_text num_str e of None \<Rightarrow> (fs, False) | Some t \<Rightarrow> push_failures num_str es (fs @ [t]))"

definition entry_keys :: "json list \<Rightarrow> jstr list" where
  "entry_keys es = concat (map (\<lambda>e. case e of JStr m \<Rightarrow> [mac_key m] | _ \<Rightarrow> []) es)"

datatype answer = Answer json | Rejected jstr

definition receive :: "(jstr \<Rightarrow> jstr) \<Rightarrow> answer \<Rightarrow> device_list \<Rightarrow> device_list" where
  "receive num_str a s =
     (case chain s of
        None \<Rightarrow> s
      | Some d \<Rightarrow>
          (case pending d of
             [] \<Rightarrow> s
           | batch # rest \<Rightarrow>
               (case a of
                  Rejected e \<Rightarrow> end_chain (Some (Rejection e)) d s
                | Answer reply \<Rightarrow>
                    (case delete_result num_str reply batch of
                       Inl e \<Rightarrow> end_chain (Some e) d s
                     | Inr rep \<Rightarrow>
                         (let (fs, ok) = push_failures num_str (failed rep) (failures d);
                              d1 = d\<lparr>pending := rest, n_deleted := n_deleted d + length (deleted rep),
                                     n_not_found := n_not_found d + length (not_found rep),
                                     n_failed := n_failed d + length (failed rep), failures := fs\<rparr>;
                              s1 = s\<lparr>selected := fold set_delete (entry_keys (deleted rep @ not_found rep)) (selected s)\<rparr>
                          in if ok then next_request d1 s1 else end_chain (Some Type_error) d1 s1)))))"

section \<open>Events\<close>

text \<open>
  \<open>Confirm i\<close> is the answer to the \<open>i\<close>-th dialog opened so far; the library may
  report it at any later time.
\<close>

datatype event =
    Set_Devices "jstr list"
  | Make_Checkbox jstr
  | Toggle nat bool
  | Toggle_All bool
  | Click_Remove
  | Confirm nat
  | Receive answer

fun handle :: "(jstr \<Rightarrow> jstr) \<Rightarrow> event \<Rightarrow> device_list \<Rightarrow> device_list" where
  "handle num_str (Set_Devices macs) s = setDevices macs s"
| "handle num_str (Make_Checkbox mac) s = make_checkbox mac s"
| "handle num_str (Toggle i b) s = toggle i b s"
| "handle num_str (Toggle_All b) s = toggle_all b s"
| "handle num_str Click_Remove s = click_remove s"
| "handle num_str (Confirm i) s = (if i < length (dialogs s) then confirm (dialogs s ! i) s else s)"
| "handle num_str (Receive a) s = receive num_str a s"

text \<open>
  Two things the page and the browser guarantee of the events. The page makes a checkbox for a
  device of the list it has just displayed (\<open>index.js\<close> 6272-6563). A disabled control
  does not react to the user.
\<close>

fun displayed :: "device_list \<Rightarrow> event \<Rightarrow> bool" where
  "displayed s (Make_Checkbox mac) \<longleftrightarrow> mac_key mac \<in> set (visible s)"
| "displayed s _ \<longleftrightarrow> True"

fun clickable :: "device_list \<Rightarrow> event \<Rightarrow> bool" where
  "clickable s (Toggle i b) \<longleftrightarrow> i < length (inputs s) \<and> \<not> in_disabled (inputs s ! i)"
| "clickable s (Toggle_All b) \<longleftrightarrow> \<not> all_disabled s"
| "clickable s Click_Remove \<longleftrightarrow> \<not> remove_disabled s"
| "clickable s _ \<longleftrightarrow> True"

text \<open>The states reached by events that satisfy \<open>ok\<close>.\<close>

inductive session :: "(device_list \<Rightarrow> event \<Rightarrow> bool) \<Rightarrow> (jstr \<Rightarrow> jstr) \<Rightarrow> device_list \<Rightarrow> bool" for ok num_str where
  start: "session ok num_str (new_list w)"
| move: "session ok num_str s \<Longrightarrow> ok s e \<Longrightarrow> session ok num_str (handle num_str e s)"

section \<open>Sets and requests: facts\<close>

lemma set_add_simps [simp]: "set (set_add x xs) = insert x (set xs)" "distinct (set_add x xs) \<longleftrightarrow> distinct xs"
  by (auto simp: set_add_def)

lemma set_delete_simps [simp]: "set (set_delete x xs) = set xs - {x}" "distinct xs \<Longrightarrow> distinct (set_delete x xs)"
  by (auto simp: set_delete_def)

lemma fold_set_add [simp]: "set (fold set_add ys xs) = set xs \<union> set ys" "distinct (fold set_add ys xs) \<longleftrightarrow> distinct xs"
  by (induction ys arbitrary: xs) auto

lemma fold_set_delete [simp]:
  "set (fold set_delete ys xs) = set xs - set ys" "distinct xs \<Longrightarrow> distinct (fold set_delete ys xs)"
  by (induction ys arbitrary: xs) auto

lemma fold_visible: "distinct (fold (\<lambda>mac. if truthy mac then set_add (mac_key mac) else (\<lambda>v. v)) macs v) \<longleftrightarrow> distinct v"
  by (induction macs arbitrary: v) auto

lemma batches_Nil [simp]: "batches n [] = []"
  by (subst batches.simps) simp

lemma concat_batches: "0 < n \<Longrightarrow> concat (batches n xs) = xs"
  by (induction n xs rule: batches.induct) (subst batches.simps, auto)

lemma batches_size: "0 < n \<Longrightarrow> b \<in> set (batches n xs) \<Longrightarrow> b \<noteq> [] \<and> length b \<le> n"
proof (induction n xs rule: batches.induct)
  case (1 n xs)
  show ?case
  proof (cases "xs = []")
    case False
    then have "b = take n xs \<or> b \<in> set (batches n (drop n xs))"
      using 1(2,3) by (subst (asm) batches.simps) auto
    then show ?thesis using 1 False by auto
  qed (use 1 in simp)
qed

lemma batches_eq_Nil: "0 < n \<Longrightarrow> batches n xs = [] \<longleftrightarrow> xs = []"
  by (subst batches.simps) simp

section \<open>Which replies are accepted\<close>

definition reported_keys :: "string \<Rightarrow> json list \<Rightarrow> jstr list option" where
  "reported_keys f es = map_opt (\<lambda>e. map_option mac_key (reported_mac f e)) es"

lemma report_fold:
  "distinct rem \<Longrightarrow> fold_opt (report_entry f) es rem =
     (case reported_keys f es of
        None \<Rightarrow> None
      | Some ks \<Rightarrow> if distinct ks \<and> set ks \<subseteq> set rem then Some (filter (\<lambda>m. m \<notin> set ks) rem) else None)"
proof (induction es arbitrary: rem)
  case (Cons e es)
  have step: "report_entry f e rem =
      (case map_option mac_key (reported_mac f e) of
         None \<Rightarrow> None | Some k \<Rightarrow> if k \<in> set rem then Some (set_delete k rem) else None)"
    by (simp add: report_entry_def split: option.split)
  show ?case
  proof (cases "map_option mac_key (reported_mac f e)")
    case None
    then show ?thesis by (simp add: step reported_keys_def)
  next
    case (Some k)
    have "distinct (set_delete k rem)" using Cons.prems by simp
    note IH = Cons.IH[OF this]
    have keys: "reported_keys f (e # es) = map_option ((#) k) (reported_keys f es)"
      using Some by (auto simp: reported_keys_def split: option.split)
    have "filter (\<lambda>m. m \<notin> set ks) (set_delete k rem) = filter (\<lambda>m. m \<notin> set (k # ks)) rem" for ks
      by (auto simp: set_delete_def intro!: filter_cong)
    then show ?thesis by (auto simp: step Some keys IH split: option.split)
  qed
qed (simp add: reported_keys_def)

lemma report_field_Some:
  "distinct rem \<Longrightarrow> report_field data f rem = Some (es, r) \<longleftrightarrow>
     json_prop data f = Some (JArr es) \<and>
     (\<exists>ks. reported_keys f es = Some ks \<and> distinct ks \<and> set ks \<subseteq> set rem \<and> r = filter (\<lambda>m. m \<notin> set ks) rem)"
  by (auto simp: report_field_def report_fold split: option.splits json.splits)

lemma delete_lists_Some:
  "delete_lists requested data = Some rep \<longleftrightarrow>
     (\<exists>d n f.
        json_prop data ''deleted'' = Some (JArr (deleted rep)) \<and> reported_keys ''deleted'' (deleted rep) = Some d \<and>
        json_prop data ''not_found'' = Some (JArr (not_found rep)) \<and> reported_keys ''not_found'' (not_found rep) = Some n \<and>
        json_prop data ''failed'' = Some (JArr (failed rep)) \<and> reported_keys ''failed'' (failed rep) = Some f \<and>
        distinct (d @ n @ f) \<and> set (d @ n @ f) = set requested)" (is "?lhs = ?rhs")
proof
  assume ?lhs
  then obtain r1 r2 r3 where f: "report_field data ''deleted'' (remdups requested) = Some (deleted rep, r1)"
      "report_field data ''not_found'' r1 = Some (not_found rep, r2)"
      "report_field data ''failed'' r2 = Some (failed rep, r3)" "r3 = []"
    by (auto simp: delete_lists_def bind_eq_Some_conv split: if_splits)
  obtain d where d: "json_prop data ''deleted'' = Some (JArr (deleted rep))" "reported_keys ''deleted'' (deleted rep) = Some d"
      "distinct d" "set d \<subseteq> set requested" "r1 = filter (\<lambda>m. m \<notin> set d) (remdups requested)"
    using f(1) report_field_Some[of "remdups requested"] by auto
  have "distinct r1" by (simp add: d(5))
  then obtain n where n: "json_prop data ''not_found'' = Some (JArr (not_found rep))" "reported_keys ''not_found'' (not_found rep) = Some n"
      "distinct n" "set n \<subseteq> set r1" "r2 = filter (\<lambda>m. m \<notin> set n) r1"
    using f(2) report_field_Some[of r1] by auto
  have "distinct r2" using \<open>distinct r1\<close> by (simp add: n(5))
  then obtain k where k: "json_prop data ''failed'' = Some (JArr (failed rep))" "reported_keys ''failed'' (failed rep) = Some k"
      "distinct k" "set k \<subseteq> set r2" "r3 = filter (\<lambda>m. m \<notin> set k) r2"
    using f(3) report_field_Some[of r2] by auto
  have "set r1 = set requested - set d" "set r2 = set r1 - set n" using d(5) n(5) by auto
  moreover have "set r2 \<subseteq> set k" using k(5) f(4) by (metis (lifting) filter_empty_conv subsetI)
  ultimately
  have "distinct (d @ n @ k)" "set (d @ n @ k) = set requested" using d n k by auto
  then show ?rhs using d(1,2) n(1,2) k(1,2) by blast
next
  assume ?rhs
  then obtain d n f where h: "reported_keys ''deleted'' (deleted rep) = Some d" "reported_keys ''not_found'' (not_found rep) = Some n"
      "reported_keys ''failed'' (failed rep) = Some f" "distinct (d @ n @ f)" "set (d @ n @ f) = set requested"
      "json_prop data ''deleted'' = Some (JArr (deleted rep))" "json_prop data ''not_found'' = Some (JArr (not_found rep))"
      "json_prop data ''failed'' = Some (JArr (failed rep))"
    by auto
  let ?r1 = "filter (\<lambda>m. m \<notin> set d) (remdups requested)"
  let ?r2 = "filter (\<lambda>m. m \<notin> set n) ?r1" and ?r3 = "filter (\<lambda>m. m \<notin> set f) (filter (\<lambda>m. m \<notin> set n) ?r1)"
  have "report_field data ''deleted'' (remdups requested) = Some (deleted rep, ?r1)"
    "report_field data ''not_found'' ?r1 = Some (not_found rep, ?r2)"
    "report_field data ''failed'' ?r2 = Some (failed rep, ?r3)"
    using h by (subst report_field_Some; auto)+
  moreover have "?r3 = []" using h(5) by (auto simp: filter_empty_conv)
  ultimately show ?lhs by (simp add: delete_lists_def)
qed

lemma delete_result_Inr:
  "delete_result num_str reply requested = Inr rep \<longleftrightarrow>
     json_prop reply ''status'' = Some (JStr (js ''success'')) \<and>
     (\<exists>data d n f. json_prop reply ''data'' = Some data \<and>
        json_prop data ''deleted'' = Some (JArr (deleted rep)) \<and> reported_keys ''deleted'' (deleted rep) = Some d \<and>
        json_prop data ''not_found'' = Some (JArr (not_found rep)) \<and> reported_keys ''not_found'' (not_found rep) = Some n \<and>
        json_prop data ''failed'' = Some (JArr (failed rep)) \<and> reported_keys ''failed'' (failed rep) = Some f \<and>
        distinct (d @ n @ f) \<and> set (d @ n @ f) = set requested)"
proof -
  have obj: "json_truthy num_str (Some v)" if "json_prop v k = Some w" for v k w
    using that by (cases v) (auto simp: json_prop_def json_truthy_def)
  have "delete_result num_str reply requested = Inr rep \<longleftrightarrow>
      json_prop reply ''status'' = Some (JStr (js ''success'')) \<and>
      (\<exists>data. json_prop reply ''data'' = Some data \<and> delete_lists requested data = Some rep)"
  proof (cases "json_prop reply ''data''")
    case None
    then show ?thesis by (simp add: delete_result_def Let_def json_truthy_def)
  next
    case (Some data)
    have "json_truthy num_str (Some data)" if "delete_lists requested data = Some rep"
      using that obj[of data "''deleted''"] by (auto simp: delete_lists_Some)
    then show ?thesis
      using Some obj[OF Some] by (auto simp: delete_result_def Let_def split: option.splits if_splits)
  qed
  then show ?thesis unfolding delete_lists_Some by blast
qed

lemma reported_keys_length: "reported_keys f es = Some ks \<Longrightarrow> length ks = length es"
  by (induction es arbitrary: ks) (auto simp: reported_keys_def split: option.splits)

lemma delete_result_length:
  assumes "delete_result num_str reply requested = Inr rep" "distinct requested"
  shows "length (deleted rep) + length (not_found rep) + length (failed rep) = length requested"
proof -
  obtain d n f where h: "reported_keys ''deleted'' (deleted rep) = Some d" "reported_keys ''not_found'' (not_found rep) = Some n"
      "reported_keys ''failed'' (failed rep) = Some f" "distinct (d @ n @ f)" "set (d @ n @ f) = set requested"
    using assms(1) by (auto simp: delete_result_Inr)
  have "length (d @ n @ f) = length requested"
    using h(4,5) assms(2) by (metis distinct_card)
  then show ?thesis using h(1-3) by (simp add: reported_keys_length)
qed

section \<open>The selection\<close>

definition selection_ok :: "device_list \<Rightarrow> bool" where
  "selection_ok s \<longleftrightarrow> distinct (selected s) \<and> distinct (visible s) \<and> set (selected s) \<subseteq> set (visible s) \<and>
     (\<forall>i\<in>set (inputs s). in_mac i \<in> set (visible s))"

lemma sync_simps [simp]:
  "selected (sync s) = selected s" "visible (sync s) = visible s" "busy (sync s) = busy s" "writable (sync s) = writable s"
  "dialogs (sync s) = dialogs s" "chain (sync s) = chain s" "requests (sync s) = requests s" "reports (sync s) = reports s"
  "refreshes (sync s) = refreshes s" "in_mac ` set (inputs (sync s)) = in_mac ` set (inputs s)"
  by (simp_all add: sync_def image_image)

lemma end_chain_simps [simp]:
  "selected (end_chain e d s) = selected s" "visible (end_chain e d s) = visible s" "busy (end_chain e d s) = False"
  "writable (end_chain e d s) = writable s" "dialogs (end_chain e d s) = dialogs s" "chain (end_chain e d s) = None"
  "requests (end_chain e d s) = requests s" "in_mac ` set (inputs (end_chain e d s)) = in_mac ` set (inputs s)"
  by (simp_all add: end_chain_def Let_def)

lemma end_chain_reports:
  "reports (end_chain e d s) = reports s @ (if e = None \<and> n_failed d = 0 then []
     else [\<lparr>note_error = e, note_counts = (n_deleted d, n_not_found d, n_failed d), note_failures = failures d\<rparr>])"
  by (simp add: end_chain_def Let_def)

lemma next_request_simps [simp]:
  "selected (next_request d s) = selected s" "visible (next_request d s) = visible s" "writable (next_request d s) = writable s"
  "dialogs (next_request d s) = dialogs s" "in_mac ` set (inputs (next_request d s)) = in_mac ` set (inputs s)"
  by (simp_all add: next_request_def split: list.split)

lemma selection_ok_alt:
  "selection_ok s \<longleftrightarrow> distinct (selected s) \<and> distinct (visible s) \<and> set (selected s) \<subseteq> set (visible s) \<and>
     in_mac ` set (inputs s) \<subseteq> set (visible s)"
  by (auto simp: selection_ok_def)

lemma selection_receive: "selection_ok s \<Longrightarrow> selection_ok (receive num_str a s)"
  by (auto simp: receive_def Let_def selection_ok_alt split: option.split list.split answer.split sum.split prod.split)

lemma selection_handle: "selection_ok s \<Longrightarrow> displayed s e \<Longrightarrow> selection_ok (handle num_str e s)"
proof (cases e)
  case (Set_Devices macs)
  assume "selection_ok s"
  then show ?thesis
    using Set_Devices by (auto simp: setDevices_def Let_def selection_ok_alt fold_visible)
next
  case (Toggle i b)
  assume s: "selection_ok s"
  have "set ((inputs s)[i := (inputs s ! i)\<lparr>in_checked := b\<rparr>]) \<subseteq> insert ((inputs s ! i)\<lparr>in_checked := b\<rparr>) (set (inputs s))"
    by (rule set_update_subset_insert)
  then have "in_mac ` set ((inputs s)[i := (inputs s ! i)\<lparr>in_checked := b\<rparr>]) \<subseteq> set (visible s)" if "i < length (inputs s)"
    using s that nth_mem[OF that] by (fastforce simp: selection_ok_def)
  then show ?thesis
    using s Toggle nth_mem[of i "inputs s"] by (auto simp: toggle_def Let_def selection_ok_alt not_le)
next
  case (Toggle_All b)
  assume s: "selection_ok s"
  then show ?thesis using Toggle_All by (auto simp: toggle_all_def Let_def selection_ok_alt)
next
  case (Confirm i)
  assume s: "selection_ok s"
  then show ?thesis using Confirm by (auto simp: confirm_def Let_def selection_ok_alt)
next
  case (Receive a)
  assume "selection_ok s"
  then show ?thesis using Receive by (simp add: selection_receive)
qed (auto simp: make_checkbox_def click_remove_def selection_ok_alt)

section \<open>The controls\<close>

text \<open>
  While no deletion runs the controls show the selection; while one runs they are all disabled,
  and show the selection again when it ends.
\<close>

definition controls_ok :: "device_list \<Rightarrow> bool" where
  "controls_ok s \<longleftrightarrow>
     (if busy s then all_disabled s \<and> remove_disabled s \<and> (\<forall>i\<in>set (inputs s). in_disabled i) else sync s = s)"

lemma sync_sync [simp]: "sync (sync s) = sync s"
  by (simp add: sync_def)

lemma controls_sync [simp]: "controls_ok (sync s)"
  by (auto simp: controls_ok_def) (auto simp: sync_def)

lemma controls_end_chain [simp]: "controls_ok (end_chain e d s)"
proof -
  have "sync (sync s\<lparr>refreshes := n\<rparr>) = sync s\<lparr>refreshes := n\<rparr>" for s n
    by (simp add: sync_def)
  then show ?thesis by (simp add: controls_ok_def end_chain_def Let_def)
qed

lemma controls_next_request:
  assumes "pending d = [] \<or> busy s" "controls_ok s"
  shows "controls_ok (next_request d s)"
  using assms by (auto simp: next_request_def controls_ok_def[of "s\<lparr>chain := Some d, requests := x\<rparr>" for x]
      split: list.split) (auto simp: controls_ok_def)

lemma controls_receive:
  assumes "controls_ok s" "chain s \<noteq> None \<longrightarrow> busy s"
  shows "controls_ok (receive num_str a s)"
  using assms
  by (auto simp: receive_def Let_def split: option.split list.split answer.split sum.split prod.split
      intro!: controls_next_request) (auto simp: controls_ok_def)


lemma synced_iff:
  "sync s = s \<longleftrightarrow>
     all_checked s = (0 < length (visible s) \<and> length (selected s) = length (visible s)) \<and>
     all_indeterminate s = (0 < length (selected s) \<and> length (selected s) < length (visible s)) \<and>
     all_disabled s = (busy s \<or> \<not> writable s \<or> length (visible s) = 0) \<and>
     remove_disabled s = (busy s \<or> \<not> writable s \<or> length (selected s) = 0) \<and>
     remove_count s = length (selected s) \<and>
     (\<forall>i\<in>set (inputs s). in_checked i = (in_mac i \<in> set (selected s)) \<and> in_disabled i = (busy s \<or> \<not> writable s))"
proof -
  have one: "i\<lparr>in_checked := c, in_disabled := b\<rparr> = i \<longleftrightarrow> in_checked i = c \<and> in_disabled i = b" for i :: device_input and c b
    by (cases i) auto
  have "map (\<lambda>i. i\<lparr>in_checked := in_mac i \<in> A, in_disabled := b\<rparr>) xs = xs \<longleftrightarrow>
      (\<forall>i\<in>set xs. in_checked i = (in_mac i \<in> A) \<and> in_disabled i = b)" for A b and xs :: "device_input list"
    by (induction xs) (simp_all add: one)
  then show ?thesis by (cases s) (auto simp: sync_def)
qed

lemma controls_handle:
  assumes "controls_ok s" "clickable s e" "busy s \<longleftrightarrow> chain s \<noteq> None"
  shows "controls_ok (handle num_str e s)"
proof (cases e)
  case (Make_Checkbox mac)
  then show ?thesis using assms by (auto simp: make_checkbox_def controls_ok_def synced_iff)
next
  case (Toggle i b)
  have "\<not> in_disabled (inputs s ! i) \<Longrightarrow> i < length (inputs s) \<Longrightarrow> \<not> busy s \<and> writable s"
  proof -
    assume i: "\<not> in_disabled (inputs s ! i)" "i < length (inputs s)"
    then have "\<not> busy s" using assms(1) nth_mem by (fastforce simp: controls_ok_def)
    then show ?thesis using i assms(1) nth_mem[OF i(2)] by (auto simp: controls_ok_def synced_iff)
  qed
  then show ?thesis using Toggle assms(2) by (simp add: toggle_def Let_def)
next
  case (Toggle_All b)
  have "\<not> busy s \<and> writable s" if "\<not> all_disabled s"
  proof -
    have "\<not> busy s" using assms(1) that by (auto simp: controls_ok_def)
    then show ?thesis using assms(1) that by (auto simp: controls_ok_def synced_iff)
  qed
  then show ?thesis using Toggle_All assms(2) by (simp add: toggle_all_def Let_def)
next
  case Click_Remove
  then show ?thesis using assms by (auto simp: click_remove_def controls_ok_def synced_iff)
next
  case (Confirm i)
  have "controls_ok (next_request d (sync (s\<lparr>busy := True\<rparr>)))" for d
    by (rule controls_next_request) simp_all
  then show ?thesis using Confirm assms by (simp add: confirm_def)
next
  case (Receive a)
  then show ?thesis using assms by (simp add: controls_receive)
qed (simp add: setDevices_def Let_def)

section \<open>The deletion\<close>

text \<open>
  What always holds of a deletion in progress: a dialog names devices, each once, the list is busy
  exactly while a chain runs, and a running chain has a request in flight.
\<close>

definition deletion_ok :: "device_list \<Rightarrow> bool" where
  "deletion_ok s \<longleftrightarrow>
     distinct (selected s) \<and> (\<forall>m\<in>set (dialogs s). distinct m \<and> m \<noteq> []) \<and>
     (busy s \<longleftrightarrow> chain s \<noteq> None) \<and> (\<forall>d. chain s = Some d \<longrightarrow> pending d \<noteq> [])"

lemma deletion_next_request:
  assumes "deletion_ok (s\<lparr>busy := False, chain := None\<rparr>)" "busy s"
  shows "deletion_ok (next_request d s)"
  using assms by (auto simp: deletion_ok_def next_request_def split: list.split)

lemma deletion_end_chain: "deletion_ok (s\<lparr>busy := False, chain := None\<rparr>) \<Longrightarrow> deletion_ok (end_chain err d s)"
  by (simp add: deletion_ok_def)

text \<open>A reply to the request in flight ends the chain with an error, or is counted and moves the chain on.\<close>

definition counted :: "deletion \<Rightarrow> delete_report \<Rightarrow> jstr list \<Rightarrow> deletion" where
  "counted d rep fs = d\<lparr>pending := tl (pending d), n_deleted := n_deleted d + length (deleted rep),
     n_not_found := n_not_found d + length (not_found rep), n_failed := n_failed d + length (failed rep), failures := fs\<rparr>"

definition deselect :: "jstr list \<Rightarrow> device_list \<Rightarrow> device_list" where
  "deselect ms s = s\<lparr>selected := fold set_delete ms (selected s)\<rparr>"

lemma deselect_simps [simp]:
  "dialogs (deselect ms s) = dialogs s" "busy (deselect ms s) = busy s" "chain (deselect ms s) = chain s"
  "requests (deselect ms s) = requests s" "reports (deselect ms s) = reports s"
  "distinct (selected s) \<Longrightarrow> distinct (selected (deselect ms s))"
  by (simp_all add: deselect_def del: fold_append)

lemma receive_cases [consumes 2, case_names failure success]:
  assumes "chain s = Some d" "pending d \<noteq> []"
  obtains (failure) e d' ms where "receive num_str a s = end_chain (Some e) d' (deselect ms s)"
  | (success) reply rep fs ms where "delete_result num_str reply (hd (pending d)) = Inr rep"
      "receive num_str a s = next_request (counted d rep fs) (deselect ms s)"
proof -
  obtain batch rest where p: "pending d = batch # rest" using assms(2) by (cases "pending d") auto
  have id: "deselect [] s = s" by (simp add: deselect_def)
  show thesis
  proof (cases a)
    case (Rejected e)
    then show thesis using failure[of "Rejection e" d "[]"] assms p by (simp add: receive_def id)
  next
    case (Answer reply)
    show thesis
    proof (cases "delete_result num_str reply batch")
      case (Inl e)
      then show thesis using failure[of e d "[]"] assms p Answer by (simp add: receive_def id)
    next
      case (Inr rep)
      obtain fs ok where fs: "push_failures num_str (failed rep) (failures d) = (fs, ok)" by fastforce
      let ?ms = "entry_keys (deleted rep @ not_found rep)"
      have "receive num_str a s = (if ok then next_request (counted d rep fs) (deselect ?ms s)
          else end_chain (Some Type_error) (counted d rep fs) (deselect ?ms s))"
        by (simp add: receive_def assms p Answer Inr fs counted_def deselect_def Let_def)
      then show thesis
        using failure[of Type_error "counted d rep fs" ?ms] success[of reply rep fs ?ms] Inr p by (cases ok) simp_all
    qed
  qed
qed

lemma deletion_receive:
  assumes "deletion_ok s"
  shows "deletion_ok (receive num_str a s)"
proof (cases "chain s")
  case None
  then show ?thesis using assms by (simp add: receive_def)
next
  case (Some d)
  have p: "pending d \<noteq> []" and b: "busy s" using assms Some by (auto simp: deletion_ok_def)
  have ok: "deletion_ok (deselect ms s\<lparr>busy := False, chain := None\<rparr>)" for ms
    using assms by (simp add: deletion_ok_def)
  show ?thesis
    by (rule receive_cases[OF Some p, of num_str a]) (simp_all add: deletion_end_chain deletion_next_request ok b)
qed

lemma deletion_handle:
  assumes "deletion_ok s"
  shows "deletion_ok (handle num_str e s)"
proof (cases e)
  case (Confirm i)
  have "deletion_ok (next_request d (sync (s\<lparr>busy := True\<rparr>)))" for d
    by (rule deletion_next_request) (use assms in \<open>simp_all add: deletion_ok_def\<close>)
  then show ?thesis using assms Confirm by (simp add: confirm_def)
next
  case (Receive a)
  then show ?thesis using assms by (simp add: deletion_receive)
qed (use assms in \<open>auto simp: deletion_ok_def setDevices_def make_checkbox_def toggle_def toggle_all_def click_remove_def Let_def\<close>)

lemma session_deletion: "session ok num_str s \<Longrightarrow> deletion_ok s"
  by (induction rule: session.induct) (simp_all add: deletion_handle, simp add: new_list_def deletion_ok_def)

section \<open>What the user confirmed\<close>

text \<open>
  The history of a session beside its state: the questions the user was asked, one per click on
  the enabled button with the devices selected at that moment, and the ones answered with yes while
  no other deletion ran, in the order of the answers. The state of the list takes no part in it
  beyond the flags that enable the button and the answer.
\<close>

definition asks :: "event \<Rightarrow> device_list \<Rightarrow> jstr list list" where
  "asks e s = (if e = Click_Remove \<and> \<not> busy s \<and> writable s \<and> selected s \<noteq> [] then [selected s] else [])"

fun answers_yes :: "jstr list list \<Rightarrow> event \<Rightarrow> device_list \<Rightarrow> jstr list list" where
  "answers_yes asked (Confirm i) s = (if i < length asked \<and> \<not> busy s then [asked ! i] else [])"
| "answers_yes asked _ s = []"

inductive history :: "(jstr \<Rightarrow> jstr) \<Rightarrow> jstr list list \<Rightarrow> jstr list list \<Rightarrow> device_list \<Rightarrow> bool" for num_str where
  history_start: "history num_str [] [] (new_list w)"
| history_move: "history num_str asked confirmed s \<Longrightarrow>
    history num_str (asked @ asks e s) (confirmed @ answers_yes asked e s) (handle num_str e s)"

text \<open>
  What one confirmed deletion did: the devices confirmed, the requests sent for them, and what was
  reported at its end. A deletion that is over has asked for all its devices, unless it reports an
  error; a report without an error accounts for every device.
\<close>

definition over :: "jstr list \<times> jstr list list \<times> notification list \<Rightarrow> bool" where
  "over h \<longleftrightarrow> (case h of (m, sent, out) \<Rightarrow>
     out = [] \<and> concat sent = m \<or>
     (\<exists>r. out = [r] \<and> (note_error r = None \<longrightarrow> concat sent = m \<and>
        (case note_counts r of (d, n, f) \<Rightarrow> 0 < f \<and> d + n + f = length m))))"

definition within_confirmed :: "jstr list \<times> jstr list list \<times> notification list \<Rightarrow> bool" where
  "within_confirmed h \<longleftrightarrow> (case h of (m, sent, out) \<Rightarrow>
     take (length (concat sent)) m = concat sent \<and> (\<forall>b\<in>set sent. b \<noteq> [] \<and> length b \<le> 50))"

definition running :: "deletion \<Rightarrow> jstr list \<Rightarrow> jstr list list \<Rightarrow> bool" where
  "running d m sent \<longleftrightarrow> pending d \<noteq> [] \<and> concat sent @ concat (tl (pending d)) = m \<and>
     sent \<noteq> [] \<and> last sent = hd (pending d) \<and> (\<forall>b\<in>set (pending d). b \<noteq> [] \<and> length b \<le> 50) \<and>
     n_deleted d + n_not_found d + n_failed d = length (concat (butlast sent))"

definition logged :: "device_list \<Rightarrow> (jstr list \<times> jstr list list \<times> notification list) list \<Rightarrow> bool" where
  "logged s hist \<longleftrightarrow>
     requests s = concat (map (fst \<circ> snd) hist) \<and> reports s = concat (map (snd \<circ> snd) hist) \<and>
     (\<forall>h\<in>set hist. within_confirmed h) \<and>
     (case chain s of
        None \<Rightarrow> \<forall>h\<in>set hist. over h
      | Some d \<Rightarrow> \<exists>old m sent. hist = old @ [(m, sent, [])] \<and> (\<forall>h\<in>set old. over h) \<and> running d m sent)"

lemma logged_frame:
  "logged s hist \<Longrightarrow> requests t = requests s \<Longrightarrow> reports t = reports s \<Longrightarrow> chain t = chain s \<Longrightarrow> logged t hist"
  by (simp add: logged_def)

lemma logged_next_request:
  assumes old: "\<forall>h\<in>set old. over h" "\<forall>h\<in>set old. within_confirmed h"
    and req: "requests s = concat (map (fst \<circ> snd) old) @ sent" and rep: "reports s = concat (map (snd \<circ> snd) old)"
    and m: "concat sent @ concat (pending d) = m" "n_deleted d + n_not_found d + n_failed d = length (concat sent)"
    and b: "\<forall>b\<in>set sent \<union> set (pending d). b \<noteq> [] \<and> length b \<le> 50"
  shows "\<exists>hist. map fst hist = map fst old @ [m] \<and> logged (next_request d s) hist"
proof (cases "pending d")
  case Nil
  let ?t = "end_chain None d s"
  define out where "out = (if n_failed d = 0 then []
     else [\<lparr>note_error = None, note_counts = (n_deleted d, n_not_found d, n_failed d), note_failures = failures d\<rparr>])"
  have "over (m, sent, out)" "within_confirmed (m, sent, out)"
    using m b Nil by (auto simp: over_def within_confirmed_def out_def)
  then have "logged ?t (old @ [(m, sent, out)])"
    using old req rep by (auto simp: logged_def end_chain_reports out_def)
  then show ?thesis using Nil by (intro exI[of _ "old @ [(m, sent, out)]"]) (simp add: next_request_def)
next
  case (Cons p rest)
  have "running d m (sent @ [p])" "within_confirmed (m, sent @ [p], [])"
    using m b Cons by (auto simp: running_def within_confirmed_def)
  then have "logged (s\<lparr>chain := Some d, requests := requests s @ [p]\<rparr>) (old @ [(m, sent @ [p], [])])"
    using old req rep by (auto simp: logged_def)
  then show ?thesis using Cons by (intro exI[of _ "old @ [(m, sent @ [p], [])]"]) (simp add: next_request_def)
qed

lemma logged_failure:
  assumes "logged s (old @ [(m, sent, [])])" "\<forall>h\<in>set old. over h"
  shows "\<exists>hist. map fst hist = map fst old @ [m] \<and> logged (end_chain (Some e) d s) hist"
proof -
  define r where "r = \<lparr>note_error = Some e, note_counts = (n_deleted d, n_not_found d, n_failed d), note_failures = failures d\<rparr>"
  have "logged (end_chain (Some e) d s) (old @ [(m, sent, [r])])"
    using assms by (auto simp: logged_def end_chain_reports r_def over_def within_confirmed_def)
  then show ?thesis by (intro exI[of _ "old @ [(m, sent, [r])]"]) simp
qed

lemma logged_receive:
  assumes "deletion_ok s" "logged s hist" "\<forall>h\<in>set hist. distinct (fst h)"
  shows "\<exists>hist'. map fst hist' = map fst hist \<and> logged (receive num_str a s) hist'"
proof (cases "chain s")
  case None
  then show ?thesis using assms by (auto simp: receive_def)
next
  case (Some d)
  obtain old m sent where h: "hist = old @ [(m, sent, [])]" "\<forall>h\<in>set old. over h" "running d m sent"
    using assms(2) Some by (auto simp: logged_def)
  have p: "pending d \<noteq> []" using h(3) by (simp add: running_def)
  have log: "logged (deselect ms s) (old @ [(m, sent, [])])" for ms
    using assms(2) h(1) by (auto intro: logged_frame)
  from Some p show ?thesis
  proof (cases rule: receive_cases[where num_str = num_str and a = a])
    case (failure e d' ms)
    then show ?thesis using logged_failure[OF log h(2)] h(1) by simp
  next
    case (success reply rep fs ms)
    obtain sent0 where sent: "sent = sent0 @ [hd (pending d)]"
      using h(3) by (metis append_butlast_last_id running_def)
    have "distinct (hd (pending d))"
      using assms(3) h(1,3) sent by (auto simp: running_def)
    note len = delete_result_length[OF success(1) this]
    have "\<exists>hist'. map fst hist' = map fst old @ [m] \<and> logged (next_request (counted d rep fs) (deselect ms s)) hist'"
    proof (rule logged_next_request)
      show "\<forall>h\<in>set old. over h" "\<forall>h\<in>set old. within_confirmed h"
        using h(2) log[of "[]"] by (simp_all add: logged_def)
      show "requests (deselect ms s) = concat (map (fst \<circ> snd) old) @ sent"
        "reports (deselect ms s) = concat (map (snd \<circ> snd) old)"
        using assms(2) h(1) by (simp_all add: logged_def)
      show "concat sent @ concat (pending (counted d rep fs)) = m"
        using h(3) by (simp add: running_def counted_def)
      show "n_deleted (counted d rep fs) + n_not_found (counted d rep fs) + n_failed (counted d rep fs) = length (concat sent)"
        using h(3) len sent by (simp add: running_def counted_def)
      show "\<forall>b\<in>set sent \<union> set (pending (counted d rep fs)). b \<noteq> [] \<and> length b \<le> 50"
        using h(3) log[of "[]"] p by (auto simp: logged_def within_confirmed_def running_def counted_def dest: list.set_sel(2))
    qed
    then show ?thesis using success(2) h(1) by simp
  qed
qed

lemma history_dialogs: "history num_str asked confirmed s \<Longrightarrow> dialogs s = asked"
proof (induction rule: history.induct)
  case (history_move asked confirmed s e)
  have rec: "dialogs (receive num_str a s) = dialogs s" for a
    by (auto simp: receive_def Let_def split: option.split list.split answer.split sum.split prod.split)
  show ?case
    using history_move.IH
    by (cases e) (auto simp: rec asks_def setDevices_def make_checkbox_def toggle_def toggle_all_def click_remove_def confirm_def Let_def)
qed (simp add: new_list_def)

lemma history_deletion: "history num_str asked confirmed s \<Longrightarrow> deletion_ok s"
  by (induction rule: history.induct) (simp_all add: deletion_handle, simp add: new_list_def deletion_ok_def)

lemma history_confirmed: "history num_str asked confirmed s \<Longrightarrow> set confirmed \<subseteq> set asked"
proof (induction rule: history.induct)
  case (history_move asked confirmed s e)
  then show ?case by (cases e) auto
qed simp

lemma history_logged:
  "history num_str asked confirmed s \<Longrightarrow> \<exists>hist. map fst hist = confirmed \<and> logged s hist"
proof (induction rule: history.induct)
  case (history_start w)
  show ?case by (intro exI[of _ "[]"]) (simp add: logged_def new_list_def)
next
  case (history_move asked confirmed s e)
  note ok = history_deletion[OF history_move.hyps] and dia = history_dialogs[OF history_move.hyps]
  obtain hist where hist: "map fst hist = confirmed" "logged s hist" using history_move.IH by blast
  show ?case
  proof (cases e)
    case (Confirm i)
    show ?thesis
    proof (cases "i < length asked \<and> \<not> busy s")
      case True
      then have "chain s = None" using ok by (simp add: deletion_ok_def)
      then have "\<forall>h\<in>set hist. over h" using hist(2) by (simp add: logged_def)
      then have "\<exists>h. map fst h = map fst hist @ [asked ! i] \<and> logged (next_request
          \<lparr>pending = batches 50 (asked ! i), n_deleted = 0, n_not_found = 0, n_failed = 0, failures = []\<rparr>
          (sync (s\<lparr>busy := True\<rparr>))) h"
        by (rule logged_next_request[where sent = "[]"])
          (use hist(2) batches_size[of 50 _ "asked ! i"] in \<open>simp_all add: logged_def concat_batches\<close>)
      then show ?thesis using True Confirm hist(1) by (simp add: confirm_def dia)
    next
      case False
      then have "handle num_str e s = s" using Confirm by (auto simp: confirm_def dia)
      then show ?thesis using hist False Confirm by auto
    qed
  next
    case (Receive a)
    have "\<forall>h\<in>set hist. distinct (fst h)"
    proof
      fix h
      assume "h \<in> set hist"
      then have "fst h \<in> set confirmed" using hist(1) by auto
      then show "distinct (fst h)"
        using ok dia history_confirmed[OF history_move.hyps] by (auto simp: deletion_ok_def)
    qed
    then show ?thesis using logged_receive[OF ok hist(2)] hist(1) Receive by simp
  qed (rule exI[of _ hist], rule conjI, use hist(1) in simp, rule logged_frame[OF hist(2)];
      simp add: setDevices_def make_checkbox_def toggle_def toggle_all_def click_remove_def Let_def)+
qed

lemma session_selection:
  assumes "session ok num_str s" "\<And>s e. ok s e \<Longrightarrow> displayed s e"
  shows "selection_ok s"
  using assms(1) by (induction rule: session.induct) (simp_all add: selection_handle assms(2), simp add: new_list_def selection_ok_def)

lemma session_controls:
  assumes "session ok num_str s" "\<And>s e. ok s e \<Longrightarrow> clickable s e"
  shows "controls_ok s"
  using assms(1)
proof (induction rule: session.induct)
  case (start w)
  then show ?case by (simp add: new_list_def controls_ok_def synced_iff)
next
  case (move s e)
  have "busy s \<longleftrightarrow> chain s \<noteq> None" using session_deletion[OF move.hyps(1)] by (simp add: deletion_ok_def)
  then show ?case by (rule controls_handle[OF move.IH assms(2)[OF move.hyps(2)]])
qed

text \<open>A deletion ends: every reply shortens what is pending, and nothing else lengthens it.\<close>

definition awaiting :: "device_list \<Rightarrow> nat" where
  "awaiting s = (case chain s of None \<Rightarrow> 0 | Some d \<Rightarrow> length (pending d))"

fun replies :: "event list \<Rightarrow> nat" where
  "replies [] = 0"
| "replies (Receive a # es) = Suc (replies es)"
| "replies (_ # es) = replies es"

fun run_events :: "(jstr \<Rightarrow> jstr) \<Rightarrow> event list \<Rightarrow> device_list \<Rightarrow> device_list" where
  "run_events num_str [] s = s"
| "run_events num_str (e # es) s = run_events num_str es (handle num_str e s)"

lemma awaiting_receive: "awaiting (receive num_str a s) \<le> awaiting s - 1"
  by (auto simp: awaiting_def receive_def next_request_def Let_def
      split: option.splits list.splits answer.splits sum.splits prod.splits if_splits)

lemma awaiting_handle: "chain s \<noteq> None \<Longrightarrow> busy s \<Longrightarrow> (\<And>a. e \<noteq> Receive a) \<Longrightarrow> awaiting (handle num_str e s) = awaiting s"
  by (cases e) (auto simp: awaiting_def setDevices_def make_checkbox_def toggle_def toggle_all_def click_remove_def
      confirm_def Let_def)

lemma deletion_run:
  assumes "deletion_ok s" "awaiting s \<le> replies es"
  shows "\<exists>k\<le>length es. \<not> busy (run_events num_str (take k es) s)"
  using assms
proof (induction es arbitrary: s)
  case Nil
  then have "chain s = None" by (auto simp: awaiting_def deletion_ok_def split: option.splits)
  then show ?case using Nil by (simp add: deletion_ok_def)
next
  case (Cons e es)
  show ?case
  proof (cases "busy s")
    case False
    then show ?thesis by (intro exI[of _ 0]) simp
  next
    case busy: True
    then have "chain s \<noteq> None" using Cons.prems by (simp add: deletion_ok_def)
    then have "awaiting (handle num_str e s) \<le> replies es"
    proof (cases "\<exists>a. e = Receive a")
      case True
      then obtain a where "e = Receive a" by blast
      then show ?thesis using Cons.prems(2) awaiting_receive[of num_str a s] by simp
    next
      case False
      then have "replies (e # es) = replies es" by (cases e) auto
      then show ?thesis using False Cons.prems(2) busy awaiting_handle[of s e num_str] \<open>chain s \<noteq> None\<close> by simp
    qed
    from Cons.IH[OF deletion_handle[OF Cons.prems(1)] this] obtain k
      where "k \<le> length es" "\<not> busy (run_events num_str (take k es) (handle num_str e s))" by blast
    then show ?thesis by (intro exI[of _ "Suc k"]) simp
  qed
qed

text \<open>
  C32: a reply is accepted exactly when it reports success and its three lists together name every
  requested address once and no other; what is accepted are these lists.
\<close>

theorem delete_result_exact:
  "delete_result num_str reply requested = Inr rep \<longleftrightarrow>
     json_prop reply ''status'' = Some (JStr (js ''success'')) \<and>
     (\<exists>data d n f. json_prop reply ''data'' = Some data \<and>
        json_prop data ''deleted'' = Some (JArr (deleted rep)) \<and> reported_keys ''deleted'' (deleted rep) = Some d \<and>
        json_prop data ''not_found'' = Some (JArr (not_found rep)) \<and> reported_keys ''not_found'' (not_found rep) = Some n \<and>
        json_prop data ''failed'' = Some (JArr (failed rep)) \<and> reported_keys ''failed'' (failed rep) = Some f \<and>
        distinct (d @ n @ f) \<and> set (d @ n @ f) = set requested)"
  by (rule delete_result_Inr)

section \<open>Claims on the list\<close>

text \<open>
  Whatever order polling, ticking, dialogs and replies come in, only devices that are
  displayed are ever selected, each once.
\<close>

theorem selection_follows_list:
  assumes "session displayed num_str s"
  shows "set (selected s) \<subseteq> set (visible s) \<and> distinct (selected s)"
  using session_selection[OF assms] by (simp add: selection_ok_def)

text \<open>
  C14: while no deletion runs, "select all" is ticked exactly when every displayed device is
  selected, half-ticked when some are, the button is enabled exactly when something may be deleted,
  and every checkbox shows its device's selection; while a deletion runs every control is disabled.
\<close>

theorem controls_show_selection:
  assumes "session (\<lambda>s e. displayed s e \<and> clickable s e) num_str s"
  shows "if busy s then all_disabled s \<and> remove_disabled s \<and> (\<forall>i\<in>set (inputs s). in_disabled i)
     else (all_checked s \<longleftrightarrow> visible s \<noteq> [] \<and> set (selected s) = set (visible s)) \<and>
       (all_indeterminate s \<longleftrightarrow> selected s \<noteq> [] \<and> set (selected s) \<subset> set (visible s)) \<and>
       (remove_disabled s \<longleftrightarrow> \<not> writable s \<or> selected s = []) \<and> remove_count s = card (set (selected s)) \<and>
       (\<forall>i\<in>set (inputs s). in_checked i \<longleftrightarrow> in_mac i \<in> set (selected s))"
proof -
  have c: "controls_ok s" and sel: "selection_ok s"
    using session_controls[OF assms] session_selection[OF assms] by auto
  have sub: "set (selected s) \<subseteq> set (visible s)" and len: "length (selected s) = card (set (selected s))"
      "length (visible s) = card (set (visible s))"
    using sel by (simp_all add: selection_ok_def distinct_card)
  have card: "card (set (selected s)) = card (set (visible s)) \<longleftrightarrow> set (selected s) = set (visible s)"
    "card (set (selected s)) < card (set (visible s)) \<longleftrightarrow> set (selected s) \<subset> set (visible s)"
    using sub card_subset_eq[of "set (visible s)" "set (selected s)"] psubset_card_mono[of "set (visible s)" "set (selected s)"]
    by auto
  show ?thesis
  proof (cases "busy s")
    case True
    then show ?thesis using c by (simp add: controls_ok_def)
  next
    case False
    then have "sync s = s" using c by (simp add: controls_ok_def)
    then show ?thesis unfolding synced_iff using False by (simp add: len card card_gt_0_iff)
  qed
qed

text \<open>
  C3: whatever the events, every request belongs to a deletion the user asked for and confirmed:
  the requests are, in order, what the confirmed deletions sent, each deletion naming the devices
  that were selected when its question was opened, from the first on, 1 to 50 per request. A deletion
  that is over has asked for all its devices, or reports an error; a report without an error
  has failures to tell and its three counts add up to the number of devices.
\<close>

theorem deletes_only_confirmed:
  assumes "history num_str asked confirmed s"
  shows "set confirmed \<subseteq> set asked \<and> (busy s \<longrightarrow> confirmed \<noteq> []) \<and>
    (\<exists>sent out. length sent = length confirmed \<and> length out = length confirmed \<and>
      requests s = concat sent \<and> reports s = concat out \<and>
      (\<forall>i<length confirmed.
        take (length (concat (sent ! i))) (confirmed ! i) = concat (sent ! i) \<and>
        (\<forall>b\<in>set (sent ! i). b \<noteq> [] \<and> length b \<le> 50) \<and>
        (if busy s \<and> Suc i = length confirmed then out ! i = []
         else out ! i = [] \<and> concat (sent ! i) = confirmed ! i \<or>
           (\<exists>r. out ! i = [r] \<and> (note_error r = None \<longrightarrow> concat (sent ! i) = confirmed ! i \<and>
              (case note_counts r of (d, n, f) \<Rightarrow> 0 < f \<and> d + n + f = length (confirmed ! i)))))))"
proof -
  obtain hist where h: "confirmed = map fst hist" "logged s hist" using history_logged[OF assms] by blast
  have busy: "busy s \<longleftrightarrow> chain s \<noteq> None" using history_deletion[OF assms] by (simp add: deletion_ok_def)
  have "busy s \<longrightarrow> confirmed \<noteq> []" using h busy by (auto simp: logged_def)
  moreover have "within_confirmed (hist ! i)" "busy s \<and> Suc i = length hist \<Longrightarrow> snd (snd (hist ! i)) = []"
    "\<not> (busy s \<and> Suc i = length hist) \<Longrightarrow> over (hist ! i)" if "i < length hist" for i
    using h(2) that busy by (auto simp: logged_def nth_append split: option.splits if_splits)
  ultimately show ?thesis
    using h history_confirmed[OF assms]
    by (intro conjI exI[of _ "map (fst \<circ> snd) hist"] exI[of _ "map (snd \<circ> snd) hist"])
      (simp_all add: logged_def within_confirmed_def over_def split_beta)
qed

text \<open>
  C24: a deletion ends, successful or not: as soon as the requests still to be answered have had a
  reply, whatever else happened in between, the list is idle again.
\<close>

theorem deletion_ends:
  assumes "session ok num_str s" "awaiting s \<le> replies es"
  shows "\<exists>k\<le>length es. \<not> busy (run_events num_str (take k es) s)"
  using session_deletion[OF assms(1)] assms(2) by (rule deletion_run)

section \<open>A session\<close>

fun events_ok :: "(device_list \<Rightarrow> event \<Rightarrow> bool) \<Rightarrow> (jstr \<Rightarrow> jstr) \<Rightarrow> event list \<Rightarrow> device_list \<Rightarrow> bool" where
  "events_ok ok num_str [] s \<longleftrightarrow> True"
| "events_ok ok num_str (e # es) s \<longleftrightarrow> ok s e \<and> events_ok ok num_str es (handle num_str e s)"

lemma session_run: "session ok num_str s \<Longrightarrow> events_ok ok num_str es s \<Longrightarrow> session ok num_str (run_events num_str es s)"
  by (induction es arbitrary: s) (auto intro: move)

definition example_events :: "event list" where
  "example_events = [Set_Devices [js ''a'', js ''b''], Make_Checkbox (js ''a''), Make_Checkbox (js ''b''),
     Toggle 0 True, Click_Remove, Toggle 1 True, Confirm 0]"

lemmas list_eval = example_events_def setDevices_def make_checkbox_def toggle_def click_remove_def confirm_def next_request_def
  sync_def new_list_def set_add_def set_delete_def mac_key_def to_lower_def lower_cu_def Let_def js_def truthy_def batches.simps

lemma example_state:
  "selected (run_events n example_events (new_list True)) = [js ''a'', js ''b'']"
  "visible (run_events n example_events (new_list True)) = [js ''a'', js ''b'']"
  "requests (run_events n example_events (new_list True)) = [[js ''a'']]"
  "dialogs (run_events n example_events (new_list True)) = [[js ''a'']]"
  "awaiting (run_events n example_events (new_list True)) = 1" "busy (run_events n example_events (new_list True))"
  "session (\<lambda>s e. displayed s e \<and> clickable s e) n (run_events n example_events (new_list True))"
proof -
  have ok: "events_ok (\<lambda>s e. displayed s e \<and> clickable s e) n example_events (new_list True)"
    by (simp add: list_eval)
  show "session (\<lambda>s e. displayed s e \<and> clickable s e) n (run_events n example_events (new_list True))"
    by (rule session_run[OF start ok])
qed (simp_all add: list_eval awaiting_def)

lemma session_weaken: "session ok n s \<Longrightarrow> (\<And>s e. ok s e \<Longrightarrow> ok' s e) \<Longrightarrow> session ok' n s"
  by (induction rule: session.induct) (auto intro: start move)

theorem selection_follows_list_witness:
  "set (selected (run_events (\<lambda>t. t) example_events (new_list True))) \<subseteq> {js ''a'', js ''b''}"
  using selection_follows_list[OF session_weaken[OF example_state(7)]] by (simp add: example_state)

theorem controls_show_selection_witness:
  "all_disabled (run_events (\<lambda>t. t) example_events (new_list True)) \<and>
   remove_disabled (run_events (\<lambda>t. t) example_events (new_list True))"
  using controls_show_selection[OF example_state(7), of "\<lambda>t. t"] by (simp add: example_state)

fun history_of :: "(jstr \<Rightarrow> jstr) \<Rightarrow> event list \<Rightarrow> jstr list list \<times> jstr list list \<times> device_list \<Rightarrow>
    jstr list list \<times> jstr list list \<times> device_list" where
  "history_of num_str [] h = h"
| "history_of num_str (e # es) (asked, confirmed, s) =
     history_of num_str es (asked @ asks e s, confirmed @ answers_yes asked e s, handle num_str e s)"

lemma history_run:
  "history n asked confirmed s \<Longrightarrow> history_of n es (asked, confirmed, s) = (asked', confirmed', s') \<Longrightarrow> history n asked' confirmed' s'"
  by (induction es arbitrary: asked confirmed s) (auto intro: history_move)

lemma example_history: "history n [[js ''a'']] [[js ''a'']] (run_events n example_events (new_list True))"
  by (rule history_run[OF history_start, of n example_events True]) (simp add: list_eval asks_def)

theorem deletes_only_confirmed_witness:
  "\<exists>sent out. requests (run_events (\<lambda>t. t) example_events (new_list True)) = concat [sent] \<and>
     reports (run_events (\<lambda>t. t) example_events (new_list True)) = concat [out] \<and>
     take (length (concat sent)) [js ''a''] = concat sent \<and> out = []"
proof -
  let ?s = "run_events (\<lambda>t. t) example_events (new_list True)"
  obtain sent out where so: "length sent = Suc 0" "length out = Suc 0" "requests ?s = concat sent" "reports ?s = concat out"
      "take (length (concat (sent ! 0))) ([[js ''a'']] ! 0) = concat (sent ! 0)" "out ! 0 = []"
    using deletes_only_confirmed[OF example_history, of "\<lambda>t. t"] example_state(6)[of "\<lambda>t. t"] by auto
  then have "sent = [sent ! 0]" "out = [out ! 0]" by (auto simp: length_Suc_conv)
  then show ?thesis using so by (intro exI[of _ "sent ! 0"] exI[of _ "out ! 0"]) auto
qed

theorem deletion_ends_witness:
  "\<exists>k\<le>Suc 1. \<not> busy (run_events (\<lambda>t. t) (take k [Set_Devices [], Receive (Rejected (js ''timeout''))])
     (run_events (\<lambda>t. t) example_events (new_list True)))"
  using deletion_ends[OF example_state(7), of "\<lambda>t. t" "[Set_Devices [], Receive (Rejected (js ''timeout''))]"]
  by (simp add: example_state)

end
