(* ===== verification/Bandix_Quota.thy ===== *)
theory Bandix_Quota
  imports Complex_Main
begin

text \<open>
  The traffic quota form of Bandix (\<open>bandix/quota.js\<close>): what a stored quota shows as
  (\<open>blockedText\<close>, \<open>summary\<close>, \<open>render\<close>, \<open>fill\<close>), which
  controls may be used (\<open>canEdit\<close>, \<open>canSave\<close>, \<open>syncDisabled\<close>), and what
  the form is read back as (\<open>read\<close>). Byte counts and the numbers in the fields are rationals:
  of a form the code takes a remainder, and a product or quotient with a power of two, which doubles
  compute exactly; a product that overflows is rejected like any number above \<open>2^53 - 1\<close>.
  The summary compares ratios of use, which the model has exactly and doubles rounded.
  Translated texts are their English originals.
\<close>

section \<open>Quotas\<close>

datatype period = Minute | Hourly | Daily | Weekly | Monthly | Total

definition periods :: "period list" where
  "periods = [Minute, Hourly, Daily, Weekly, Monthly, Total]"

fun period_label :: "period \<Rightarrow> string" where
  "period_label Minute = ''Minute''"
| "period_label Hourly = ''Hourly''"
| "period_label Daily = ''Daily''"
| "period_label Weekly = ''Weekly''"
| "period_label Monthly = ''Monthly''"
| "period_label Total = ''Lifetime''"

definition size_units :: "int list" where
  "size_units = [1, 1024, 1048576, 1073741824, 1099511627776]"

datatype quota_mode = Combined_Mode | Directional_Mode
datatype direction = Upload | Download | Combined

text \<open>One group of limits: a missing or zero \<open>_bytes\<close> entry is 0.\<close>

record quota_data =
  limit_bytes :: "period \<Rightarrow> rat"
  used_bytes :: "period \<Rightarrow> rat"
  blocked :: bool

text \<open>
  A stored quota. \<open>directional\<close> tells whether its \<open>mode\<close> is the string
  \<open>directional\<close>; the two directions may be missing.
\<close>

record quota = quota_data +
  directional :: bool
  upload :: "quota_data option"
  download :: "quota_data option"

definition modeOf :: "quota option \<Rightarrow> quota_mode" where
  "modeOf q = (case q of Some q' \<Rightarrow> if directional q' then Directional_Mode else Combined_Mode | None \<Rightarrow> Combined_Mode)"

definition blockedText :: "quota option \<Rightarrow> string" where
  "blockedText q =
     (case q of
        None \<Rightarrow> ''''
      | Some q' \<Rightarrow>
          if \<not> blocked q' then ''''
          else if modeOf q = Combined_Mode then ''Upload and download blocked''
          else (case (upload q', download q') of
                  (Some u, Some d) \<Rightarrow>
                    if blocked u \<and> blocked d then ''Upload and download blocked''
                    else if blocked u then ''Upload blocked''
                    else if blocked d then ''Download blocked''
                    else ''Quota blocked''
                | _ \<Rightarrow> ''Upload and download blocked''))"

text \<open>The period of a group whose limit is used up most; ties go to the earlier period.\<close>

definition most_used :: "quota_data \<Rightarrow> period option" where
  "most_used data = fold (\<lambda>p best.
     if 0 < limit_bytes data p \<and>
        (case best of None \<Rightarrow> True
         | Some b \<Rightarrow> used_bytes data b / limit_bytes data b < used_bytes data p / limit_bytes data p)
     then Some p else best) periods None"

text \<open>The group \<open>{}\<close> that stands for a missing direction.\<close>

definition no_data :: quota_data where
  "no_data = \<lparr>limit_bytes = (\<lambda>_. 0), used_bytes = (\<lambda>_. 0), blocked = False\<rparr>"

definition data_of :: "quota \<Rightarrow> quota_data" where
  "data_of q = \<lparr>limit_bytes = limit_bytes q, used_bytes = used_bytes q, blocked = blocked q\<rparr>"

text \<open>
  The table cell: its title, and its rows, each with a label, the most used period with the bytes
  used and allowed (\<open>Unlimited\<close> when there is none), and whether the row is blocked.
\<close>

definition summary :: "quota option \<Rightarrow> (string \<times> (string \<times> (string \<times> rat \<times> rat) option \<times> bool) list) option" where
  "summary q =
     (case q of
        None \<Rightarrow> None
      | Some q' \<Rightarrow>
          (let groups = (if modeOf q = Directional_Mode
               then [(''Upload'', case upload q' of None \<Rightarrow> no_data | Some u \<Rightarrow> u),
                     (''Download'', case download q' of None \<Rightarrow> no_data | Some d \<Rightarrow> d)]
               else [(''Combined'', data_of q')])
           in Some (if blockedText q = [] then ''Traffic Quota'' else blockedText q, map (\<lambda>(label, data).
                (label, map_option (\<lambda>p. (period_label p, used_bytes data p, limit_bytes data p)) (most_used data), blocked data))
              groups)))"

section \<open>The form\<close>

text \<open>
  The number field: the number of its text (\<open>None\<close> when that is not finite), 0 for an empty
  text; whether the browser reports bad input; its unit; and whether it is disabled.
\<close>

record quota_field =
  amount :: "rat option"
  bad_input :: bool
  unit_size :: int
  field_disabled :: bool
  usage :: "(rat \<times> rat) option"
  exceeded :: bool

datatype badge = Unavailable | Loading | Not_Saved | Not_Configured | Blocked | Active

record quota_form =
  fields_of :: "direction \<Rightarrow> period \<Rightarrow> quota_field"
  mode :: quota_mode
  mode_disabled :: bool
  separate_disabled :: bool
  separate_shown :: bool
  help_text :: string
  writable :: bool
  busy :: bool
  ready :: bool
  supported :: bool
  error :: "string option"
  current :: "quota option"
  badge_of :: "direction \<Rightarrow> badge"
  badge_blocked :: "direction \<Rightarrow> bool"
  badge_unconfigured :: "direction \<Rightarrow> bool"
  message :: string
  message_alert :: bool

definition fill :: "rat \<Rightarrow> period \<Rightarrow> quota_field \<Rightarrow> quota_field" where
  "fill bytes period input =
     (let default_unit = (if 0 < bytes then 1 else if period = Minute then 1048576 else 1073741824);
          u = (if 0 < bytes
               then case find (\<lambda>u. of_int u \<le> bytes \<and> bytes - of_int u * of_int \<lfloor>bytes / of_int u\<rfloor> = 0) (rev size_units) of
                      Some u \<Rightarrow> u | None \<Rightarrow> default_unit
               else default_unit)
      in input\<lparr>unit_size := u, amount := Some (bytes / of_int u), bad_input := False\<rparr>)"

definition canEdit :: "quota_form \<Rightarrow> bool" where
  "canEdit s \<longleftrightarrow> writable s \<and> ready s \<and> error s = None \<and> \<not> busy s"

definition canSave :: "quota_form \<Rightarrow> bool" where
  "canSave s \<longleftrightarrow> canEdit s \<and> (mode s = Combined_Mode \<or> supported s)"

definition active :: "quota_mode \<Rightarrow> direction \<Rightarrow> bool" where
  "active md d \<longleftrightarrow> (if md = Directional_Mode then d \<noteq> Combined else d = Combined)"

definition data_for :: "quota option \<Rightarrow> direction \<Rightarrow> quota_data option" where
  "data_for q d =
     (case q of
        None \<Rightarrow> None
      | Some q' \<Rightarrow> (case d of Combined \<Rightarrow> Some (data_of q') | Upload \<Rightarrow> upload q' | Download \<Rightarrow> download q'))"

definition syncDisabled :: "quota_form \<Rightarrow> quota_form" where
  "syncDisabled s =
     (let is_pending = current s \<noteq> None \<and> mode s \<noteq> modeOf (current s);
          is_blocked = (\<lambda>d. case data_for (current s) d of None \<Rightarrow> False | Some data \<Rightarrow> blocked data)
      in s\<lparr>mode_disabled := \<not> canEdit s,
           separate_disabled := \<not> supported s,
           separate_shown := (mode s = Directional_Mode),
           help_text := (if mode s = Directional_Mode
                    then ''WAN upload and download have separate quotas. Only the exhausted direction is blocked. Enter 0 for unlimited.''
                    else ''WAN upload and download are counted together. Enter 0 for unlimited.''),
           fields_of := (\<lambda>d p. (fields_of s d p)\<lparr>field_disabled := \<not> canSave s \<or> \<not> active (mode s) d\<rparr>),
           badge_of := (\<lambda>d.
             if error s \<noteq> None then Unavailable else if \<not> ready s then Loading else if is_pending then Not_Saved
             else if data_for (current s) d = None then Not_Configured else if is_blocked d then Blocked else Active),
           badge_blocked := (\<lambda>d. \<not> is_pending \<and> is_blocked d),
           badge_unconfigured := (\<lambda>d. data_for (current s) d = None \<or> error s \<noteq> None \<or> is_pending)\<rparr>)"

definition setBusy :: "bool \<Rightarrow> quota_form \<Rightarrow> quota_form" where
  "setBusy v s = syncDisabled (s\<lparr>busy := v\<rparr>)"

text \<open>The user chooses a mode, types a number or chooses a unit; \<open>changed\<close> runs.\<close>

definition choose_mode :: "quota_mode \<Rightarrow> quota_form \<Rightarrow> quota_form" where
  "choose_mode md s = syncDisabled (s\<lparr>mode := md\<rparr>)"

definition edit_field :: "direction \<Rightarrow> period \<Rightarrow> rat option \<Rightarrow> bool \<Rightarrow> int \<Rightarrow> quota_form \<Rightarrow> quota_form" where
  "edit_field d p a bad u s =
     syncDisabled (s\<lparr>fields_of := (fields_of s)(d := (fields_of s d)(p :=
       (fields_of s d p)\<lparr>amount := a, bad_input := bad, unit_size := u\<rparr>))\<rparr>)"

record quota_state =
  st_ready :: bool
  st_supported :: bool
  st_error :: "string option"
  st_preserveInputs :: bool

definition render :: "quota option \<Rightarrow> quota_state \<Rightarrow> quota_form \<Rightarrow> quota_form" where
  "render q st s =
     (let refill = (\<not> st_preserveInputs st \<and> \<not> busy s);
          s1 = s\<lparr>ready := st_ready st, supported := st_supported st, error := st_error st, current := q\<rparr>;
          s2 = (if refill then s1\<lparr>mode := modeOf q\<rparr> else s1);
          s3 = s2\<lparr>message := (case st_error st of
                 Some e \<Rightarrow> e
               | None \<Rightarrow> if \<not> st_ready st then ''Loading...''
                        else if \<not> st_supported st
                        then ''This service supports combined quotas only. Update Bandix to use separate quotas.''
                        else if q = None then ''Usage starts when a quota is first saved.'' else ''''), message_alert := st_error st \<noteq> None\<rparr>;
          s4 = s3\<lparr>fields_of := (\<lambda>d p.
                 let data = data_for q d;
                     lim = (case data of None \<Rightarrow> 0 | Some x \<Rightarrow> limit_bytes x p);
                     usd = (case data of None \<Rightarrow> 0 | Some x \<Rightarrow> used_bytes x p);
                     input = (if refill then fill lim p (fields_of s3 d p) else fields_of s3 d p)
                 in input\<lparr>usage := (if data = None then None else Some (usd, lim)), exceeded := 0 < lim \<and> lim \<le> usd\<rparr>)\<rparr>
      in syncDisabled s4)"

section \<open>Reading the form\<close>

definition max_safe :: int where
  "max_safe = 9007199254740991"

text \<open>The limit of a field in bytes; \<open>None\<close> when it is rejected.\<close>

definition read_field :: "quota_field \<Rightarrow> int option" where
  "read_field input =
     (case amount input of
        None \<Rightarrow> None
      | Some v \<Rightarrow>
          (let bytes = \<lfloor>v * of_int (unit_size input) + 1/2\<rfloor>
           in if bad_input input \<or> v < 0 \<or> unit_size input \<notin> set size_units \<or> \<bar>bytes\<bar> > max_safe
              then None else Some bytes))"

text \<open>What is sent to the service: the limits of every direction.\<close>

record quota_request =
  rq_mac :: string
  rq_mode :: quota_mode
  rq_bytes :: "direction \<Rightarrow> period \<Rightarrow> int"

definition read :: "string \<Rightarrow> quota_form \<Rightarrow> string + quota_request" where
  "read mac s =
     (if \<not> canSave s then Inl ''Failed to save traffic quota''
      else if \<exists>d\<in>set [Upload, Download, Combined]. active (mode s) d \<and>
                (\<exists>p\<in>set periods. read_field (fields_of s d p) = None)
      then Inl ''Quota values must be non-negative and within the supported range.''
      else Inr \<lparr>rq_mac = mac, rq_mode = mode s,
        rq_bytes = (\<lambda>d p. if active (mode s) d then the (read_field (fields_of s d p)) else 0)\<rparr>)"

section \<open>Filling and reading a field\<close>

lemma size_units_positive: "u \<in> set size_units \<Longrightarrow> 0 < u"
  by (auto simp: size_units_def)

lemma size_units_one: "(1::int) \<in> set size_units"
  by (simp add: size_units_def)

lemma fill_unit: "unit_size (fill bytes p input) \<in> set size_units"
proof -
  have "u \<in> set size_units" if "find P (rev size_units) = Some u" for P u
    using that by (metis (no_types, lifting) find_Some_iff nth_mem set_rev)
  then show ?thesis
    by (simp add: fill_def Let_def split: option.split) (simp add: size_units_def)
qed

lemma fill_amount:
  "amount (fill bytes p input) = Some (bytes / of_int (unit_size (fill bytes p input)))" "bad_input (fill bytes p input) = False"
  by (simp_all add: fill_def Let_def)

lemma floor_half: "\<lfloor>of_int b + 1/2 :: rat\<rfloor> = b"
  by (simp add: floor_eq_iff)

lemma read_fill:
  assumes "0 \<le> b" "b \<le> max_safe"
  shows "read_field (fill (of_int b) p input) = Some b"
proof -
  let ?f = "fill (of_int b) p input"
  have u: "unit_size ?f \<in> set size_units" "0 < unit_size ?f" using fill_unit size_units_positive by blast+
  have "(of_int b / of_int (unit_size ?f)) * of_int (unit_size ?f) = (of_int b :: rat)" using u(2) by simp
  moreover have "0 \<le> (of_int b / of_int (unit_size ?f) :: rat)" using u(2) assms(1) by simp
  ultimately show ?thesis
    using u(1) assms by (simp only: read_field_def fill_amount option.case Let_def floor_half) simp
qed

lemma read_field_cong:
  assumes "amount f = amount g" "bad_input f = bad_input g" "unit_size f = unit_size g"
  shows "read_field f = read_field g"
  unfolding read_field_def assms ..

lemma read_field_Some:
  assumes "read_field f = Some b"
  shows "0 \<le> b" "b \<le> max_safe" "\<exists>v. amount f = Some v \<and> \<bar>of_int b - v * of_int (unit_size f)\<bar> \<le> 1/2"
proof -
  obtain v where v: "amount f = Some v" "b = \<lfloor>v * of_int (unit_size f) + 1/2\<rfloor>" "0 \<le> v" "unit_size f \<in> set size_units"
      "\<bar>b\<bar> \<le> max_safe"
    using assms by (auto simp: read_field_def Let_def split: option.splits if_splits)
  have "0 \<le> v * of_int (unit_size f) + 1/2" using v(3) size_units_positive[OF v(4)] by simp
  then show "0 \<le> b" using v(2) by simp
  then show "b \<le> max_safe" using v(5) by simp
  have "of_int b \<le> v * of_int (unit_size f) + 1/2" "v * of_int (unit_size f) + 1/2 < of_int b + 1"
    using v(2) by (simp_all, linarith)
  then have "\<bar>of_int b - v * of_int (unit_size f)\<bar> \<le> 1/2" unfolding abs_le_iff by linarith
  then show "\<exists>v. amount f = Some v \<and> \<bar>of_int b - v * of_int (unit_size f)\<bar> \<le> 1/2" using v(1) by blast
qed

text \<open>A unit the form shows divides the limit, and no larger unit does.\<close>

lemma fill_largest_unit:
  assumes "0 < b" "u \<in> set size_units" "u dvd b"
  shows "unit_size (fill (of_int b) p input) dvd b \<and> u \<le> unit_size (fill (of_int b) p input)"
proof -
  define P where "P = (\<lambda>u. of_int u \<le> (of_int b :: rat) \<and> of_int b - of_int u * of_int \<lfloor>(of_int b :: rat) / of_int u\<rfloor> = (0 :: rat))"
  have P: "P w \<longleftrightarrow> w dvd b" if "w \<in> set size_units" for w
  proof -
    have w: "0 < w" by (rule size_units_positive[OF that])
    have "\<lfloor>(of_int b :: rat) / of_int w\<rfloor> = b div w" by (simp add: floor_divide_of_int_eq)
    then have "P w \<longleftrightarrow> w \<le> b \<and> b - w * (b div w) = 0"
      by (simp only: P_def of_int_le_iff of_int_mult[symmetric] of_int_diff[symmetric] of_int_eq_0_iff)
    also have "\<dots> \<longleftrightarrow> w \<le> b \<and> b = w * (b div w)" by simp
    also have "\<dots> \<longleftrightarrow> w dvd b" using assms(1) w by (metis dvd_mult_div_cancel dvd_triv_left zdvd_imp_le)
    finally show ?thesis .
  qed
  have "P u" using P[OF assms(2)] assms(3) by simp
  then obtain w where w: "find P (rev size_units) = Some w" using assms(2) by (metis find_None_iff not_None_eq set_rev)
  then obtain i where i: "i < length (rev size_units)" "P (rev size_units ! i)" "w = rev size_units ! i" "\<forall>j<i. \<not> P (rev size_units ! j)"
    unfolding find_Some_iff by blast
  have w_unit: "w \<in> set size_units" using i(1,3) by (metis nth_mem set_rev)
  obtain k where k: "k < length (rev size_units)" "rev size_units ! k = u" using assms(2) by (metis in_set_conv_nth set_rev)
  have "i \<le> k" using i(4) k(2) \<open>P u\<close> by (metis not_le)
  have "sorted size_units" by (simp add: size_units_def)
  then have "u \<le> w" using \<open>i \<le> k\<close> k i(3) by (metis sorted_rev_nth_mono rev_rev_ident)
  moreover have "unit_size (fill (of_int b) p input) = w" using assms(1) w by (simp add: fill_def Let_def P_def)
  ultimately show ?thesis using P[OF w_unit] i(2,3) by simp
qed

lemma active_directions: "d \<in> set [Upload, Download, Combined]"
  by (cases d) simp_all

lemma all_periods: "p \<in> set periods"
  by (cases p) (simp_all add: periods_def)

lemma read_Inr:
  "read mac s = Inr r \<longleftrightarrow> canSave s \<and> (\<forall>d p. active (mode s) d \<longrightarrow> read_field (fields_of s d p) \<noteq> None) \<and>
     r = \<lparr>rq_mac = mac, rq_mode = mode s,
          rq_bytes = (\<lambda>d p. if active (mode s) d then the (read_field (fields_of s d p)) else 0)\<rparr>"
proof -
  have "(\<exists>d\<in>set [Upload, Download, Combined]. active (mode s) d \<and> (\<exists>p\<in>set periods. read_field (fields_of s d p) = None))
      \<longleftrightarrow> \<not> (\<forall>d p. active (mode s) d \<longrightarrow> read_field (fields_of s d p) \<noteq> None)"
    unfolding Bex_def by (simp only: active_directions all_periods simp_thms not_all not_imp not_not ex_simps)
  then show ?thesis unfolding read_def by auto
qed

lemma read_field_shown [simp]:
  "read_field (f\<lparr>field_disabled := x\<rparr>) = read_field f" "read_field (f\<lparr>usage := y\<rparr>) = read_field f"
  "read_field (f\<lparr>exceeded := x\<rparr>) = read_field f"
  by (rule read_field_cong; simp)+

lemma syncDisabled_simps [simp]:
  "mode (syncDisabled s) = mode s" "writable (syncDisabled s) = writable s" "busy (syncDisabled s) = busy s"
  "ready (syncDisabled s) = ready s" "supported (syncDisabled s) = supported s" "error (syncDisabled s) = error s"
  "read_field (fields_of (syncDisabled s) d p) = read_field (fields_of s d p)"
  by (simp_all add: syncDisabled_def Let_def)

lemma canSave_sync [simp]: "canSave (syncDisabled s) = canSave s"
  by (simp add: canSave_def canEdit_def)

text \<open>The limit the form shows for a direction.\<close>

definition shown_limit :: "quota option \<Rightarrow> direction \<Rightarrow> period \<Rightarrow> rat" where
  "shown_limit q d p = (case data_for q d of None \<Rightarrow> 0 | Some x \<Rightarrow> limit_bytes x p)"

lemma render_facts:
  assumes "\<not> st_preserveInputs st" "\<not> busy s"
  shows "mode (render q st s) = modeOf q"
    and "read_field (fields_of (render q st s) d p) = read_field (fill (shown_limit q d p) p (fields_of s d p))"
    and "canSave (render q st s) \<longleftrightarrow>
      writable s \<and> st_ready st \<and> st_error st = None \<and> (modeOf q = Combined_Mode \<or> st_supported st)"
  using assms by (simp_all add: render_def Let_def canSave_def canEdit_def shown_limit_def)

section \<open>Claims on the form\<close>

text \<open>
  C16: a stored quota the form shows, untouched by the user, is read back as the same mode and the
  same limits of the directions that mode uses, and no limit for the others.
\<close>

theorem quota_render_read:
  assumes "writable s" "\<not> busy s"
    and "st_ready st" "st_error st = None" "\<not> st_preserveInputs st" "modeOf q = Combined_Mode \<or> st_supported st"
    and "\<And>d p. active (modeOf q) d \<Longrightarrow> shown_limit q d p = of_int (l d p) \<and> 0 \<le> l d p \<and> l d p \<le> max_safe"
  shows "read mac (render q st s) =
    Inr \<lparr>rq_mac = mac, rq_mode = modeOf q, rq_bytes = (\<lambda>d p. if active (modeOf q) d then l d p else 0)\<rparr>"
proof -
  have "read_field (fields_of (render q st s) d p) = Some (l d p)" if "active (modeOf q) d" for d p
    using assms(7)[OF that, of p] by (simp add: render_facts assms read_fill)
  then show ?thesis
    by (auto simp: read_Inr render_facts assms fun_eq_iff)
qed

definition example_form :: quota_form where
  "example_form = \<lparr>fields_of = (\<lambda>d p. \<lparr>amount = Some 0, bad_input = False, unit_size = 1, field_disabled = False,
       usage = None, exceeded = False\<rparr>), mode = Combined_Mode, mode_disabled = False, separate_disabled = False, separate_shown = False, help_text = [],
     writable = True, busy = False, ready = False, supported = False, error = None, current = None,
     badge_of = (\<lambda>_. Loading), badge_blocked = (\<lambda>_. False), badge_unconfigured = (\<lambda>_. True), message = [], message_alert = False\<rparr>"

definition example_quota :: quota where
  "example_quota = \<lparr>limit_bytes = (\<lambda>p. if p = Daily then 5368709120 else 0), used_bytes = (\<lambda>_. 0), blocked = False,
     directional = False, upload = None, download = None\<rparr>"

definition example_state :: quota_state where
  "example_state = \<lparr>st_ready = True, st_supported = False, st_error = None, st_preserveInputs = False\<rparr>"

lemma example_facts:
  "writable example_form" "\<not> busy example_form" "st_ready example_state" "st_error example_state = None"
  "\<not> st_preserveInputs example_state" "modeOf (Some example_quota) = Combined_Mode"
  by (simp_all add: example_form_def example_state_def example_quota_def modeOf_def)

theorem quota_render_read_witness:
  "read ''aa'' (render (Some example_quota) example_state example_form) =
    Inr \<lparr>rq_mac = ''aa'', rq_mode = modeOf (Some example_quota),
         rq_bytes = (\<lambda>d p. if active (modeOf (Some example_quota)) d then if p = Daily then 5368709120 else 0 else 0)\<rparr>"
proof (rule quota_render_read)
  show "writable example_form" "\<not> busy example_form" "st_ready example_state" "st_error example_state = None"
    "\<not> st_preserveInputs example_state" "modeOf (Some example_quota) = Combined_Mode \<or> st_supported example_state"
    by (simp_all add: example_facts)
  show "shown_limit (Some example_quota) d p = of_int (if p = Daily then 5368709120 else 0) \<and>
      0 \<le> (if p = Daily then 5368709120 else 0 :: int) \<and> (if p = Daily then 5368709120 else 0) \<le> max_safe"
    if "active (modeOf (Some example_quota)) d" for d p
    using that by (simp add: example_quota_def modeOf_def active_def shown_limit_def data_for_def data_of_def max_safe_def)
qed

text \<open>
  C20: what the form is read as may be sent: every limit is an integer between 0 and
  \<open>2^53 - 1\<close>, at most half a byte from what its field says, and the directions the mode
  does not use have none; anything else is an error.
\<close>

theorem quota_read_valid:
  assumes "read mac s = Inr r"
  shows "canSave s \<and> rq_mac r = mac \<and> rq_mode r = mode s \<and>
    (\<forall>d p. if active (mode s) d
       then 0 \<le> rq_bytes r d p \<and> rq_bytes r d p \<le> max_safe \<and>
         (\<exists>v. amount (fields_of s d p) = Some v \<and> \<bar>of_int (rq_bytes r d p) - v * of_int (unit_size (fields_of s d p))\<bar> \<le> 1/2)
       else rq_bytes r d p = 0)"
proof -
  have r: "canSave s" "\<And>d p. active (mode s) d \<Longrightarrow> read_field (fields_of s d p) = Some (rq_bytes r d p)"
      "\<And>d p. \<not> active (mode s) d \<Longrightarrow> rq_bytes r d p = 0" "rq_mac r = mac" "rq_mode r = mode s"
    using assms by (auto simp: read_Inr)
  then show ?thesis using read_field_Some[OF r(2)] by auto
qed

theorem quota_read_valid_witness:
  "\<exists>r. read ''aa'' (render (Some example_quota) example_state example_form) = Inr r \<and> rq_bytes r Combined Daily \<le> max_safe"
proof -
  let ?s = "render (Some example_quota) example_state example_form"
  note facts = render_facts[OF example_facts(5,2)]
  have m: "mode ?s = Combined_Mode" and c: "canSave ?s"
    by (simp_all add: facts example_facts)
  have "shown_limit (Some example_quota) Combined p = of_int (if p = Daily then 5368709120 else 0)" for p
    by (simp add: shown_limit_def data_for_def data_of_def example_quota_def)
  then have "read_field (fields_of ?s Combined p) = Some (if p = Daily then 5368709120 else 0)" for p
    unfolding facts by (simp add: read_fill max_safe_def del: of_int_numeral)
  then obtain r where r: "read ''aa'' ?s = Inr r"
    using c m read_Inr[of "''aa''" ?s] by (auto simp: active_def)
  from quota_read_valid[OF r] m show ?thesis using r by (auto simp: active_def split: if_splits)
qed

end
