(* ===== verification/Traffic_Quality.thy ===== *)
theory Traffic_Quality
  imports Complex_Main
begin

text \<open>
  The drawing quality of the live traffic pages (\<open>live-traffic/core.js\<close>): the user's choice
  and where it is kept, what \<open>auto\<close> resolves to, the automaton that gives up the better
  quality when frames come late, and the animation loop that feeds it. The state is that of the
  module (45-63) and of what the module reads from the browser; every handler is an operation.
  Pixels are not modelled: a chart keeps the frame time and the progress it was last drawn with, an
  animated number the values and the progress
  its text was made from. Times are rationals, in milliseconds.
\<close>

section \<open>State\<close>

definition QUALITY_NAMES :: "string list" where
  "QUALITY_NAMES = [''auto'', ''low'', ''medium'', ''high'', ''ultra'']"

record profile =
  rank :: nat
  fade :: rat
  dpr :: rat
  area :: bool
  glow :: bool
  continuous :: bool

definition QUALITY_PROFILES :: "(string \<times> profile) list" where
  "QUALITY_PROFILES =
     [(''low'', \<lparr>rank = 0, fade = 0, dpr = 1, area = False, glow = False, continuous = False\<rparr>),
      (''medium'', \<lparr>rank = 1, fade = 350, dpr = 3/2, area = True, glow = False, continuous = False\<rparr>),
      (''high'', \<lparr>rank = 2, fade = 650, dpr = 2, area = True, glow = True, continuous = False\<rparr>),
      (''ultra'', \<lparr>rank = 3, fade = 650, dpr = 5/2, area = True, glow = True, continuous = True\<rparr>)]"

text \<open>What the module reads from the browser.\<close>

record browser =
  now :: rat
  hidden :: bool
  can_read :: bool
  can_store :: bool
  stored :: "string option"
  reduced_motion :: bool
  cores :: rat
  memory :: rat
  fine_pointer :: bool
  width :: rat
  has_frames :: bool

record auto_state =
  bad_windows :: nat
  penalty_until :: rat
  retry_used :: bool
  permanent_low :: bool
  retry_timer :: bool

type_synonym samples = "(rat \<times> rat \<times> rat) list"

record chart =
  c_connected :: bool
  c_visible :: bool
  c_force :: bool
  c_previous :: samples
  c_target :: samples
  c_previous_max :: rat
  c_target_max :: rat
  c_profile :: "profile option"
  c_motion :: bool
  c_started :: rat
  c_duration :: rat
  c_drawn :: "(rat \<times> rat) option"

record metric =
  m_connected :: bool
  m_value :: rat
  m_target :: rat
  m_peak :: rat
  m_started :: rat
  m_duration :: rat
  m_shown :: "rat \<times> rat \<times> rat"
  m_rising :: bool
  m_falling :: bool
  m_updated :: bool
  m_at_peak :: bool

record control =
  compact :: bool
  selected_shown :: string
  resolved_shown :: string

record pages =
  env :: browser
  fallback :: string
  auto :: auto_state
  controls :: "control list"
  apps :: "(string \<times> bool \<times> bool) list"
  charts :: "chart list"
  metrics :: "metric list"
  frame_request :: bool
  last_frame :: rat
  measured :: nat
  slow :: nat

section \<open>The quality in use\<close>

definition validQuality :: "string \<Rightarrow> bool" where
  "validQuality v \<longleftrightarrow> v \<in> set QUALITY_NAMES"

definition readQuality :: "pages \<Rightarrow> string" where
  "readQuality s =
     (if \<not> can_read (env s) then fallback s
      else case stored (env s) of Some v \<Rightarrow> if validQuality v then v else fallback s | None \<Rightarrow> fallback s)"

definition capableOfMediumQuality :: "browser \<Rightarrow> bool" where
  "capableOfMediumQuality b \<longleftrightarrow> 8 \<le> cores b \<and> (memory b = 0 \<or> 8 \<le> memory b) \<and> fine_pointer b \<and> 900 \<le> width b"

record quality_view =
  q_selected :: string
  q_resolved :: string
  q_motion :: bool
  q_profile :: "profile option"

definition qualityState :: "pages \<Rightarrow> quality_view" where
  "qualityState s =
     (let sel = readQuality s; red = reduced_motion (env s);
          resolved = (if sel = ''auto''
            then if \<not> red \<and> capableOfMediumQuality (env s) \<and> \<not> permanent_low (auto s) \<and> penalty_until (auto s) \<le> now (env s)
                 then ''medium'' else ''low''
            else sel)
      in \<lparr>q_selected = sel, q_resolved = resolved, q_motion = \<not> red, q_profile = map_of QUALITY_PROFILES resolved\<rparr>)"

definition qualityLabel :: "string \<Rightarrow> string" where
  "qualityLabel v =
     (case map_of [(''auto'', ''Auto''), (''low'', ''Low''), (''medium'', ''Medium''), (''high'', ''High''), (''ultra'', ''Ultra'')] v of
        Some l \<Rightarrow> l | None \<Rightarrow> ''Auto'')"

section \<open>Showing the quality\<close>

definition resetAutoState :: auto_state where
  "resetAutoState = \<lparr>bad_windows = 0, penalty_until = 0, retry_used = False, permanent_low = False, retry_timer = False\<rparr>"

text \<open>An \<open>.lt-app\<close> element: its quality, whether it moves, whether it is paused.\<close>

definition applyQualityAttributes :: "pages \<Rightarrow> pages" where
  "applyQualityAttributes s =
     s\<lparr>apps := map (\<lambda>_. (q_resolved (qualityState s), q_motion (qualityState s), hidden (env s))) (apps s)\<rparr>"

definition refreshQualityControls :: "pages \<Rightarrow> pages" where
  "refreshQualityControls s =
     applyQualityAttributes (s\<lparr>controls := map (\<lambda>c. c\<lparr>selected_shown := q_selected (qualityState s),
        resolved_shown := qualityLabel (q_resolved (qualityState s))\<rparr>) (controls s)\<rparr>)"

definition wakeAnimator :: "pages \<Rightarrow> pages" where
  "wakeAnimator s = (if frame_request s \<or> hidden (env s) \<or> \<not> has_frames (env s) then s else s\<lparr>frame_request := True\<rparr>)"

definition force_all :: "pages \<Rightarrow> pages" where
  "force_all s = s\<lparr>charts := map (\<lambda>c. c\<lparr>c_force := True\<rparr>) (charts s)\<rparr>"

definition notifyQualityChange :: "pages \<Rightarrow> pages" where
  "notifyQualityChange s = wakeAnimator (force_all (refreshQualityControls s))"

definition setQuality :: "string \<Rightarrow> pages \<Rightarrow> pages" where
  "setQuality v s =
     (let q = (if validQuality v then v else ''auto'');
          s1 = s\<lparr>fallback := q\<rparr>;
          s2 = (if can_store (env s) then s1\<lparr>env := (env s1)\<lparr>stored := Some q\<rparr>\<rparr> else s1)
      in notifyQualityChange (s2\<lparr>auto := resetAutoState\<rparr>))"

definition createQualityControl :: "bool \<Rightarrow> pages \<Rightarrow> pages" where
  "createQualityControl cmp s =
     refreshQualityControls (s\<lparr>controls := controls s @ [\<lparr>compact = cmp, selected_shown = [], resolved_shown = []\<rparr>]\<rparr>)"

section \<open>Giving up a quality that is too slow\<close>

definition reportFrameWindow :: "pages \<Rightarrow> pages" where
  "reportFrameWindow s =
     (if readQuality s \<noteq> ''auto'' \<or> q_resolved (qualityState s) \<noteq> ''medium'' then s\<lparr>measured := 0, slow := 0\<rparr>
      else if measured s < 45 then s
      else
        (let a = auto s; bad = (if 1/5 < (of_nat (slow s) / of_nat (measured s) :: rat) then bad_windows a + 1 else 0);
             s1 = s\<lparr>measured := 0, slow := 0\<rparr>
         in if bad < 3 then s1\<lparr>auto := a\<lparr>bad_windows := bad\<rparr>\<rparr>
            else if retry_used a
            then notifyQualityChange (s1\<lparr>auto := a\<lparr>bad_windows := 0, permanent_low := True\<rparr>\<rparr>)
            else notifyQualityChange
                   (s1\<lparr>auto := a\<lparr>bad_windows := 0, penalty_until := now (env s) + 30000, retry_timer := True\<rparr>\<rparr>)))"

text \<open>The callback of the retry timer; it runs at any time after the timer was set.\<close>

definition retry :: "pages \<Rightarrow> pages" where
  "retry s = (if retry_timer (auto s)
     then notifyQualityChange (s\<lparr>auto := (auto s)\<lparr>penalty_until := 0, retry_used := True, retry_timer := False\<rparr>\<rparr>)
     else s)"

section \<open>Animation\<close>

definition sampleMaximum :: "samples \<Rightarrow> rat" where
  "sampleMaximum xs = fold (\<lambda>(t, d, u) m. max (max m d) u) xs 1"

definition draw :: "rat \<Rightarrow> rat \<Rightarrow> chart \<Rightarrow> chart" where
  "draw frame progress c = c\<lparr>c_drawn := Some (frame, progress)\<rparr>"

definition new_chart :: chart where
  "new_chart = \<lparr>c_connected = True, c_visible = True, c_force = False, c_previous = [], c_target = [],
     c_previous_max = 1, c_target_max = 1, c_profile = None, c_motion = False, c_started = 0, c_duration = 0, c_drawn = None\<rparr>"

definition chart_data :: "quality_view \<Rightarrow> rat \<Rightarrow> samples \<Rightarrow> chart \<Rightarrow> chart" where
  "chart_data q time samples c =
     (let prev = (if c_target c \<noteq> [] then c_target c else samples);
          prev_max = (if c_target_max c \<noteq> 0 then c_target_max c else sampleMaximum prev);
          dur = (if prev \<noteq> [] \<and> q_motion q then (case q_profile q of Some p \<Rightarrow> fade p | None \<Rightarrow> 0) else 0)
      in draw time (if dur \<noteq> 0 then 0 else 1)
           (c\<lparr>c_previous := prev, c_target := samples, c_previous_max := prev_max, c_target_max := sampleMaximum samples,
              c_profile := q_profile q, c_motion := q_motion q, c_started := time, c_duration := dur\<rparr>))"

text \<open>
  \<open>drawChart\<close> on the \<open>i\<close>-th canvas, or on a new one; \<open>time\<close> is the
  clock of the animation.
\<close>

definition drawChart :: "nat \<Rightarrow> rat \<Rightarrow> samples \<Rightarrow> pages \<Rightarrow> pages" where
  "drawChart i time samples s =
     wakeAnimator (s\<lparr>charts :=
       (if i < length (charts s)
        then (charts s)[i := chart_data (qualityState s) time samples (charts s ! i)]
        else charts s @ [chart_data (qualityState s) time samples new_chart])\<rparr>)"

definition new_metric :: "rat \<Rightarrow> metric" where
  "new_metric v = \<lparr>m_connected = True, m_value = v, m_target = v, m_peak = v, m_started = 0, m_duration = 0,
     m_shown = (v, v, 1), m_rising = False, m_falling = False, m_updated = False, m_at_peak = False\<rparr>"

definition metric_data :: "quality_view \<Rightarrow> rat \<Rightarrow> rat \<Rightarrow> metric \<Rightarrow> metric" where
  "metric_data q time v m =
     (let dur = (if q_motion q then (case q_profile q of Some p \<Rightarrow> fade p | None \<Rightarrow> 0) else 0);
          rk = (case q_profile q of Some p \<Rightarrow> rank p | None \<Rightarrow> 0)
      in m\<lparr>m_value := m_target m, m_target := v, m_started := time, m_duration := dur,
           m_rising := m_target m < v, m_falling := v < m_target m, m_updated := dur \<noteq> 0,
           m_at_peak := m_peak m < v \<and> 2 \<le> rk, m_peak := max (m_peak m) v,
           m_shown := (if dur = 0 then (v, v, 1) else m_shown m)\<rparr>)"

definition animateMetric :: "nat \<Rightarrow> rat \<Rightarrow> rat \<Rightarrow> pages \<Rightarrow> pages" where
  "animateMetric i time v s =
     (if i < length (metrics s)
      then wakeAnimator (s\<lparr>metrics := (metrics s)[i := metric_data (qualityState s) time v (metrics s ! i)]\<rparr>)
      else s\<lparr>metrics := metrics s @ [new_metric v]\<rparr>)"

definition progress_of :: "rat \<Rightarrow> rat \<Rightarrow> rat \<Rightarrow> rat" where
  "progress_of frame started dur = (if dur \<noteq> 0 then min 1 ((frame - started) / dur) else 1)"

definition never_rests :: "chart \<Rightarrow> bool" where
  "never_rests c \<longleftrightarrow> (case c_profile c of Some p \<Rightarrow> continuous p | None \<Rightarrow> False) \<and> c_motion c"

text \<open>One chart in a frame: the chart after it, and whether the animation goes on.\<close>

definition chart_frame :: "quality_view \<Rightarrow> rat \<Rightarrow> chart \<Rightarrow> chart \<times> bool" where
  "chart_frame q frame c =
     (let c1 = c\<lparr>c_profile := q_profile q, c_motion := q_motion q\<rparr>;
          p = progress_of frame (c_started c1) (c_duration c1)
      in if \<not> c_visible c1 then (c1, False)
         else (if c_force c1 \<or> p < 1 \<or> never_rests c1 then (draw frame p c1)\<lparr>c_force := False\<rparr> else c1,
               p < 1 \<or> never_rests c1))"

definition metric_frame :: "rat \<Rightarrow> metric \<Rightarrow> metric \<times> bool" where
  "metric_frame frame m =
     (let p = progress_of frame (m_started m) (m_duration m); m1 = m\<lparr>m_shown := (m_value m, m_target m, p)\<rparr>
      in if p < 1 then (m1, True) else (m1\<lparr>m_updated := False\<rparr>, False))"

text \<open>Counting the frame (767-773), and drawing (777-809); both after the hidden check.\<close>

definition count_frame :: "rat \<Rightarrow> pages \<Rightarrow> pages" where
  "count_frame frame s =
     (if last_frame s \<noteq> 0
      then s\<lparr>measured := measured s + 1, slow := slow s + (if 34 < frame - last_frame s then 1 else 0), last_frame := frame\<rparr>
      else s\<lparr>last_frame := frame\<rparr>)"

definition draw_frame :: "rat \<Rightarrow> pages \<Rightarrow> pages \<times> bool" where
  "draw_frame frame s =
     (let cs = map (chart_frame (qualityState s) frame) (filter c_connected (charts s));
          ms = map (metric_frame frame) (filter m_connected (metrics s))
      in (s\<lparr>charts := map fst cs, metrics := map fst ms\<rparr>, (\<exists>c\<in>set cs. snd c) \<or> (\<exists>m\<in>set ms. snd m)))"

definition animationFrame :: "rat \<Rightarrow> pages \<Rightarrow> pages" where
  "animationFrame frame s =
     (if hidden (env s) then s\<lparr>frame_request := False\<rparr>
      else
        (let (s1, goes_on) = draw_frame frame (count_frame frame (s\<lparr>frame_request := False\<rparr>));
             s2 = reportFrameWindow s1
         in if goes_on then wakeAnimator s2 else s2\<lparr>last_frame := 0\<rparr>))"

section \<open>Events from the browser\<close>

definition storage_event :: "string option \<Rightarrow> pages \<Rightarrow> pages" where
  "storage_event v s =
     (let s1 = s\<lparr>env := (env s)\<lparr>stored := v\<rparr>\<rparr>
      in notifyQualityChange
           (s1\<lparr>fallback := (case v of Some q \<Rightarrow> if validQuality q then q else ''auto'' | None \<Rightarrow> ''auto''), auto := resetAutoState\<rparr>))"

definition visibility_change :: "bool \<Rightarrow> pages \<Rightarrow> pages" where
  "visibility_change h s =
     (let s1 = applyQualityAttributes (s\<lparr>env := (env s)\<lparr>hidden := h\<rparr>, last_frame := 0\<rparr>)
      in if h then s1 else wakeAnimator (force_all s1))"

text \<open>The observer of a chart reports whether it is on screen.\<close>

definition chart_seen :: "nat \<Rightarrow> bool \<Rightarrow> pages \<Rightarrow> pages" where
  "chart_seen i v s =
     wakeAnimator (if i < length (charts s) then s\<lparr>charts := (charts s)[i := (charts s ! i)\<lparr>c_visible := v\<rparr>]\<rparr> else s)"

text \<open>
  Everything that happens to the module. \<open>Env\<close> is a change of the browser that no listener
  reports (time passing, another value in the store), \<open>Resized\<close> one that is followed by
  \<open>notifyQualityChange\<close> (837-845), \<open>Detach\<close> the removal of canvases and elements.
\<close>

datatype event =
    Env browser
  | Resized browser
  | Choose string
  | Stored_Elsewhere "string option"
  | Visibility bool
  | New_Control bool
  | Draw nat rat samples
  | Number nat rat rat
  | Seen nat bool
  | Detach "nat \<Rightarrow> bool" "nat \<Rightarrow> bool"
  | Frame rat
  | Retry_Due

fun handle :: "event \<Rightarrow> pages \<Rightarrow> pages" where
  "handle (Env b) s = s\<lparr>env := b\<rparr>"
| "handle (Resized b) s = notifyQualityChange (s\<lparr>env := b\<rparr>)"
| "handle (Choose q) s = setQuality q s"
| "handle (Stored_Elsewhere v) s = storage_event v s"
| "handle (Visibility h) s = visibility_change h s"
| "handle (New_Control c) s = createQualityControl c s"
| "handle (Draw i t xs) s = drawChart i t xs s"
| "handle (Number i t v) s = animateMetric i t v s"
| "handle (Seen i v) s = chart_seen i v s"
| "handle (Detach gone_c gone_m) s =
     s\<lparr>charts := map (\<lambda>(i, c). c\<lparr>c_connected := c_connected c \<and> \<not> gone_c i\<rparr>) (enumerate 0 (charts s)),
       metrics := map (\<lambda>(i, m). m\<lparr>m_connected := m_connected m \<and> \<not> gone_m i\<rparr>) (enumerate 0 (metrics s))\<rparr>"
| "handle (Frame t) s = (if frame_request s then animationFrame t s else s)"
| "handle Retry_Due s = retry s"

definition start_pages :: "browser \<Rightarrow> nat \<Rightarrow> pages" where
  "start_pages b n = \<lparr>env = b, fallback = ''auto'', auto = resetAutoState, controls = [],
     apps = replicate n ([], False, False), charts = [], metrics = [], frame_request = False, last_frame = 0,
     measured = 0, slow = 0\<rparr>"

inductive reached :: "pages \<Rightarrow> bool" where
  start: "reached (start_pages b n)"
| step: "reached s \<Longrightarrow> reached (handle e s)"

section \<open>What the operations leave alone\<close>

lemma apply_simps [simp]:
  "env (applyQualityAttributes s) = env s" "fallback (applyQualityAttributes s) = fallback s"
  "auto (applyQualityAttributes s) = auto s" "charts (applyQualityAttributes s) = charts s"
  "metrics (applyQualityAttributes s) = metrics s" "measured (applyQualityAttributes s) = measured s"
  "slow (applyQualityAttributes s) = slow s" "last_frame (applyQualityAttributes s) = last_frame s"
  "frame_request (applyQualityAttributes s) = frame_request s"
  by (simp_all add: applyQualityAttributes_def)

lemma refresh_simps [simp]:
  "env (refreshQualityControls s) = env s" "fallback (refreshQualityControls s) = fallback s"
  "auto (refreshQualityControls s) = auto s" "charts (refreshQualityControls s) = charts s"
  "metrics (refreshQualityControls s) = metrics s" "measured (refreshQualityControls s) = measured s"
  "slow (refreshQualityControls s) = slow s" "last_frame (refreshQualityControls s) = last_frame s"
  "frame_request (refreshQualityControls s) = frame_request s"
  by (simp_all add: refreshQualityControls_def)

lemma wake_simps [simp]:
  "env (wakeAnimator s) = env s" "fallback (wakeAnimator s) = fallback s" "auto (wakeAnimator s) = auto s"
  "charts (wakeAnimator s) = charts s" "metrics (wakeAnimator s) = metrics s" "measured (wakeAnimator s) = measured s"
  "slow (wakeAnimator s) = slow s" "last_frame (wakeAnimator s) = last_frame s"
  by (simp_all add: wakeAnimator_def)

lemma force_simps [simp]:
  "env (force_all s) = env s" "fallback (force_all s) = fallback s" "auto (force_all s) = auto s"
  "metrics (force_all s) = metrics s" "measured (force_all s) = measured s" "slow (force_all s) = slow s"
  "last_frame (force_all s) = last_frame s" "frame_request (force_all s) = frame_request s"
  "charts (force_all s) = map (\<lambda>c. c\<lparr>c_force := True\<rparr>) (charts s)"
  by (simp_all add: force_all_def)

lemma notify_simps [simp]:
  "env (notifyQualityChange s) = env s" "fallback (notifyQualityChange s) = fallback s"
  "auto (notifyQualityChange s) = auto s" "metrics (notifyQualityChange s) = metrics s"
  "measured (notifyQualityChange s) = measured s" "slow (notifyQualityChange s) = slow s"
  "last_frame (notifyQualityChange s) = last_frame s"
  "charts (notifyQualityChange s) = map (\<lambda>c. c\<lparr>c_force := True\<rparr>) (charts s)"
  by (simp_all add: notifyQualityChange_def)

lemma readQuality_cong:
  assumes "env s = env t" "fallback s = fallback t"
  shows "readQuality s = readQuality t"
  unfolding readQuality_def assms ..

lemma qualityState_cong:
  assumes "env s = env t" "fallback s = fallback t" "auto s = auto t"
  shows "qualityState s = qualityState t"
  unfolding qualityState_def readQuality_cong[OF assms(1,2)] assms ..

section \<open>A defined quality\<close>

lemma profile_defined: "validQuality (fallback s) \<Longrightarrow> q_profile (qualityState s) \<noteq> None"
proof -
  assume "validQuality (fallback s)"
  then have "validQuality (readQuality s)" by (auto simp: readQuality_def split: option.split)
  then show ?thesis
    by (auto simp: qualityState_def Let_def validQuality_def QUALITY_NAMES_def QUALITY_PROFILES_def)
qed

lemma report_simps [simp]:
  "env (reportFrameWindow s) = env s" "fallback (reportFrameWindow s) = fallback s"
  "metrics (reportFrameWindow s) = metrics s" "last_frame (reportFrameWindow s) = last_frame s"
  "c_profile ` set (charts (reportFrameWindow s)) = c_profile ` set (charts s)"
  by (simp_all add: reportFrameWindow_def Let_def image_image)

lemma count_simps [simp]:
  "env (count_frame t s) = env s" "fallback (count_frame t s) = fallback s" "auto (count_frame t s) = auto s"
  "charts (count_frame t s) = charts s" "metrics (count_frame t s) = metrics s"
  "frame_request (count_frame t s) = frame_request s" "last_frame (count_frame t s) = t"
  by (simp_all add: count_frame_def)

lemma draw_simps [simp]:
  "env (fst (draw_frame t s)) = env s" "fallback (fst (draw_frame t s)) = fallback s" "auto (fst (draw_frame t s)) = auto s"
  "frame_request (fst (draw_frame t s)) = frame_request s" "measured (fst (draw_frame t s)) = measured s"
  "slow (fst (draw_frame t s)) = slow s" "last_frame (fst (draw_frame t s)) = last_frame s"
  by (simp_all add: draw_frame_def Let_def)

text \<open>The page when a frame has been counted and drawn.\<close>

abbreviation drawn :: "rat \<Rightarrow> pages \<Rightarrow> pages \<times> bool" where
  "drawn t s \<equiv> draw_frame t (count_frame t (s\<lparr>frame_request := False\<rparr>))"

lemma frame_unfold:
  "animationFrame t s =
     (if hidden (env s) then s\<lparr>frame_request := False\<rparr>
      else if snd (drawn t s) then wakeAnimator (reportFrameWindow (fst (drawn t s)))
      else (reportFrameWindow (fst (drawn t s)))\<lparr>last_frame := 0\<rparr>)"
  by (simp add: animationFrame_def split_def Let_def)

lemma frame_simps [simp]:
  "env (animationFrame t s) = env s" "fallback (animationFrame t s) = fallback s"
  by (simp_all add: frame_unfold)

definition typed :: "pages \<Rightarrow> bool" where
  "typed s \<longleftrightarrow> validQuality (fallback s) \<and> None \<notin> c_profile ` set (charts s)"

lemma typed_draw: "typed s \<Longrightarrow> typed (fst (draw_frame t s))"
proof -
  assume s: "typed s"
  have "c_profile (fst (chart_frame q t c)) = q_profile q" for q c
    by (simp add: chart_frame_def Let_def draw_def)
  moreover have "q_profile (qualityState s) \<noteq> None" using s by (intro profile_defined) (simp add: typed_def)
  ultimately show ?thesis using s by (auto simp: draw_frame_def Let_def typed_def)
qed

lemma typed_cong:
  "fallback t = fallback s \<Longrightarrow> c_profile ` set (charts t) = c_profile ` set (charts s) \<Longrightarrow> typed t = typed s"
  by (simp add: typed_def)

lemma typed_frame: "typed s \<Longrightarrow> typed (animationFrame t s)"
proof -
  assume s: "typed s"
  then have "typed (count_frame t (s\<lparr>frame_request := False\<rparr>))" by (simp add: typed_def)
  then have "typed (fst (drawn t s))" by (rule typed_draw)
  then have "typed (reportFrameWindow (fst (drawn t s)))" using typed_cong[of "reportFrameWindow (fst (drawn t s))" "fst (drawn t s)"] by simp
  then show ?thesis using s by (simp add: frame_unfold typed_def)
qed

lemma image_update: "f ` set (xs[i := y]) \<subseteq> insert (f y) (f ` set xs)"
  using set_update_subset_insert[of xs i y] by blast

lemma none_update:
  assumes "None \<notin> f ` set xs" "f y \<noteq> None"
  shows "None \<notin> f ` set (xs[i := y])"
proof
  assume "None \<in> f ` set (xs[i := y])"
  then have "None \<in> insert (f y) (f ` set xs)" using image_update by (rule rev_subsetD)
  then show False using assms by simp
qed

lemma typed_charts: "typed s \<Longrightarrow> c \<in> set (charts s) \<Longrightarrow> c_profile c \<noteq> None"
  unfolding typed_def by (metis imageI)

lemma typed_handle: "typed s \<Longrightarrow> typed (handle e s)"
proof (cases e)
  case (Draw i t xs)
  assume s: "typed s"
  have "q_profile (qualityState s) \<noteq> None" using s by (intro profile_defined) (simp add: typed_def)
  then have c: "c_profile (chart_data (qualityState s) t xs c) \<noteq> None" for c
    by (simp add: chart_data_def Let_def draw_def)
  then have "None \<notin> c_profile ` set ((charts s)[i := chart_data (qualityState s) t xs (charts s ! i)])"
    using s by (intro none_update) (simp_all add: typed_def)
  moreover have "None \<notin> c_profile ` set (charts s @ [chart_data (qualityState s) t xs new_chart])"
    using c[of new_chart] s by (auto simp: typed_def)
  ultimately show ?thesis using s Draw by (simp add: drawChart_def typed_def)
next
  case (Seen i v)
  assume s: "typed s"
  have "None \<notin> c_profile ` set ((charts s)[i := (charts s ! i)\<lparr>c_visible := v\<rparr>])" if i: "i < length (charts s)"
  proof -
    have "c_profile ((charts s ! i)\<lparr>c_visible := v\<rparr>) \<noteq> None" using typed_charts[OF s nth_mem[OF i]] by simp
    then show ?thesis using s by (intro none_update) (simp_all only: typed_def simp_thms)
  qed
  then show ?thesis using s Seen by (simp add: chart_seen_def typed_def)
next
  case (Detach g h)
  assume s: "typed s"
  have "c_profile ` set (map (\<lambda>(i, c). c\<lparr>c_connected := c_connected c \<and> \<not> g i\<rparr>) (enumerate n cs)) = c_profile ` set cs" for n and cs :: "chart list"
    by (induction cs arbitrary: n) simp_all
  then show ?thesis using s Detach by (simp add: typed_def del: set_map)
next
  case (Frame t)
  assume "typed s"
  then show ?thesis using Frame by (simp add: typed_frame)
qed (auto simp: typed_def setQuality_def Let_def storage_event_def visibility_change_def createQualityControl_def
    animateMetric_def retry_def validQuality_def QUALITY_NAMES_def image_image split: option.split)

lemma reached_typed: "reached s \<Longrightarrow> typed s"
proof (induction rule: reached.induct)
  case (start b n)
  show ?case by (simp add: start_pages_def typed_def validQuality_def QUALITY_NAMES_def)
qed (rule typed_handle)

section \<open>The automaton of the automatic quality\<close>

text \<open>
  What the module promises: after three slow windows in a row it takes the better quality away
  until the timer, tries once more, and after three slow windows in a row again gives up until the
  user chooses.
\<close>

datatype phase = Trying nat | Waiting nat | Second nat | Given_Up
datatype outcome = Good | Bad | Timer | Reset

fun phase_step :: "outcome \<Rightarrow> phase \<Rightarrow> phase" where
  "phase_step Reset p = Trying 0"
| "phase_step Timer (Waiting n) = Second n"
| "phase_step Timer p = p"
| "phase_step Good (Trying n) = Trying 0"
| "phase_step Good (Waiting n) = Waiting 0"
| "phase_step Good (Second n) = Second 0"
| "phase_step Bad (Trying n) = (if n < 2 then Trying (Suc n) else Waiting 0)"
| "phase_step Bad (Waiting n) = (if n < 2 then Waiting (Suc n) else Waiting 0)"
| "phase_step Bad (Second n) = (if n < 2 then Second (Suc n) else Given_Up)"
| "phase_step _ Given_Up = Given_Up"

definition phase_of :: "auto_state \<Rightarrow> phase" where
  "phase_of a =
     (if permanent_low a then Given_Up else if retry_used a then Second (bad_windows a)
      else if retry_timer a then Waiting (bad_windows a) else Trying (bad_windows a))"

definition auto_ok :: "pages \<Rightarrow> bool" where
  "auto_ok s \<longleftrightarrow> (permanent_low (auto s) \<longrightarrow> retry_used (auto s)) \<and> (retry_used (auto s) \<longrightarrow> \<not> retry_timer (auto s)) \<and>
     (\<not> retry_timer (auto s) \<longrightarrow> penalty_until (auto s) = 0) \<and> bad_windows (auto s) < 3 \<and>
     slow s \<le> measured s"

text \<open>The outcome of the window a frame closes.\<close>

definition window_outcome :: "pages \<Rightarrow> outcome option" where
  "window_outcome s =
     (if q_selected (qualityState s) = ''auto'' \<and> q_resolved (qualityState s) = ''medium'' \<and> 45 \<le> measured s
      then Some (if of_nat (measured s) < 5 * (of_nat (slow s) :: rat) then Bad else Good) else None)"

fun outcome_of :: "event \<Rightarrow> pages \<Rightarrow> outcome option" where
  "outcome_of (Choose q) s = Some Reset"
| "outcome_of (Stored_Elsewhere v) s = Some Reset"
| "outcome_of Retry_Due s = Some Timer"
| "outcome_of (Frame t) s =
     (if frame_request s \<and> \<not> hidden (env s) then window_outcome (count_frame t s) else None)"
| "outcome_of _ s = None"

lemma selected_read [simp]: "q_selected (qualityState s) = readQuality s"
  by (simp add: qualityState_def Let_def)

lemma medium_not_given_up: "q_resolved (qualityState s) = ''medium'' \<Longrightarrow> readQuality s = ''auto'' \<Longrightarrow> \<not> permanent_low (auto s)"
  by (auto simp: qualityState_def Let_def split: if_splits)

lemma report_phase:
  assumes "auto_ok s"
  shows "phase_of (auto (reportFrameWindow s)) =
    (case window_outcome s of None \<Rightarrow> phase_of (auto s) | Some w \<Rightarrow> phase_step w (phase_of (auto s)))"
proof (cases "window_outcome s")
  case None
  then show ?thesis by (auto simp: window_outcome_def reportFrameWindow_def split: if_splits)
next
  case (Some w)
  then have h: "readQuality s = ''auto''" "q_resolved (qualityState s) = ''medium''" "45 \<le> measured s"
    and w: "w = (if of_nat (measured s) < 5 * (of_nat (slow s) :: rat) then Bad else Good)"
    by (auto simp: window_outcome_def split: if_splits)
  have m: "(0 :: rat) < of_nat (measured s)" using h(3) by simp
  have ratio: "1/5 < (of_nat (slow s) / of_nat (measured s) :: rat) \<longleftrightarrow> of_nat (measured s) < 5 * (of_nat (slow s) :: rat)"
    using m by (simp add: less_divide_eq) linarith
  show ?thesis
    using assms h(3) medium_not_given_up[OF h(2,1)]
    by (simp add: Some w reportFrameWindow_def h(1,2) Let_def ratio auto_ok_def phase_of_def)
qed

lemma window_outcome_cong:
  assumes "env s = env t" "fallback s = fallback t" "auto s = auto t" "measured s = measured t" "slow s = slow t"
  shows "window_outcome s = window_outcome t"
  unfolding window_outcome_def qualityState_cong[OF assms(1-3)] assms(4,5) ..

lemma report_auto_ok:
  assumes "auto_ok s"
  shows "auto_ok (reportFrameWindow s)"
  using assms by (auto simp: auto_ok_def reportFrameWindow_def Let_def)

lemma auto_ok_cong:
  assumes "auto s = auto t" "slow s = slow t" "measured s = measured t"
  shows "auto_ok s = auto_ok t"
  unfolding auto_ok_def assms ..

lemma auto_ok_drawn: "auto_ok s \<Longrightarrow> auto_ok (fst (drawn t s))"
  by (simp add: auto_ok_def count_frame_def)

lemma auto_ok_handle: "auto_ok s \<Longrightarrow> auto_ok (handle e s)"
proof (cases e)
  case (Frame t)
  assume s: "auto_ok s"
  note auto_ok_drawn[OF this, of t, THEN report_auto_ok]
  then have "auto_ok (animationFrame t s)" using s by (simp add: frame_unfold auto_ok_def)
  then show ?thesis using s Frame by simp
next
  case (Env b)
  assume "auto_ok s"
  then show ?thesis using Env by (simp add: auto_ok_def)
qed (simp_all add: auto_ok_def setQuality_def Let_def storage_event_def visibility_change_def createQualityControl_def
    animateMetric_def drawChart_def chart_seen_def retry_def resetAutoState_def)

lemma reached_auto_ok: "reached s \<Longrightarrow> auto_ok s"
proof (induction rule: reached.induct)
  case (start b n)
  show ?case by (simp add: start_pages_def auto_ok_def resetAutoState_def)
qed (rule auto_ok_handle)

lemma unrequest: "auto (s\<lparr>frame_request := b\<rparr>) = auto s"
  by simp

lemma handle_phase:
  assumes "auto_ok s"
  shows "phase_of (auto (handle e s)) =
    (case outcome_of e s of None \<Rightarrow> phase_of (auto s) | Some w \<Rightarrow> phase_step w (phase_of (auto s)))"
proof (cases e)
  case (Frame t)
  have w: "window_outcome (fst (drawn t s)) = window_outcome (count_frame t s)"
    by (rule window_outcome_cong) (simp_all add: count_frame_def)
  have "phase_of (auto (animationFrame t s)) =
      (if hidden (env s) then phase_of (auto s) else phase_of (auto (reportFrameWindow (fst (drawn t s)))))"
    by (simp add: frame_unfold)
  also have "phase_of (auto (reportFrameWindow (fst (drawn t s)))) =
      (case window_outcome (count_frame t s) of None \<Rightarrow> phase_of (auto s) | Some w \<Rightarrow> phase_step w (phase_of (auto s)))"
    by (simp only: report_phase[OF auto_ok_drawn[OF assms]] w draw_simps count_simps unrequest)
  finally show ?thesis using Frame by simp
qed (use assms in \<open>simp_all add: setQuality_def Let_def storage_event_def visibility_change_def createQualityControl_def
    animateMetric_def drawChart_def chart_seen_def retry_def resetAutoState_def phase_of_def auto_ok_def\<close>)

section \<open>The loop comes to rest\<close>

lemma report_rest: "measured s < 45 \<Longrightarrow> frame_request (reportFrameWindow s) = frame_request s"
  by (simp add: reportFrameWindow_def)

lemma notify_request: "hidden (env s) \<or> \<not> has_frames (env s) \<Longrightarrow> frame_request (wakeAnimator s) = frame_request s"
  by (auto simp: wakeAnimator_def)

text \<open>A frame from which every fade is over, and a page whose charts move by themselves.\<close>

definition fades_over :: "rat \<Rightarrow> pages \<Rightarrow> bool" where
  "fades_over t s \<longleftrightarrow>
     (\<forall>c\<in>set (charts s). 0 \<le> c_duration c \<and> c_started c + c_duration c \<le> t) \<and>
     (\<forall>m\<in>set (metrics s). 0 \<le> m_duration m \<and> m_started m + m_duration m \<le> t)"

definition self_moving :: "pages \<Rightarrow> bool" where
  "self_moving s \<longleftrightarrow> readQuality s = ''ultra'' \<and> \<not> reduced_motion (env s)"

definition on_screen :: "pages \<Rightarrow> bool" where
  "on_screen s \<longleftrightarrow> (\<exists>c\<in>set (charts s). c_connected c \<and> c_visible c)"

lemma progress_over: "0 \<le> dur \<Longrightarrow> started + dur \<le> t \<Longrightarrow> progress_of t started dur = 1"
proof -
  assume h: "0 \<le> dur" "started + dur \<le> t"
  show ?thesis
  proof (cases "dur = 0")
    case False
    then have "1 \<le> (t - started) / dur" using h by (simp add: le_divide_eq)
    then show ?thesis by (simp add: progress_of_def)
  qed (simp add: progress_of_def)
qed

lemma not_continuous:
  assumes "readQuality s \<noteq> ''ultra''" "q_profile (qualityState s) = Some p"
  shows "\<not> continuous p"
proof -
  have "q_resolved (qualityState s) \<noteq> ''ultra''" using assms(1) by (simp add: qualityState_def Let_def)
  moreover have "q_profile (qualityState s) = map_of QUALITY_PROFILES (q_resolved (qualityState s))"
    by (simp add: qualityState_def Let_def)
  ultimately show ?thesis using assms(2) by (auto simp: QUALITY_PROFILES_def split: if_splits)
qed

lemma never_rests_now:
  "never_rests (c\<lparr>c_profile := q_profile (qualityState s), c_motion := q_motion (qualityState s)\<rparr>) \<longleftrightarrow> self_moving s"
proof (cases "readQuality s = ''ultra''")
  case True
  then have "q_profile (qualityState s) = map_of QUALITY_PROFILES ''ultra''" by (simp add: qualityState_def Let_def)
  then show ?thesis using True by (simp add: never_rests_def self_moving_def QUALITY_PROFILES_def) (simp add: qualityState_def Let_def)
next
  case False
  then show ?thesis using not_continuous[of s] by (auto simp: never_rests_def self_moving_def split: option.split)
qed

lemma draw_over:
  assumes "fades_over t s"
  shows "snd (draw_frame t s) \<longleftrightarrow> self_moving s \<and> on_screen s"
proof -
  have m: "\<not> snd (metric_frame t m)" if "m \<in> set (metrics s)" for m
    using that assms progress_over[of "m_duration m" "m_started m" t] by (simp add: fades_over_def metric_frame_def Let_def)
  have c: "snd (chart_frame (qualityState s) t c) \<longleftrightarrow> c_visible c \<and> self_moving s" if "c \<in> set (charts s)" for c
  proof -
    have "progress_of t (c_started c) (c_duration c) = 1" using that assms progress_over by (simp add: fades_over_def)
    then show ?thesis using never_rests_now[of s c] by (simp add: chart_frame_def Let_def)
  qed
  show ?thesis using m c by (auto simp: draw_frame_def Let_def on_screen_def)
qed

lemma chart_frame_times [simp]:
  "c_started (fst (chart_frame q t c)) = c_started c" "c_duration (fst (chart_frame q t c)) = c_duration c"
  by (simp_all add: chart_frame_def Let_def draw_def)

lemma metric_frame_times [simp]:
  "m_started (fst (metric_frame t m)) = m_started m" "m_duration (fst (metric_frame t m)) = m_duration m"
  by (simp_all add: metric_frame_def Let_def)

lemma fades_cong:
  assumes "\<And>c. c \<in> set (charts s) \<Longrightarrow> \<exists>d\<in>set (charts t). c_started c = c_started d \<and> c_duration c = c_duration d"
    and "\<And>m. m \<in> set (metrics s) \<Longrightarrow> \<exists>n\<in>set (metrics t). m_started m = m_started n \<and> m_duration m = m_duration n"
    and "fades_over x t"
  shows "fades_over x s"
  using assms unfolding fades_over_def by metis

lemma fades_mono: "fades_over t s \<Longrightarrow> t \<le> u \<Longrightarrow> fades_over u s"
  unfolding fades_over_def by fastforce

lemma moving_cong: "env s = env t \<Longrightarrow> fallback s = fallback t \<Longrightarrow> self_moving s = self_moving t"
  using readQuality_cong[of s t] by (simp add: self_moving_def)

lemma report_measured: "measured (reportFrameWindow s) < 45"
  by (simp add: reportFrameWindow_def Let_def)

lemma report_times:
  assumes "c \<in> set (charts (reportFrameWindow s))"
  shows "\<exists>d\<in>set (charts s). c_started c = c_started d \<and> c_duration c = c_duration d"
  using assms by (auto simp: reportFrameWindow_def Let_def split: if_splits)

lemma fades_frame:
  assumes "fades_over t s"
  shows "fades_over t (animationFrame t s)"
proof (rule fades_cong[OF _ _ assms])
  fix c
  assume "c \<in> set (charts (animationFrame t s))"
  then have "c \<in> set (charts s) \<or> c \<in> set (charts (reportFrameWindow (fst (drawn t s))))"
    by (auto simp: frame_unfold split: if_splits)
  then consider "c \<in> set (charts s)" | d where "d \<in> set (charts (fst (drawn t s)))" "c_started c = c_started d" "c_duration c = c_duration d"
    using report_times by blast
  then show "\<exists>d\<in>set (charts s). c_started c = c_started d \<and> c_duration c = c_duration d"
  proof cases
    case (2 d)
    then obtain d' where "d' \<in> set (charts s)" "d = fst (chart_frame (qualityState (count_frame t (s\<lparr>frame_request := False\<rparr>))) t d')"
      by (auto simp: draw_frame_def Let_def)
    then show ?thesis using 2 by auto
  qed blast
next
  fix m
  assume "m \<in> set (metrics (animationFrame t s))"
  then show "\<exists>n\<in>set (metrics s). m_started m = m_started n \<and> m_duration m = m_duration n"
    by (auto simp: frame_unfold draw_frame_def Let_def split: if_splits)
qed

lemma drawn_over: "fades_over t s \<Longrightarrow> snd (drawn t s) \<longleftrightarrow> self_moving s \<and> on_screen s"
proof -
  assume "fades_over t s"
  then have "fades_over t (count_frame t (s\<lparr>frame_request := False\<rparr>))" by (rule fades_cong[rotated 2]) auto
  from draw_over[OF this] show ?thesis
    using moving_cong[of "count_frame t (s\<lparr>frame_request := False\<rparr>)" s] by (simp add: on_screen_def)
qed

lemma report_on_screen: "on_screen (reportFrameWindow s) = on_screen s"
  by (auto simp: reportFrameWindow_def Let_def on_screen_def)

lemma frame_on_screen: "on_screen (animationFrame t s) = on_screen s"
proof -
  have "on_screen (fst (drawn t s)) = on_screen s"
    by (auto simp: draw_frame_def Let_def on_screen_def chart_frame_def draw_def)
  moreover have "on_screen (p\<lparr>last_frame := 0\<rparr>) = on_screen p" "on_screen (wakeAnimator p) = on_screen p"
    "on_screen (p\<lparr>frame_request := False\<rparr>) = on_screen p" for p
    by (simp_all add: on_screen_def)
  ultimately show ?thesis by (simp add: frame_unfold report_on_screen)
qed

text \<open>A frame on a page at rest, and on one that moves by itself.\<close>

lemma frame_rests:
  assumes "fades_over t s" "\<not> (self_moving s \<and> on_screen s)" "measured s < 45" "last_frame s = 0"
  shows "\<not> frame_request (animationFrame t s)"
proof -
  have "measured (fst (drawn t s)) < 45" using assms(3,4) by (simp add: count_frame_def)
  then show ?thesis
    using drawn_over[OF assms(1)] assms(2) by (simp add: frame_unfold report_rest)
qed

lemma rest_state:
  assumes "fades_over t s" "\<not> (self_moving s \<and> on_screen s)" "\<not> hidden (env s)"
  shows "measured (animationFrame t s) < 45 \<and> last_frame (animationFrame t s) = 0"
  using drawn_over[OF assms(1)] assms(2,3) report_measured by (simp add: frame_unfold)

lemma frame_goes_on:
  assumes "fades_over t s" "self_moving s" "on_screen s" "\<not> hidden (env s)"
  shows "frame_request (animationFrame t s) \<longleftrightarrow> has_frames (env s)"
proof -
  let ?d = "fst (drawn t s)"
  have "readQuality ?d = ''ultra''"
    using assms(2) readQuality_cong[of ?d s] by (simp add: self_moving_def)
  then have "reportFrameWindow ?d = ?d\<lparr>measured := 0, slow := 0\<rparr>" by (simp add: reportFrameWindow_def)
  then show ?thesis
    using drawn_over[OF assms(1)] assms(2-4) by (simp add: frame_unfold wakeAnimator_def)
qed

section \<open>Claims on the quality\<close>

text \<open>
  C4: the module's counters and flags implement the automaton: every event moves the phase they
  stand for exactly as the automaton says, or leaves it.
\<close>

theorem quality_refines_automaton:
  assumes "reached s"
  shows "phase_of (auto (handle e s)) =
    (case outcome_of e s of None \<Rightarrow> phase_of (auto s) | Some w \<Rightarrow> phase_step w (phase_of (auto s)))"
  by (rule handle_phase[OF reached_auto_ok[OF assms]])

definition example_browser :: browser where
  "example_browser = \<lparr>now = 1000, hidden = False, can_read = True, can_store = True, stored = None, reduced_motion = False,
     cores = 8, memory = 8, fine_pointer = True, width = 1200, has_frames = True\<rparr>"

lemma example_reached: "reached (setQuality ''auto'' (start_pages example_browser 1))"
  using step[OF start, of "Choose ''auto''"] by simp

theorem quality_refines_automaton_witness:
  "phase_of (auto (retry (setQuality ''auto'' (start_pages example_browser 1)))) = Trying 0"
  using quality_refines_automaton[OF example_reached, of Retry_Due]
  by (simp add: setQuality_def Let_def resetAutoState_def phase_of_def)

text \<open>
  C31: the quality in use always has a profile, also when the store holds another text or cannot be
  read, and so has every chart that was drawn.
\<close>

theorem quality_has_profile:
  assumes "reached s"
  shows "validQuality (readQuality s) \<and> q_profile (qualityState s) \<noteq> None \<and> (\<forall>c\<in>set (charts s). c_profile c \<noteq> None)"
proof -
  have t: "typed s" by (rule reached_typed[OF assms])
  then have "validQuality (readQuality s)" by (auto simp: typed_def readQuality_def split: option.split)
  then show ?thesis using t profile_defined typed_charts by (auto simp: typed_def)
qed

theorem quality_has_profile_witness:
  "q_profile (qualityState (setQuality ''best'' (start_pages example_browser 1))) \<noteq> None"
  using quality_has_profile[OF step[OF start, of "Choose ''best''"]] by simp

text \<open>
  Left to itself the module draws in medium quality at most, in low quality when the system
  asks for less motion, when it gave up, and until a penalty is over; a penalty is only in force
  while the timer that ends it is running.
\<close>

theorem auto_quality_safe:
  assumes "reached s" "readQuality s = ''auto''"
  shows "q_resolved (qualityState s) \<in> {''low'', ''medium''} \<and>
    (reduced_motion (env s) \<or> phase_of (auto s) = Given_Up \<or> now (env s) < penalty_until (auto s)
       \<longrightarrow> q_resolved (qualityState s) = ''low'') \<and>
    (penalty_until (auto s) \<noteq> 0 \<longrightarrow> retry_timer (auto s))"
  using reached_auto_ok[OF assms(1)] assms(2)
  by (auto simp: qualityState_def Let_def phase_of_def auto_ok_def split: if_splits)

theorem auto_quality_safe_witness:
  "q_resolved (qualityState (setQuality ''auto'' (start_pages example_browser 1))) \<in> {''low'', ''medium''}"
  using auto_quality_safe[OF example_reached]
  by (simp add: readQuality_def setQuality_def Let_def validQuality_def QUALITY_NAMES_def example_browser_def start_pages_def)

text \<open>
  C30: when the animation loop stops: once every fade is over, the frame after the next one (which
  may have lowered the quality) asks for a further one exactly when the user chose "ultra", has not
  asked for reduced motion, and a chart is on the screen of a visible page. In every other quality
  the loop rests.
\<close>

theorem animation_rests:
  assumes "fades_over t s" "t \<le> u"
  shows "frame_request (animationFrame u (animationFrame t s)) \<longleftrightarrow>
    readQuality s = ''ultra'' \<and> \<not> reduced_motion (env s) \<and> \<not> hidden (env s) \<and> has_frames (env s) \<and>
    (\<exists>c\<in>set (charts s). c_connected c \<and> c_visible c)"
proof (cases "hidden (env s)")
  case True
  then show ?thesis by (simp add: frame_unfold)
next
  case False
  let ?f = "animationFrame t s"
  have f: "fades_over u ?f" by (rule fades_mono[OF fades_frame[OF assms(1)] assms(2)])
  have mv: "self_moving ?f = self_moving s" by (rule moving_cong) simp_all
  show ?thesis
  proof (cases "self_moving s \<and> on_screen s")
    case True
    then have "frame_request (animationFrame u ?f) \<longleftrightarrow> has_frames (env s)"
      using frame_goes_on[OF f] False mv frame_on_screen by simp
    then show ?thesis using True False by (auto simp: self_moving_def on_screen_def)
  next
    case rest: False
    then have "\<not> frame_request (animationFrame u ?f)"
      using frame_rests[OF f] rest_state[OF assms(1) rest False] mv frame_on_screen by simp
    then show ?thesis using rest by (auto simp: self_moving_def on_screen_def)
  qed
qed

theorem animation_rests_witness:
  "\<not> frame_request (animationFrame 2000 (animationFrame 1000
     (drawChart 0 100 [(0, 1, 1)] (setQuality ''high'' (start_pages example_browser 1))))) \<and>
   frame_request (animationFrame 2000 (animationFrame 1000
     (drawChart 0 100 [(0, 1, 1)] (setQuality ''ultra'' (start_pages example_browser 1)))))"
proof -
  have f: "fades_over 1000 (drawChart 0 100 [(0, 1, 1)] (setQuality q (start_pages example_browser 1)))"
    if "q \<in> {''high'', ''ultra''}" for q
    using that
    by (auto simp: fades_over_def drawChart_def chart_data_def draw_def Let_def new_chart_def qualityState_def readQuality_def
        setQuality_def validQuality_def QUALITY_NAMES_def QUALITY_PROFILES_def example_browser_def start_pages_def)
  have le: "(1000 :: rat) \<le> 2000" by simp
  show ?thesis
    using animation_rests[OF f le, of "''high''"] animation_rests[OF f le, of "''ultra''"]
    by (simp add: drawChart_def chart_data_def draw_def Let_def new_chart_def readQuality_def
        setQuality_def validQuality_def QUALITY_NAMES_def example_browser_def start_pages_def)
qed

end
