(* ===== verification/Traffic_Monitor.thy ===== *)
theory Traffic_Monitor
  imports Js_Object Complex_Main
begin

text \<open>
  The traffic monitor of the live traffic pages (\<open>live-traffic/core.js\<close> 278-418): the
  leases by address, the connections of a snapshot added up by client, and the monitor that turns
  successive byte counters into rates and keeps a window of them. Counters and rates are rationals
  (a rate is the exact quotient, of which the code keeps the nearest double). The objects are keyed
  by hardware address, by \<open>unattributed\<close> and by \<open>__wan__\<close>; an address is ASCII, and
  none of the names an object inherits.
\<close>

section \<open>Clients\<close>

definition normalizeMac :: "jstr \<Rightarrow> jstr" where
  "normalizeMac mac = to_lower mac"

text \<open>A lease and a row of a snapshot; a missing text is empty, a missing number 0.\<close>

record lease =
  l_macaddr :: jstr
  l_hostname :: jstr
  l_ipaddr :: jstr

record known_lease =
  k_hostname :: jstr
  k_ips :: "jstr list"

definition add_ip :: "jstr \<Rightarrow> jstr list \<Rightarrow> jstr list" where
  "add_ip ip ips = (if ip \<in> set ips then ips else ips @ [ip])"

definition add_lease :: "lease \<Rightarrow> known_lease obj \<Rightarrow> known_lease obj" where
  "add_lease l ls =
     (let mac = normalizeMac (l_macaddr l)
      in if \<not> truthy mac then ls
         else
           (let k = (case obj_get ls mac of Some k \<Rightarrow> k | None \<Rightarrow> \<lparr>k_hostname = [], k_ips = []\<rparr>);
                k1 = (if truthy (l_hostname l) then k\<lparr>k_hostname := l_hostname l\<rparr> else k);
                k2 = (if truthy (l_ipaddr l) then k1\<lparr>k_ips := add_ip (l_ipaddr l) (k_ips k1)\<rparr> else k1)
            in obj_put ls mac k2))"

text \<open>The payload lists leases under several keys; what is no list holds none.\<close>

definition leaseMap :: "lease list obj \<Rightarrow> known_lease obj" where
  "leaseMap payload = fold (\<lambda>(k, ls) acc. fold add_lease ls acc) (own_entries payload) []"

record row =
  r_mac :: jstr
  r_ip :: jstr
  r_connections :: rat
  r_rx :: rat
  r_tx :: rat

record client =
  key :: jstr
  mac :: jstr
  name :: jstr
  ips :: "jstr list"
  connections :: rat
  rxBytes :: rat
  txBytes :: rat

definition row_key :: "row \<Rightarrow> jstr" where
  "row_key r = (if truthy (normalizeMac (r_mac r)) then normalizeMac (r_mac r) else js ''unattributed'')"

definition new_client :: "row \<Rightarrow> client" where
  "new_client r = \<lparr>key = row_key r, mac = normalizeMac (r_mac r), name = [], ips = [], connections = 0, rxBytes = 0, txBytes = 0\<rparr>"

definition count_row :: "row \<Rightarrow> client \<Rightarrow> client" where
  "count_row r c = c\<lparr>ips := (if truthy (r_ip r) then add_ip (r_ip r) (ips c) else ips c),
     connections := connections c + r_connections r, rxBytes := rxBytes c + r_rx r, txBytes := txBytes c + r_tx r\<rparr>"

definition add_row :: "row \<Rightarrow> client obj \<Rightarrow> client obj" where
  "add_row r cs =
     obj_put cs (row_key r) (count_row r (case obj_get cs (row_key r) of Some c \<Rightarrow> c | None \<Rightarrow> new_client r))"

definition name_client :: "known_lease obj \<Rightarrow> client \<Rightarrow> client" where
  "name_client known c =
     (let c1 = (case obj_get known (mac c) of
            Some l \<Rightarrow> c\<lparr>name := k_hostname l, ips := fold add_ip (k_ips l) (ips c)\<rparr>
          | None \<Rightarrow> c)
      in if truthy (name c1) then c1
         else c1\<lparr>name := (if ips c1 \<noteq> [] \<and> truthy (hd (ips c1)) then hd (ips c1)
                       else if truthy (mac c1) then mac c1 else js ''Unattributed traffic'')\<rparr>)"

definition aggregateClients :: "row list \<Rightarrow> lease list obj \<Rightarrow> client list" where
  "aggregateClients rows payload =
     map (\<lambda>(k, c). name_client (leaseMap payload) c) (own_entries (fold add_row rows []))"

section \<open>The monitor\<close>

record sample =
  t :: rat
  down :: rat
  up :: rat

record device = client +
  downRate :: rat
  upRate :: rat

record wan_rates =
  w_rx :: rat
  w_tx :: rat
  w_down :: rat
  w_up :: rat

record view =
  v_now :: rat
  devices :: "device list"
  wan :: wan_rates

record monitor =
  retention :: rat
  previous :: "view option"
  history :: "sample list obj"

text \<open>\<open>Number(seconds) || 600\<close>\<close>

definition new_monitor :: "rat \<Rightarrow> monitor" where
  "new_monitor seconds = \<lparr>retention = (if seconds = 0 then 600 else seconds), previous = None, history = []\<rparr>"

definition append_sample :: "jstr \<Rightarrow> rat \<Rightarrow> rat \<Rightarrow> rat \<Rightarrow> monitor \<Rightarrow> monitor" where
  "append_sample k d u now m =
     (let xs = (case obj_get (history m) k of Some xs \<Rightarrow> xs | None \<Rightarrow> []) @ [\<lparr>t = now, down = d, up = u\<rparr>];
          cutoff = now - retention m
      in m\<lparr>history := obj_put (history m) k (dropWhile (\<lambda>x. t x < cutoff) xs)\<rparr>)"

text \<open>The rate of a counter; a counter that went back has none.\<close>

definition rate :: "rat \<Rightarrow> rat \<Rightarrow> rat" where
  "rate elapsed delta = (if elapsed \<noteq> 0 \<and> 0 \<le> delta then delta / elapsed else 0)"

definition rated :: "rat \<Rightarrow> device list \<Rightarrow> client \<Rightarrow> device" where
  "rated elapsed olds c =
     (let old = find (\<lambda>d. key d = key c) (rev olds);
          rx = (case old of Some d \<Rightarrow> rxBytes c - rxBytes d | None \<Rightarrow> 0);
          tx = (case old of Some d \<Rightarrow> txBytes c - txBytes d | None \<Rightarrow> 0)
      in client.extend c \<lparr>downRate = rate elapsed rx, upRate = rate elapsed tx\<rparr>)"

definition ingest :: "rat \<Rightarrow> row list \<Rightarrow> lease list obj \<Rightarrow> rat \<Rightarrow> rat \<Rightarrow> monitor \<Rightarrow> monitor" where
  "ingest now rows leases wanRx wanTx m =
     (let elapsed = (case previous m of Some p \<Rightarrow> max (1/10) (now - v_now p) | None \<Rightarrow> 0);
          olds = (case previous m of Some p \<Rightarrow> devices p | None \<Rightarrow> []);
          ds = map (rated elapsed olds) (aggregateClients rows leases);
          m1 = fold (\<lambda>d. append_sample (key d) (downRate d) (upRate d) now) ds m;
          w = (case previous m of
                 None \<Rightarrow> \<lparr>w_rx = wanRx, w_tx = wanTx, w_down = 0, w_up = 0\<rparr>
               | Some p \<Rightarrow> \<lparr>w_rx = wanRx, w_tx = wanTx,
                   w_down = (if w_rx (wan p) \<le> wanRx then (wanRx - w_rx (wan p)) / elapsed else 0),
                   w_up = (if w_tx (wan p) \<le> wanTx then (wanTx - w_tx (wan p)) / elapsed else 0)\<rparr>);
          m2 = append_sample (js ''__wan__'') (w_down w) (w_up w) now m1
      in m2\<lparr>previous := Some \<lparr>v_now = now, devices = sort_key (\<lambda>d. - (downRate d + upRate d)) ds, wan = w\<rparr>\<rparr>)"

definition samples :: "jstr \<Rightarrow> monitor \<Rightarrow> sample list" where
  "samples k m = (case obj_get (history m) k of Some xs \<Rightarrow> xs | None \<Rightarrow> [])"

section \<open>Clients: facts\<close>

definition total :: "(row \<Rightarrow> rat) \<Rightarrow> row list \<Rightarrow> jstr \<Rightarrow> rat" where
  "total f rows k = sum_list (map f (filter (\<lambda>r. row_key r = k) rows))"

lemma total_simps [simp]:
  "total f [] k = 0" "total f (rows @ [r]) k = total f rows k + (if row_key r = k then f r else 0)"
  by (simp_all add: total_def)

definition summed :: "row list \<Rightarrow> client obj \<Rightarrow> bool" where
  "summed rows cs \<longleftrightarrow> distinct (map fst cs) \<and> fst ` set cs = row_key ` set rows \<and>
     (\<forall>k c. obj_get cs k = Some c \<longrightarrow> key c = k \<and> rxBytes c = total r_rx rows k \<and> txBytes c = total r_tx rows k \<and>
        connections c = total r_connections rows k)"

lemma total_absent: "k \<notin> row_key ` set rows \<Longrightarrow> total f rows k = 0"
  by (auto simp: total_def filter_empty_conv image_iff intro!: arg_cong[where f = sum_list])
    (metis (mono_tags, lifting) filter_False list.simps(8) sum_list.Nil)

lemma summed_add_row:
  assumes "summed rows cs"
  shows "summed (rows @ [r]) (add_row r cs)"
proof -
  have none: "total f rows k = 0" if "obj_get cs k = None" for f k
    using assms that by (intro total_absent) (auto simp: summed_def obj_get_def map_of_eq_None_iff)
  have "key c = k \<and> rxBytes c = total r_rx (rows @ [r]) k \<and> txBytes c = total r_tx (rows @ [r]) k \<and>
      connections c = total r_connections (rows @ [r]) k" if c: "obj_get (add_row r cs) k = Some c" for k c
  proof (cases "k = row_key r")
    case False
    then show ?thesis using c assms by (simp add: add_row_def obj_get_put summed_def)
  next
    case True
    show ?thesis
    proof (cases "obj_get cs k")
      case None
      then show ?thesis using c True none[OF None] by (auto simp: add_row_def obj_get_put count_row_def new_client_def)
    next
      case (Some c0)
      then show ?thesis using c True assms by (auto simp: add_row_def obj_get_put count_row_def summed_def)
    qed
  qed
  moreover have "distinct (map fst (add_row r cs))" using assms by (simp add: add_row_def summed_def distinct_obj_put)
  moreover have "fst ` set (add_row r cs) = insert (row_key r) (fst ` set cs)"
    unfolding add_row_def by (simp only: keys_obj_put set_map[symmetric])
  ultimately show ?thesis using assms by (auto simp: summed_def)
qed

lemma summed_fold: "summed rows (fold add_row rows [])"
  by (induction rows rule: rev_induct) (simp_all add: summed_add_row, simp add: summed_def)

lemma name_client_simps [simp]:
  "key (name_client ls c) = key c" "mac (name_client ls c) = mac c" "rxBytes (name_client ls c) = rxBytes c"
  "txBytes (name_client ls c) = txBytes c" "connections (name_client ls c) = connections c" "name (name_client ls c) \<noteq> []"
  by (auto simp: name_client_def Let_def truthy_def split: option.split)

lemma aggregate_facts:
  fixes rows :: "row list" and payload :: "lease list obj"
  defines "cs \<equiv> aggregateClients rows payload"
  shows "distinct (map key cs)" "key ` set cs = row_key ` set rows"
    and "c \<in> set cs \<Longrightarrow> rxBytes c = total r_rx rows (key c) \<and> txBytes c = total r_tx rows (key c) \<and>
      connections c = total r_connections rows (key c) \<and> name c \<noteq> []"
proof -
  let ?os = "fold add_row rows []"
  have os: "summed rows ?os" by (rule summed_fold)
  then have dist: "distinct (map fst (own_entries ?os))" by (simp add: summed_def distinct_own_entries)
  have mem: "obj_get ?os k = Some c" if "(k, c) \<in> set (own_entries ?os)" for k c
    using that os by (simp add: set_own_entries summed_def obj_get_member)
  have keys: "map key cs = map fst (own_entries ?os)"
    using mem os by (auto simp: cs_def aggregateClients_def summed_def case_prod_unfold)
  show "distinct (map key cs)" using dist by (simp only: keys)
  have "key ` set cs = fst ` set (own_entries ?os)" using keys by (metis set_map)
  also have "\<dots> = row_key ` set rows" using os by (simp add: set_own_entries summed_def)
  finally show "key ` set cs = row_key ` set rows" .
  show "rxBytes c = total r_rx rows (key c) \<and> txBytes c = total r_tx rows (key c) \<and>
      connections c = total r_connections rows (key c) \<and> name c \<noteq> []" if c: "c \<in> set cs"
  proof -
    obtain k c0 where c0: "(k, c0) \<in> set (own_entries ?os)" "c = name_client (leaseMap payload) c0"
      using c by (auto simp: cs_def aggregateClients_def)
    have "key c0 = k \<and> rxBytes c0 = total r_rx rows k \<and> txBytes c0 = total r_tx rows k \<and> connections c0 = total r_connections rows k"
      using os mem[OF c0(1)] unfolding summed_def by blast
    then show ?thesis by (simp add: c0(2))
  qed
qed

text \<open>
  The clients of a snapshot are one per address (and one for the rows without an address), each
  with a name, and their counters are the sums over the rows of that address.
\<close>

theorem aggregate_sums:
  "distinct (map key (aggregateClients rows payload)) \<and>
   key ` set (aggregateClients rows payload) = row_key ` set rows \<and>
   (\<forall>c\<in>set (aggregateClients rows payload).
      rxBytes c = total r_rx rows (key c) \<and> txBytes c = total r_tx rows (key c) \<and>
      connections c = total r_connections rows (key c) \<and> name c \<noteq> [])"
  using aggregate_facts(1,2)[of rows payload] aggregate_facts(3)[where rows = rows and payload = payload] by blast

theorem aggregate_sums_witness:
  "map key (aggregateClients
      [\<lparr>r_mac = js ''Aa'', r_ip = js ''1'', r_connections = 1, r_rx = 10, r_tx = 5\<rparr>,
       \<lparr>r_mac = js ''aA'', r_ip = js ''2'', r_connections = 2, r_rx = 20, r_tx = 7\<rparr>] []) = [js ''aa''] \<and>
   map rxBytes (aggregateClients
      [\<lparr>r_mac = js ''Aa'', r_ip = js ''1'', r_connections = 1, r_rx = 10, r_tx = 5\<rparr>,
       \<lparr>r_mac = js ''aA'', r_ip = js ''2'', r_connections = 2, r_rx = 20, r_tx = 7\<rparr>] []) = [30]"
proof -
  let ?rows = "[\<lparr>r_mac = js ''Aa'', r_ip = js ''1'', r_connections = 1, r_rx = 10, r_tx = 5\<rparr>,
       \<lparr>r_mac = js ''aA'', r_ip = js ''2'', r_connections = 2, r_rx = 20, r_tx = 7\<rparr>]"
  let ?cs = "aggregateClients ?rows []"
  have k: "row_key (?rows ! 0) = js ''aa''" "row_key (?rows ! 1) = js ''aa''"
    by (simp_all add: row_key_def normalizeMac_def truthy_def) (simp_all add: js_def to_lower_def lower_cu_def)
  then have "set (map key ?cs) = {js ''aa''}" "distinct (map key ?cs)" using aggregate_sums[of ?rows "[]"] by auto
  moreover from this have "length (map key ?cs) = 1" using distinct_card[of "map key ?cs"] by simp
  then obtain c where "?cs = [c]" by (auto simp: length_Suc_conv)
  ultimately have c: "?cs = [c]" "key c = js ''aa''" by simp_all
  have "rxBytes c = 30" using aggregate_sums[of ?rows "[]"] c k by (simp add: total_def)
  then show ?thesis using c by simp
qed

section \<open>The window of rates\<close>

inductive watched :: "monitor \<Rightarrow> bool" where
  start: "0 \<le> seconds \<Longrightarrow> watched (new_monitor seconds)"
| tick: "watched m \<Longrightarrow> (case previous m of Some p \<Rightarrow> v_now p \<le> now | None \<Rightarrow> True) \<Longrightarrow>
    watched (ingest now rows leases wanRx wanTx m)"

text \<open>A history that is ordered, no older than the retention time, and without negative rates.\<close>

definition window_ok :: "rat \<Rightarrow> rat \<Rightarrow> sample list \<Rightarrow> bool" where
  "window_ok ret now xs \<longleftrightarrow> sorted (map t xs) \<and> (\<forall>x\<in>set xs. t x \<le> now \<and> t (last xs) - ret \<le> t x \<and> 0 \<le> down x \<and> 0 \<le> up x)"

definition histories_ok :: "rat \<Rightarrow> monitor \<Rightarrow> bool" where
  "histories_ok now m \<longleftrightarrow> 0 \<le> retention m \<and> (\<forall>k xs. obj_get (history m) k = Some xs \<longrightarrow> window_ok (retention m) now xs)"

lemma window_append:
  assumes "window_ok ret before xs" "before \<le> now" "0 \<le> d" "0 \<le> u" "0 \<le> ret"
  shows "window_ok ret now (dropWhile (\<lambda>x. t x < now - ret) (xs @ [\<lparr>t = now, down = d, up = u\<rparr>]))"
proof -
  let ?ys = "xs @ [\<lparr>t = now, down = d, up = u\<rparr>]" and ?P = "\<lambda>x. t x < now - ret"
  have le: "t x \<le> now" if "x \<in> set ?ys" for x using that assms(1,2) by (auto simp: window_ok_def)
  have "sorted (map t ?ys)" using assms(1,2) by (auto simp: window_ok_def sorted_append)
  moreover have split: "map t ?ys = map t (takeWhile ?P ?ys) @ map t (dropWhile ?P ?ys)"
    by (metis map_append takeWhile_dropWhile_id)
  ultimately have sorted: "sorted (map t (dropWhile ?P ?ys))" by (metis sorted_append)
  have ne: "dropWhile ?P ?ys \<noteq> []" using assms(5) by simp
  have "last (dropWhile ?P ?ys) = last ?ys" using ne by (metis last_appendR takeWhile_dropWhile_id)
  then have last: "t (last (dropWhile ?P ?ys)) = now" by simp
  have "now - ret \<le> t x" if "x \<in> set (dropWhile ?P ?ys)" for x
  proof -
    have "\<not> ?P (hd (dropWhile ?P ?ys))" using ne by (rule hd_dropWhile)
    moreover have "t (hd (dropWhile ?P ?ys)) \<le> t x"
      using sorted that ne by (cases "dropWhile ?P ?ys") auto
    ultimately show ?thesis by simp
  qed
  moreover have "0 \<le> down x \<and> 0 \<le> up x" if "x \<in> set ?ys" for x
    using that assms(1,3,4) by (auto simp: window_ok_def)
  moreover have "x \<in> set ?ys" if "x \<in> set (dropWhile ?P ?ys)" for x using that by (rule set_dropWhileD)
  ultimately show ?thesis unfolding window_ok_def last using sorted le by simp
qed

lemma window_mono: "window_ok ret now xs \<Longrightarrow> now \<le> later \<Longrightarrow> window_ok ret later xs"
  by (auto simp: window_ok_def)

lemma histories_append:
  assumes "histories_ok before m" "before \<le> now" "0 \<le> d" "0 \<le> u"
  shows "histories_ok now (append_sample k d u now m)"
proof -
  have "window_ok (retention m) before (case obj_get (history m) k of Some xs \<Rightarrow> xs | None \<Rightarrow> [])"
    using assms(1) by (auto simp: histories_ok_def window_ok_def split: option.split)
  from window_append[OF this assms(2-4)] show ?thesis
    using assms(1) window_mono[OF _ assms(2)]
    by (auto simp: histories_ok_def append_sample_def Let_def obj_get_put split: if_splits)
qed

lemma append_simps [simp]: "retention (append_sample k d u now m) = retention m" "previous (append_sample k d u now m) = previous m"
  by (simp_all add: append_sample_def Let_def)

lemma rate_nonneg: "0 \<le> elapsed \<Longrightarrow> 0 \<le> rate elapsed delta"
  by (simp add: rate_def)

lemma rated_nonneg: "0 \<le> elapsed \<Longrightarrow> 0 \<le> downRate (rated elapsed olds c) \<and> 0 \<le> upRate (rated elapsed olds c)"
  by (simp add: rated_def Let_def rate_nonneg client.defs)

lemma histories_fold:
  assumes "\<forall>d\<in>set ds. 0 \<le> downRate d \<and> 0 \<le> upRate d" "histories_ok now m"
  shows "histories_ok now (fold (\<lambda>d. append_sample (key d) (downRate d) (upRate d) now) ds m)"
  using assms by (induction ds arbitrary: m) (simp_all add: histories_append)

lemma fold_append_simps [simp]:
  "retention (fold (\<lambda>d. append_sample (key d) (downRate d) (upRate d) now) ds m) = retention m"
  "previous (fold (\<lambda>d. append_sample (key d) (downRate d) (upRate d) now) ds m) = previous m"
  by (induction ds arbitrary: m) simp_all

definition watch_ok :: "monitor \<Rightarrow> bool" where
  "watch_ok m \<longleftrightarrow>
     (case previous m of
        None \<Rightarrow> 0 \<le> retention m \<and> history m = []
      | Some p \<Rightarrow> histories_ok (v_now p) m \<and> (\<forall>d\<in>set (devices p). 0 \<le> downRate d \<and> 0 \<le> upRate d) \<and>
          0 \<le> w_down (wan p) \<and> 0 \<le> w_up (wan p))"

lemma watch_ingest:
  assumes "watch_ok m" "case previous m of Some p \<Rightarrow> v_now p \<le> now | None \<Rightarrow> True"
  shows "watch_ok (ingest now rows leases wanRx wanTx m)"
proof -
  define elapsed where "elapsed = (case previous m of Some p \<Rightarrow> max (1/10) (now - v_now p) | None \<Rightarrow> 0)"
  define olds where "olds = (case previous m of Some p \<Rightarrow> devices p | None \<Rightarrow> [])"
  define ds where "ds = map (rated elapsed olds) (aggregateClients rows leases)"
  define w where "w = (case previous m of
      None \<Rightarrow> \<lparr>w_rx = wanRx, w_tx = wanTx, w_down = 0, w_up = 0\<rparr>
    | Some p \<Rightarrow> \<lparr>w_rx = wanRx, w_tx = wanTx,
        w_down = (if w_rx (wan p) \<le> wanRx then (wanRx - w_rx (wan p)) / elapsed else 0),
        w_up = (if w_tx (wan p) \<le> wanTx then (wanTx - w_tx (wan p)) / elapsed else 0)\<rparr>)"
  define m2 where "m2 = append_sample (js ''__wan__'') (w_down w) (w_up w) now
    (fold (\<lambda>d. append_sample (key d) (downRate d) (upRate d) now) ds m)"
  have eq: "ingest now rows leases wanRx wanTx m =
      m2\<lparr>previous := Some \<lparr>v_now = now, devices = sort_key (\<lambda>d. - (downRate d + upRate d)) ds, wan = w\<rparr>\<rparr>"
    unfolding ingest_def Let_def m2_def w_def ds_def olds_def elapsed_def ..
  have e: "0 \<le> elapsed" by (auto simp: elapsed_def le_max_iff_disj split: option.split)
  have ds: "\<forall>d\<in>set ds. 0 \<le> downRate d \<and> 0 \<le> upRate d" using rated_nonneg[OF e] by (simp add: ds_def)
  have w: "0 \<le> w_down w" "0 \<le> w_up w" using e by (simp_all add: w_def split: option.split)
  have "histories_ok now m"
  proof (cases "previous m")
    case None
    then show ?thesis using assms(1) by (simp add: watch_ok_def histories_ok_def)
  next
    case (Some p)
    then have "v_now p \<le> now" "histories_ok (v_now p) m" using assms by (simp_all add: watch_ok_def)
    then show ?thesis using window_mono[OF _ \<open>v_now p \<le> now\<close>] by (simp add: histories_ok_def)
  qed
  then have "histories_ok now m2"
    unfolding m2_def by (intro histories_append[OF histories_fold[OF ds]] w) simp_all
  then show ?thesis using ds w by (simp add: eq watch_ok_def histories_ok_def)
qed

lemma watched_ok: "watched m \<Longrightarrow> watch_ok m"
proof (induction rule: watched.induct)
  case (start seconds)
  then show ?case by (simp add: new_monitor_def watch_ok_def)
next
  case (tick m now rows leases wanRx wanTx)
  then show ?case by (intro watch_ingest)
qed

text \<open>
  C23: whatever the counters do (go back, disappear, come again), and as long as the clock does not go
  back, every history is ordered in time, reaches back no further than the retention time, and no
  rate is negative, of a client or of the WAN.
\<close>

theorem monitor_window:
  assumes "watched m"
  shows "sorted (map t (samples k m)) \<and>
    (\<forall>x\<in>set (samples k m). t (last (samples k m)) - retention m \<le> t x \<and> 0 \<le> down x \<and> 0 \<le> up x) \<and>
    (case previous m of None \<Rightarrow> samples k m = []
     | Some p \<Rightarrow> (\<forall>x\<in>set (samples k m). t x \<le> v_now p) \<and> 0 \<le> w_down (wan p) \<and> 0 \<le> w_up (wan p) \<and>
         (\<forall>d\<in>set (devices p). 0 \<le> downRate d \<and> 0 \<le> upRate d))"
proof (cases "previous m")
  case None
  then show ?thesis using watched_ok[OF assms] by (simp add: watch_ok_def samples_def)
next
  case (Some p)
  then have ok: "histories_ok (v_now p) m" and p: "\<forall>d\<in>set (devices p). 0 \<le> downRate d \<and> 0 \<le> upRate d"
      "0 \<le> w_down (wan p)" "0 \<le> w_up (wan p)"
    using watched_ok[OF assms] by (simp_all add: watch_ok_def)
  have "window_ok (retention m) (v_now p) (samples k m)"
    using ok by (auto simp: samples_def histories_ok_def window_ok_def split: option.split)
  then show ?thesis using Some p by (simp add: window_ok_def)
qed

theorem monitor_window_witness:
  "sorted (map t (samples (js ''__wan__'') (ingest 11 [] [] 50 7 (ingest 10 [] [] 100 5 (new_monitor 600)))))"
proof -
  have "watched (ingest 10 [] [] 100 5 (new_monitor 600))"
    by (rule tick[OF start]) (simp_all add: new_monitor_def)
  then have "watched (ingest 11 [] [] 50 7 (ingest 10 [] [] 100 5 (new_monitor 600)))"
    by (rule tick) (simp add: ingest_def Let_def new_monitor_def)
  then show ?thesis using monitor_window by blast
qed

end
