(* ===== verification/Vnstat.thy ===== *)
theory Vnstat
  imports Complex_Main "HOL-Library.Multiset"
begin

text \<open>
  The chart series of the network usage tab (\<open>netstat/vnstat-parse.js\<close>): from the parsed
  output of vnStat, of either version, to labels, received and sent bytes and their totals. Text
  that does not parse is \<open>None\<close>. A row is modelled when its date is made of integers; an
  absent year, month or day is 0. Byte counts are integers, below \<open>2^53\<close> as doubles keep them
  exactly.
\<close>

record date =
  year :: int
  month :: int
  day :: int

text \<open>A row: its date (\<open>None\<close> when the row or its date is missing) and its counters.\<close>

record row =
  r_date :: "date option"
  r_rx :: int
  r_tx :: int

text \<open>
  The \<open>traffic\<close> of an interface: the rows under each of the four keys; \<open>None\<close> when
  there is no list.
\<close>

record interface =
  i_name :: string
  i_traffic :: "(string \<Rightarrow> row list option) option"

record vnstat =
  version1 :: bool
  interfaces :: "interface option list option"

definition MONTHS :: "string list" where
  "MONTHS = [''Jan'', ''Feb'', ''Mar'', ''Apr'', ''May'', ''Jun'', ''Jul'', ''Aug'', ''Sep'', ''Oct'', ''Nov'', ''Dec'']"

text \<open>\<open>'' + n\<close> for an integer.\<close>

fun nat_text :: "nat \<Rightarrow> string" where
  "nat_text n = (if n < 10 then [char_of (48 + n)] else nat_text (n div 10) @ [char_of (48 + n mod 10)])"

declare nat_text.simps [simp del]

definition int_text :: "int \<Rightarrow> string" where
  "int_text n = (if n < 0 then ''-'' @ nat_text (nat (- n)) else nat_text (nat n))"

definition pad2 :: "int \<Rightarrow> string" where
  "pad2 n = (if n < 10 then ''0'' else []) @ int_text n"

text \<open>\<open>MONTHS[i]\<close> in a concatenation: \<open>undefined\<close> out of range.\<close>

definition month_name :: "int \<Rightarrow> string" where
  "month_name m = (if 1 \<le> m \<and> m \<le> 12 then MONTHS ! nat (m - 1) else ''undefined'')"

text \<open>\<open>y % 100\<close> takes the sign of the dividend.\<close>

definition year2 :: "int \<Rightarrow> int" where
  "year2 y = (if y < 0 then - ((- y) mod 100) else y mod 100)"

definition dayLabel :: "int \<Rightarrow> int \<Rightarrow> int \<Rightarrow> string" where
  "dayLabel y m d = pad2 d @ '' '' @ month_name m @ '' '' @ pad2 (year2 y)"

definition monthLabel :: "int \<Rightarrow> int \<Rightarrow> string" where
  "monthLabel y m = month_name m @ '' '' @ [CHR 0x27] @ pad2 (year2 y)"

definition findInterface :: "vnstat option \<Rightarrow> string \<Rightarrow> interface option" where
  "findInterface data nm =
     (let list = (case data of None \<Rightarrow> [] | Some v \<Rightarrow> (case interfaces v of None \<Rightarrow> [] | Some l \<Rightarrow> l))
      in case find (\<lambda>i. case i of None \<Rightarrow> False | Some x \<Rightarrow> i_name x = nm) list of
           Some i \<Rightarrow> i
         | None \<Rightarrow> if length list = 1 then list ! 0 else None)"

record chart_series =
  labels :: "string list"
  rx :: "int list"
  tx :: "int list"
  totalRx :: int
  totalTx :: int
  entries :: nat

definition empty_series :: chart_series where
  "empty_series = \<lparr>labels = [], rx = [], tx = [], totalRx = 0, totalTx = 0, entries = 0\<rparr>"

text \<open>The rows the chart can show: with a year, a month and, by day, a day.\<close>

definition usable :: "bool \<Rightarrow> row \<Rightarrow> bool" where
  "usable monthly r =
     (case r_date r of None \<Rightarrow> False | Some d \<Rightarrow> year d \<noteq> 0 \<and> month d \<noteq> 0 \<and> (monthly \<or> day d \<noteq> 0))"

definition sortKey :: "bool \<Rightarrow> row \<Rightarrow> int" where
  "sortKey monthly r =
     (let d = the (r_date r) in year d * 10000 + month d * 100 + (if monthly then 0 else day d))"

definition row_label :: "bool \<Rightarrow> date \<Rightarrow> string" where
  "row_label monthly d = (if monthly then monthLabel (year d) (month d) else dayLabel (year d) (month d) (day d))"

definition add_entry :: "bool \<Rightarrow> int \<Rightarrow> row \<Rightarrow> chart_series \<Rightarrow> chart_series" where
  "add_entry monthly scale r out = out\<lparr>
     labels := labels out @ [row_label monthly (the (r_date r))],
     rx := rx out @ [r_rx r * scale], tx := tx out @ [r_tx r * scale],
     totalRx := totalRx out + r_rx r * scale, totalTx := totalTx out + r_tx r * scale\<rparr>"

text \<open>\<open>today\<close> is the date the caller passes (the year, month and day of \<open>now\<close>).\<close>

definition series :: "vnstat option \<Rightarrow> string \<Rightarrow> bool \<Rightarrow> date \<Rightarrow> chart_series" where
  "series data iface monthly today =
     (case findInterface data iface of
        None \<Rightarrow> empty_series
      | Some ifc \<Rightarrow>
          (case i_traffic ifc of
             None \<Rightarrow> empty_series
           | Some traffic \<Rightarrow>
               (let legacy = version1 (the data);
                    scale = (if legacy then 1024 else 1);
                    k = (if monthly then (if legacy then ''months'' else ''month'') else (if legacy then ''days'' else ''day''));
                    rows = filter (usable monthly) (case traffic k of None \<Rightarrow> [] | Some rs \<Rightarrow> rs);
                    rows = sort_key (sortKey monthly) rows;
                    out = empty_series\<lparr>entries := length rows\<rparr>
                in if rows = [] then out
                   else
                     (let out = fold (add_entry monthly scale) rows out; cur = row_label monthly today
                      in if cur \<in> set (labels out) then out
                         else out\<lparr>labels := labels out @ [cur], rx := rx out @ [0], tx := tx out @ [0]\<rparr>))))"

section \<open>The series and its rows\<close>

definition scale_of :: "vnstat option \<Rightarrow> int" where
  "scale_of data = (case data of Some v \<Rightarrow> if version1 v then 1024 else 1 | None \<Rightarrow> 1)"

text \<open>The rows the data holds for the chart.\<close>

definition rows_of :: "vnstat option \<Rightarrow> string \<Rightarrow> bool \<Rightarrow> row list" where
  "rows_of data iface monthly =
     (case findInterface data iface of
        None \<Rightarrow> []
      | Some ifc \<Rightarrow>
          (case i_traffic ifc of
             None \<Rightarrow> []
           | Some traffic \<Rightarrow>
               (case traffic (if monthly then (if version1 (the data) then ''months'' else ''month'')
                              else (if version1 (the data) then ''days'' else ''day'')) of
                  None \<Rightarrow> [] | Some rs \<Rightarrow> rs)))"

lemma add_entries:
  "fold (add_entry monthly scale) rows out = out\<lparr>
     labels := labels out @ map (\<lambda>r. row_label monthly (the (r_date r))) rows,
     rx := rx out @ map (\<lambda>r. r_rx r * scale) rows, tx := tx out @ map (\<lambda>r. r_tx r * scale) rows,
     totalRx := totalRx out + (\<Sum>r\<leftarrow>rows. r_rx r * scale), totalTx := totalTx out + (\<Sum>r\<leftarrow>rows. r_tx r * scale)\<rparr>"
  by (induction rows arbitrary: out) (simp_all add: add_entry_def add.assoc)

lemma findInterface_data: "findInterface data iface = Some ifc \<Longrightarrow> data \<noteq> None"
  by (cases data) (simp_all add: findInterface_def)

lemma series_rows:
  "series data iface monthly today =
     (let rows = sort_key (sortKey monthly) (filter (usable monthly) (rows_of data iface monthly));
          out = empty_series\<lparr>entries := length rows\<rparr>
      in if rows = [] then out
         else
           (let out = fold (add_entry monthly (scale_of data)) rows out; cur = row_label monthly today
            in if cur \<in> set (labels out) then out
               else out\<lparr>labels := labels out @ [cur], rx := rx out @ [0], tx := tx out @ [0]\<rparr>))"
proof (cases "findInterface data iface")
  case None
  then show ?thesis by (simp add: series_def rows_of_def empty_series_def)
next
  case (Some ifc)
  then obtain v where v: "data = Some v" using findInterface_data by blast
  show ?thesis
  proof (cases "i_traffic ifc")
    case None
    then show ?thesis using Some by (simp add: series_def rows_of_def empty_series_def)
  next
    case Some': (Some traffic)
    show ?thesis unfolding series_def rows_of_def scale_of_def Some[unfolded v] v Some' option.case option.sel Let_def ..
  qed
qed

text \<open>
  C33: a series shows exactly the usable rows of the data, in the order of their dates and those of
  one date as they come, each counter in bytes, with their sums as totals; after them it shows the
  current period, with nothing yet, exactly when there are rows and none has its label. It is empty
  when the data has no usable row.
\<close>

theorem series_shows_rows:
  "\<exists>rows pad.
     mset rows = mset (filter (usable monthly) (rows_of data iface monthly)) \<and> sorted (map (sortKey monthly) rows) \<and>
     entries (series data iface monthly today) = length rows \<and>
     labels (series data iface monthly today) = map (\<lambda>r. row_label monthly (the (r_date r))) rows @ pad \<and>
     rx (series data iface monthly today) = map (\<lambda>r. r_rx r * scale_of data) rows @ map (\<lambda>_. 0) pad \<and>
     tx (series data iface monthly today) = map (\<lambda>r. r_tx r * scale_of data) rows @ map (\<lambda>_. 0) pad \<and>
     totalRx (series data iface monthly today) = sum_list (rx (series data iface monthly today)) \<and>
     totalTx (series data iface monthly today) = sum_list (tx (series data iface monthly today)) \<and>
     (\<forall>k. filter (\<lambda>r. sortKey monthly r = k) rows = filter (\<lambda>r. sortKey monthly r = k) (filter (usable monthly) (rows_of data iface monthly))) \<and>
     pad = (if rows = [] \<or> row_label monthly today \<in> set (map (\<lambda>r. row_label monthly (the (r_date r))) rows) then []
            else [row_label monthly today])"
proof -
  let ?rows = "sort_key (sortKey monthly) (filter (usable monthly) (rows_of data iface monthly))"
  let ?cur = "row_label monthly today" and ?labels = "map (\<lambda>r. row_label monthly (the (r_date r))) ?rows"
  let ?pad = "if ?rows = [] \<or> ?cur \<in> set ?labels then [] else [?cur]"
  have empty: "?rows = [] \<longleftrightarrow> filter (usable monthly) (rows_of data iface monthly) = []" by (metis length_0_conv length_sort)
  have "mset ?rows = mset (filter (usable monthly) (rows_of data iface monthly))" by simp
  moreover have "sorted (map (sortKey monthly) ?rows)" by simp
  moreover have "filter (\<lambda>r. sortKey monthly r = k) (sort_key (sortKey monthly) xs) = filter (\<lambda>r. sortKey monthly r = k) xs" for k xs
    using sort_key_stable[of "sortKey monthly" k xs] by (simp add: eq_commute[of k])
  moreover have "series data iface monthly today = \<lparr>labels = ?labels @ ?pad,
      rx = map (\<lambda>r. r_rx r * scale_of data) ?rows @ map (\<lambda>_. 0) ?pad, tx = map (\<lambda>r. r_tx r * scale_of data) ?rows @ map (\<lambda>_. 0) ?pad,
      totalRx = (\<Sum>r\<leftarrow>?rows. r_rx r * scale_of data), totalTx = (\<Sum>r\<leftarrow>?rows. r_tx r * scale_of data),
      entries = length ?rows\<rparr>"
    unfolding series_rows Let_def add_entries using empty by (simp add: empty_series_def)
  ultimately show ?thesis
    using empty by (intro exI[of _ ?rows] exI[of _ ?pad]) (simp split: if_split)
qed

definition example_data :: "vnstat option" where
  "example_data = Some \<lparr>version1 = True, interfaces = Some [Some \<lparr>i_name = ''br-lan'', i_traffic = Some (\<lambda>k.
     if k = ''days'' then Some [\<lparr>r_date = Some \<lparr>year = 2024, month = 5, day = 2\<rparr>, r_rx = 3, r_tx = 1\<rparr>] else None)\<rparr>]\<rparr>"

theorem series_shows_rows_witness:
  "totalRx (series example_data ''eth0'' False \<lparr>year = 2024, month = 5, day = 2\<rparr>) = 3072"
proof -
  define s where "s = series example_data ''eth0'' False \<lparr>year = 2024, month = 5, day = 2\<rparr>"
  obtain rs and pad :: "string list" where m: "mset rs = mset (filter (usable False) (rows_of example_data ''eth0'' False))"
    and s: "rx s = map (\<lambda>r. r_rx r * scale_of example_data) rs @ map (\<lambda>_. 0) pad" "totalRx s = sum_list (rx s)"
    using series_shows_rows[where data = example_data and iface = "''eth0''" and monthly = False
        and today = "\<lparr>year = 2024, month = 5, day = 2\<rparr>", folded s_def]
    by (elim exE conjE) (rule that)
  have "rs = [\<lparr>r_date = Some \<lparr>year = 2024, month = 5, day = 2\<rparr>, r_rx = 3, r_tx = 1\<rparr>]"
    using m by (simp add: example_data_def rows_of_def findInterface_def usable_def)
  moreover have "sum_list (map (\<lambda>_. 0 :: int) pad) = 0" by simp
  ultimately have "totalRx s = 3072" using s by (simp add: example_data_def scale_of_def)
  then show ?thesis by (simp add: s_def)
qed

end
