(* ===== verification/Dashboard_Data.thy ===== *)
theory Dashboard_Data
  imports Vmess_Links Complex_Main
begin

text \<open>
  The data of the dashboard (\<open>dashboard/dashboard-data.js\<close>): which names of the traffic log
  are shown as domains, which applications are active and how they are counted by class, and the
  rates between two samples of the interface counters. Values that come from the router are JSON
  values; a number of a sample is what \<open>Number\<close> makes of its field, when that is finite, and
  rates are exact quotients. A class of applications is none of the names an object inherits.
\<close>

section \<open>Domains\<close>

definition letter :: "cu \<Rightarrow> bool" where
  "letter c \<longleftrightarrow> 97 \<le> c \<and> c \<le> 122"

definition label_cu :: "cu \<Rightarrow> bool" where
  "label_cu c \<longleftrightarrow> letter c \<or> is_digit c \<or> c = 45"

definition ends_with :: "jstr \<Rightarrow> jstr \<Rightarrow> bool" where
  "ends_with p s \<longleftrightarrow> length p \<le> length s \<and> drop (length s - length p) s = p"

text \<open>\<open>/^\d+\.\d+\.\d+\.\d+$/\<close>\<close>

definition four_numbers :: "jstr \<Rightarrow> bool" where
  "four_numbers s \<longleftrightarrow> (let ps = js_split (js ''.'') s in length ps = 4 \<and> (\<forall>p\<in>set ps. p \<noteq> [] \<and> (\<forall>c\<in>set p. is_digit c)))"

definition blockedFileSuffixes :: "string list" where
  "blockedFileSuffixes =
     [''cfg'', ''conf'', ''css'', ''dat'', ''eot'', ''gz'', ''ipk'', ''js'', ''json'', ''ko'', ''list'', ''lock'', ''log'', ''lua'',
      ''map'', ''pid'', ''rules'', ''sh'', ''so'', ''tar'', ''tmp'', ''ttf'', ''txt'', ''woff'', ''woff2'', ''zip'']"

definition syslogFacilities :: "string list" where
  "syslogFacilities =
     [''auth'', ''authpriv'', ''cron'', ''daemon'', ''kern'', ''kernel'', ''local0'', ''local1'', ''local2'', ''local3'', ''local4'',
      ''local5'', ''local6'', ''local7'', ''mail'', ''news'', ''syslog'', ''user'', ''uucp'']"

definition syslogLevels :: "string list" where
  "syslogLevels = [''alert'', ''crit'', ''debug'', ''emerg'', ''err'', ''error'', ''info'', ''notice'', ''warn'', ''warning'']"

definition isBlockedDomainToken :: "jstr list \<Rightarrow> jstr \<Rightarrow> bool" where
  "isBlockedDomainToken labels tld \<longleftrightarrow>
     strictly_in_table blockedFileSuffixes tld \<or> (strictly_in_table syslogLevels tld \<and> strictly_in_table syslogFacilities (hd labels))"

text \<open>The test of one label (33-37).\<close>

definition good_label :: "jstr \<Rightarrow> bool" where
  "good_label l \<longleftrightarrow> \<not> (\<not> truthy l \<or> 63 < length l \<or> \<not> (l \<noteq> [] \<and> (\<forall>c\<in>set l. label_cu c))
     \<or> starts_with (js ''-'') l \<or> ends_with (js ''-'') l)"

definition isLikelyDomain :: "jstr \<Rightarrow> bool" where
  "isLikelyDomain text =
     (let domain = to_lower (trim text)
      in if \<not> truthy domain \<or> 253 < length domain \<or> \<not> js_includes domain (js ''.'') \<or> four_numbers domain then False
         else
           (let labels = js_split (js ''.'') domain
            in if length labels < 2 then False
               else if \<exists>l\<in>set labels. \<not> good_label l then False
               else
                 (let tld = last labels
                  in if \<not> (tld \<noteq> [] \<and> letter (hd tld)) then False
                     else if \<not> starts_with (js ''xn--'') tld \<and> \<not> (tld \<noteq> [] \<and> (\<forall>c\<in>set tld. letter c \<or> c = 45)) then False
                     else if isBlockedDomainToken labels tld then False
                     else \<exists>l\<in>set labels. \<exists>c\<in>set l. letter c)))"

section \<open>JSON values\<close>

text \<open>\<open>v && v.k\<close>, then used as an array, a truth value or a default.\<close>

definition member :: "json option \<Rightarrow> string \<Rightarrow> json option" where
  "member v k = (case v of Some w \<Rightarrow> json_prop w k | None \<Rightarrow> None)"

definition toArray :: "json option \<Rightarrow> json list" where
  "toArray v = (case v of Some (JArr xs) \<Rightarrow> xs | _ \<Rightarrow> [])"

definition js_or :: "(jstr \<Rightarrow> jstr) \<Rightarrow> json option \<Rightarrow> json option \<Rightarrow> json option" where
  "js_or num_str a b = (if json_truthy num_str a then a else b)"

text \<open>
  The text of a domain; \<open>None\<close> when it is an object no string can be made of, which throws.
\<close>

definition domain_of :: "(jstr \<Rightarrow> jstr) \<Rightarrow> json \<Rightarrow> jstr option" where
  "domain_of num_str item =
     (let v = json_prop item ''domain'' in if json_truthy num_str v then json_string num_str (the v) else Some [])"

fun keep_domains :: "(jstr \<Rightarrow> jstr) \<Rightarrow> json list \<Rightarrow> json list option" where
  "keep_domains num_str [] = Some []"
| "keep_domains num_str (item # items) =
     (if \<not> json_truthy num_str (Some item) then keep_domains num_str items
      else do {
        d \<leftarrow> domain_of num_str item;
        rest \<leftarrow> keep_domains num_str items;
        Some (if isLikelyDomain d then item # rest else rest)
      })"

definition filterDomainRows :: "(jstr \<Rightarrow> jstr) \<Rightarrow> json option \<Rightarrow> json list option" where
  "filterDomainRows num_str rows = keep_domains num_str (toArray rows)"

section \<open>Active applications\<close>

text \<open>A class of the statistics: as the router sent it, or counted here.\<close>

datatype class_stat = Given json | Counted jstr nat

definition class_of :: "(jstr \<Rightarrow> jstr) \<Rightarrow> json \<Rightarrow> jstr option" where
  "class_of num_str app =
     (if app = JNull then None
      else json_string num_str (the (js_or num_str (json_prop app ''class_label'')
             (js_or num_str (json_prop app ''class'') (Some (JStr (js ''others'')))))))"

definition count_class :: "jstr \<Rightarrow> nat obj \<Rightarrow> nat obj" where
  "count_class c stats = obj_put stats c ((case obj_get stats c of Some n \<Rightarrow> n | None \<Rightarrow> 0) + 1)"

definition count_classes :: "(jstr \<Rightarrow> jstr) \<Rightarrow> json list \<Rightarrow> class_stat list option" where
  "count_classes num_str apps =
     map_option (\<lambda>cs. map (\<lambda>(c, n). Counted c n) (own_entries (fold count_class cs []))) (map_opt (class_of num_str) apps)"

record app_state =
  apps :: "json list"
  classStats :: "class_stat list"
  available :: bool
  source :: "json option"
  engine :: "json option"
  featureVersion :: "json option"

text \<open>The statistics sent, or counted when none are sent and there are applications.\<close>

definition class_stats :: "(jstr \<Rightarrow> jstr) \<Rightarrow> json list \<Rightarrow> json list \<Rightarrow> class_stat list option" where
  "class_stats num_str sent as =
     (if sent = [] \<and> as \<noteq> [] then count_classes num_str as else Some (map Given sent))"

definition pickActiveAppState :: "(jstr \<Rightarrow> jstr) \<Rightarrow> json option \<Rightarrow> json option \<Rightarrow> app_state option" where
  "pickActiveAppState num_str databus oafData =
     (let text = (\<lambda>s. Some (JStr (js s))); or = js_or num_str;
          databusApps = toArray (member (member databus ''online_apps'') ''list'');
          recognition = member databus ''app_recognition''
      in do {
        stats \<leftarrow> class_stats num_str (toArray (member recognition ''class_stats'')) databusApps;
        let usable = (json_truthy num_str (member recognition ''available'') \<or> databusApps \<noteq> [] \<or> stats \<noteq> []);
        if usable
        then Some \<lparr>apps = databusApps, classStats = stats, available = usable,
               source = or (member recognition ''source'')
                 (or (if databusApps = [] then None else member (Some (hd databusApps)) ''source'') (text ''databus'')),
               engine = or (member recognition ''engine'') (text []),
               featureVersion = or (member recognition ''feature_version'') (text [])\<rparr>
        else do {
          let oafApps = toArray (member oafData ''active_apps'');
          oafStats \<leftarrow> class_stats num_str (toArray (member oafData ''class_stats'')) oafApps;
          Some \<lparr>apps = oafApps, classStats = oafStats, available = (oafApps \<noteq> [] \<or> oafStats \<noteq> []),
            source = or (or (member oafData ''active_source'') (member oafData ''source'')) (text ''oaf''),
            engine = or (member oafData ''engine'') (text []),
            featureVersion = or (member oafData ''current_version'') (text [])\<rparr>
        }
      })"

section \<open>Rates\<close>

definition toPositiveNumber :: "rat option \<Rightarrow> rat" where
  "toPositiveNumber v = (case v of Some n \<Rightarrow> if 0 < n then n else 0 | None \<Rightarrow> 0)"

definition toRateNumber :: "rat option \<Rightarrow> rat option" where
  "toRateNumber v = (case v of Some n \<Rightarrow> if 0 \<le> n then Some n else None | None \<Rightarrow> None)"

record traffic_sample =
  s_interface :: jstr
  s_tx_bytes :: "rat option"
  s_rx_bytes :: "rat option"
  s_tx_rate :: "rat option"
  s_rx_rate :: "rat option"

text \<open>
  What \<open>sample && sample.k\<close> reads of a sample that is null, of which \<open>Number\<close> makes 0.
  A sample that is undefined is one without fields.
\<close>

definition null_sample :: traffic_sample where
  "null_sample = \<lparr>s_interface = [], s_tx_bytes = Some 0, s_rx_bytes = Some 0, s_tx_rate = Some 0, s_rx_rate = Some 0\<rparr>"

record traffic_state =
  interface :: jstr
  tx_bytes :: rat
  rx_bytes :: rat
  at_ms :: rat

record traffic_rates =
  txRate :: rat
  rxRate :: rat
  nextState :: traffic_state

definition deriveTrafficSnapshot :: "traffic_sample option \<Rightarrow> traffic_state option \<Rightarrow> rat option \<Rightarrow> traffic_rates" where
  "deriveTrafficSnapshot sample previousState nowMs =
     (let s = (case sample of Some x \<Rightarrow> x | None \<Rightarrow> null_sample);
          nxt = \<lparr>interface = s_interface s, tx_bytes = toPositiveNumber (s_tx_bytes s),
                 rx_bytes = toPositiveNumber (s_rx_bytes s), at_ms = toPositiveNumber nowMs\<rparr>;
          backendTx = toRateNumber (s_tx_rate s); backendRx = toRateNumber (s_rx_rate s);
          none = \<lparr>txRate = 0, rxRate = 0, nextState = nxt\<rparr>
      in if backendTx \<noteq> None \<or> backendRx \<noteq> None
         then \<lparr>txRate = (case backendTx of Some n \<Rightarrow> n | None \<Rightarrow> 0), rxRate = (case backendRx of Some n \<Rightarrow> n | None \<Rightarrow> 0),
               nextState = nxt\<rparr>
         else
           (case previousState of
              None \<Rightarrow> none
            | Some p \<Rightarrow>
                if \<not> truthy (interface p) \<or> \<not> truthy (interface nxt) \<or> interface p \<noteq> interface nxt then none
                else
                  (let previousAt = toPositiveNumber (Some (at_ms p))
                   in if previousAt = 0 \<or> at_ms nxt \<le> previousAt then none
                      else
                        (let txDelta = tx_bytes nxt - toPositiveNumber (Some (tx_bytes p));
                             rxDelta = rx_bytes nxt - toPositiveNumber (Some (rx_bytes p));
                             diffSeconds = (at_ms nxt - previousAt) / 1000
                         in if txDelta < 0 \<or> rxDelta < 0 then none
                            else if \<not> 0 < diffSeconds then none
                            else \<lparr>txRate = txDelta / diffSeconds, rxRate = rxDelta / diffSeconds, nextState = nxt\<rparr>))))"

section \<open>What a domain is\<close>

lemma starts_with_dash: "starts_with (js ''-'') l \<longleftrightarrow> l \<noteq> [] \<and> hd l = 45"
  by (cases l) (auto simp: starts_with_def js_def)

lemma ends_with_dash: "ends_with (js ''-'') l \<longleftrightarrow> l \<noteq> [] \<and> last l = 45"
  by (cases l rule: rev_cases) (auto simp: ends_with_def js_def)

lemma split_includes: "2 \<le> length (js_split p s) \<Longrightarrow> p \<noteq> [] \<Longrightarrow> js_includes s p"
  by (subst (asm) js_split.simps) (auto simp: js_includes_def split: option.splits)

lemma not_letter_digit: "is_digit c \<Longrightarrow> \<not> letter c"
  by (simp add: is_digit_def letter_def)

text \<open>
  C40: a text is shown as a domain exactly when, trimmed and in lower case, it has at most 253
  characters and at least two labels, each of 1 to 63 letters, digits and hyphens with no hyphen at
  an end, the last one alphabetic or internationalised, and is no file name or log level; the
  tests for an IPv4 address and for a letter in some label never decide.
\<close>

theorem likely_domain_iff:
  "isLikelyDomain s \<longleftrightarrow>
     (let d = to_lower (trim s); ls = js_split (js ''.'') d; tld = last ls
      in length d \<le> 253 \<and> 2 \<le> length ls \<and>
         (\<forall>l\<in>set ls. 1 \<le> length l \<and> length l \<le> 63 \<and> (\<forall>c\<in>set l. label_cu c) \<and> hd l \<noteq> 45 \<and> last l \<noteq> 45) \<and>
         letter (hd tld) \<and> (starts_with (js ''xn--'') tld \<or> (\<forall>c\<in>set tld. letter c \<or> c = 45)) \<and>
         \<not> isBlockedDomainToken ls tld)"
proof -
  define d where "d = to_lower (trim s)"
  define ls where "ls = js_split (js ''.'') d"
  have dot: "js_includes d (js ''.'')" "truthy d" if "2 \<le> length ls"
  proof -
    show inc: "js_includes d (js ''.'')" using split_includes that by (simp add: ls_def js_def)
    show "truthy d"
    proof (rule ccontr)
      assume "\<not> truthy d"
      then show False using inc by (simp add: truthy_def js_includes_def js_def)
    qed
  qed
  have tld: "last ls \<in> set ls" if "2 \<le> length ls" using that by (intro last_in_set) auto
  have label: "\<not> good_label l \<longleftrightarrow> \<not> (1 \<le> length l \<and> length l \<le> 63 \<and> (\<forall>c\<in>set l. label_cu c) \<and> hd l \<noteq> 45 \<and> last l \<noteq> 45)" for l
    by (cases "l = []") (auto simp: good_label_def truthy_def starts_with_dash ends_with_dash Suc_le_eq)
  have numbers: "\<not> four_numbers d" if "2 \<le> length ls" "last ls \<noteq> []" "letter (hd (last ls))"
  proof
    assume "four_numbers d"
    then have "is_digit (hd (last ls))" using tld[OF that(1)] that(2) by (simp add: four_numbers_def ls_def Let_def)
    then show False using that(3) not_letter_digit by blast
  qed
  have some: "\<exists>l\<in>set ls. \<exists>c\<in>set l. letter c" if "2 \<le> length ls" "last ls \<noteq> []" "letter (hd (last ls))"
    using tld[OF that(1)] that(2,3) hd_in_set by blast
  show ?thesis
  proof (cases "2 \<le> length ls \<and> (\<forall>l\<in>set ls. good_label l) \<and> letter (hd (last ls))")
    case False
    then show ?thesis
      unfolding isLikelyDomain_def Let_def d_def[symmetric] ls_def[symmetric] using label by auto
  next
    case True
    then have h: "2 \<le> length ls" "\<forall>l\<in>set ls. good_label l" "letter (hd (last ls))" by auto
    have ne: "last ls \<noteq> []" using h(2) tld[OF h(1)] by (auto simp: good_label_def truthy_def)
    have "isLikelyDomain s \<longleftrightarrow> length d \<le> 253 \<and> (starts_with (js ''xn--'') (last ls) \<or> (\<forall>c\<in>set (last ls). letter c \<or> c = 45)) \<and>
        \<not> isBlockedDomainToken ls (last ls)"
      unfolding isLikelyDomain_def Let_def d_def[symmetric] ls_def[symmetric]
      using h ne dot[OF h(1)] numbers[OF h(1) ne h(3)] some[OF h(1) ne h(3)] by auto
    then show ?thesis
      unfolding Let_def d_def[symmetric] ls_def[symmetric] using h label by auto
  qed
qed

section \<open>Rates\<close>

lemma toPositive_nonneg [simp]: "0 \<le> toPositiveNumber v"
  by (simp add: toPositiveNumber_def split: option.split)

text \<open>The rates of a snapshot are never negative.\<close>

lemma rates_nonneg:
  "0 \<le> txRate (deriveTrafficSnapshot sample prev nowMs) \<and> 0 \<le> rxRate (deriveTrafficSnapshot sample prev nowMs)"
proof -
  have "0 \<le> (case toRateNumber v of Some n \<Rightarrow> n | None \<Rightarrow> 0)" for v
    by (simp add: toRateNumber_def split: option.split)
  then show ?thesis unfolding deriveTrafficSnapshot_def Let_def by (simp split: option.split)
qed

text \<open>Without rates from the router, a rate needs the same interface, later and not counted back.\<close>

lemma rates_need_progress:
  assumes "toRateNumber (s_tx_rate s) = None" "toRateNumber (s_rx_rate s) = None"
    and "txRate (deriveTrafficSnapshot (Some s) (Some p) nowMs) \<noteq> 0 \<or> rxRate (deriveTrafficSnapshot (Some s) (Some p) nowMs) \<noteq> 0"
  shows "interface p = s_interface s \<and> s_interface s \<noteq> [] \<and> at_ms p < toPositiveNumber nowMs"
  using assms by (auto simp: deriveTrafficSnapshot_def Let_def truthy_def toPositiveNumber_def split: if_splits option.splits)

text \<open>Every application is counted in exactly one class.\<close>

lemma sum_obj_put:
  "distinct (map fst ob) \<Longrightarrow> sum_list (map snd (obj_put ob k v)) + (case obj_get ob k of Some n \<Rightarrow> n | None \<Rightarrow> 0) =
     sum_list (map snd ob) + (v :: nat)"
  by (induction ob k v rule: obj_put.induct)
    (auto simp: obj_get_def split: option.splits dest!: map_of_SomeD intro: rev_image_eqI)

lemma count_classes_total:
  "distinct (map fst ob) \<Longrightarrow>
   distinct (map fst (fold count_class cs ob)) \<and>
   sum_list (map snd (fold count_class cs ob)) = sum_list (map snd ob) + length cs"
proof (induction cs arbitrary: ob)
  case (Cons c cs)
  have "sum_list (map snd (count_class c ob)) = sum_list (map snd ob) + 1"
    using sum_obj_put[OF Cons.prems, of c "(case obj_get ob c of Some n \<Rightarrow> n | None \<Rightarrow> 0) + 1"]
    by (simp add: count_class_def)
  then show ?case using Cons.IH[of "count_class c ob"] Cons.prems by (simp add: count_class_def distinct_obj_put)
qed simp

theorem likely_domain_iff_witness: "isLikelyDomain (js '' Example.ORG '')"
proof -
  have d: "to_lower (trim (js '' Example.ORG '')) = js ''example.org''"
    by (simp add: js_def trim_def is_ws_def to_lower_def lower_cu_def)
  have ls: "js_split (js ''.'') (js ''example.org'') = [js ''example'', js ''org'']"
    using js_split_step[of 46 "js ''example''" "js ''org''"] js_split_absent[of 46 "js ''org''"] by (simp add: js_def)
  have "\<not> isBlockedDomainToken [js ''example'', js ''org''] (js ''org'')"
    by (simp add: isBlockedDomainToken_def strictly_in_table_def blockedFileSuffixes_def syslogLevels_def)
  then show ?thesis
    unfolding likely_domain_iff Let_def d ls
    by (simp add: js_def label_cu_def letter_def is_digit_def)
qed

end
