(* ===== verification/Bandix_Geoip.thy ===== *)
theory Bandix_Geoip
  imports Vmess_Links
begin

text \<open>
  The GeoIP settings of Bandix (\<open>bandix/geoip.js\<close>): the description of an address
  (\<open>describe\<close>), and the panel (\<open>render\<close>) that shows the state of the database
  and starts downloads, uploads and deletions. The state of the panel is what the closure of
  \<open>render\<close> keeps (66-83), with the properties of its elements that the code writes; its
  operations are the handlers, one \<open>geoip_event\<close> each, so that polls, the user and the
  replies interleave freely. A missing text of a reply is the empty one, a missing number that is only
  compared is 0, and the names a reply holds are not those of \<open>Object.prototype\<close>. Translated
  texts are their English originals.
\<close>

section \<open>Texts\<close>

abbreviation dash :: jstr where "dash \<equiv> [0x2014]"
abbreviation dots :: jstr where "dots \<equiv> [0x2026]"
abbreviation middle_dot :: jstr where "middle_dot \<equiv> [32, 0xB7, 32]"

text \<open>\<open>(bytes / unit).toFixed(1)\<close> for a power of two: the quotient is exact.\<close>

definition tenths :: "nat \<Rightarrow> nat \<Rightarrow> jstr" where
  "tenths bytes unit =
     (let n = (20 * bytes + unit) div (2 * unit) in dec_text (n div 10) @ js ''.'' @ dec_text (n mod 10))"

definition size_text :: "nat option \<Rightarrow> jstr" where
  "size_text bytes =
     (case bytes of
        None \<Rightarrow> dash
      | Some b \<Rightarrow>
          if b < 1024 then dec_text b @ js '' B''
          else if b < 1048576 then tenths b 1024 @ js '' KiB''
          else tenths b 1048576 @ js '' MiB'')"

definition filled :: "jstr list \<Rightarrow> jstr list" where
  "filled ts = filter truthy ts"

section \<open>What the service reports\<close>

record geoip_job =
  j_busy :: bool
  j_phase :: string
  j_profile :: string
  j_file :: jstr
  j_error :: jstr
  j_error_phase :: string
  total_bytes :: nat
  downloaded_bytes :: nat
  required_bytes :: nat

record geoip_database =
  kind :: string
  build_epoch :: nat

record geoip_status =
  st_enabled :: bool
  databases :: "geoip_database list"
  st_profile :: string
  job :: geoip_job
  load_error :: jstr
  source :: jstr
  version :: jstr
  directory :: jstr
  installed_bytes :: "nat option"
  free_bytes :: "nat option"
  upload_max_bytes :: "nat option"

record geoip_reply =
  is_success :: bool
  r_data :: "geoip_status option"
  r_message :: jstr
  r_error :: jstr

text \<open>The result of a call: rejected with a message, or answered, perhaps with nothing.\<close>

type_synonym outcome = "jstr + geoip_reply option"

definition unavailable :: jstr where
  "unavailable = js ''GeoIP service is unavailable. Enable connection monitoring and apply settings, or update Bandix.''"

definition unwrap :: "geoip_reply option \<Rightarrow> jstr + geoip_status" where
  "unwrap reply =
     (case reply of
        None \<Rightarrow> Inl unavailable
      | Some r \<Rightarrow>
          (case r_data r of
             Some st \<Rightarrow> if is_success r then Inr st
                        else Inl (or_else (or_else (r_message r) (r_error r)) unavailable)
           | None \<Rightarrow> Inl (or_else (or_else (r_message r) (r_error r)) unavailable)))"

definition call_result :: "outcome \<Rightarrow> jstr + geoip_status" where
  "call_result out = (case out of Inl e \<Rightarrow> Inl e | Inr reply \<Rightarrow> unwrap reply)"

section \<open>The description of an address\<close>

text \<open>
  The language of the page: \<open>L.env.lang\<close>, the attribute of the document, and what
  \<open>Intl.DisplayNames\<close> makes of a country (\<open>None\<close>: the browser has none, or it
  throws).
\<close>

record language =
  env_lang :: string
  html_lang :: string
  display_name :: "string \<Rightarrow> string \<Rightarrow> jstr option"

record geo_info =
  scope :: string
  country_code :: string
  country_names :: "string \<Rightarrow> jstr"
  region_names :: "string \<Rightarrow> jstr"
  city_names :: "string \<Rightarrow> jstr"
  asn :: nat
  organization :: jstr

definition locale_of :: "language \<Rightarrow> string" where
  "locale_of l =
     map (\<lambda>c. if c = CHR ''_'' then CHR ''-'' else c)
       (if env_lang l \<noteq> [] then env_lang l else if html_lang l \<noteq> [] then html_lang l else ''en'')"

definition localized :: "language \<Rightarrow> (string \<Rightarrow> jstr) \<Rightarrow> jstr" where
  "localized l names =
     (let language = locale_of l;
          key = (if take 2 language \<in> {''zh'', ''zH'', ''Zh'', ''ZH''} then ''zh-CN'' else takeWhile (\<lambda>c. c \<noteq> CHR ''-'') language)
      in or_else (names key) (names ''en''))"

definition countryName :: "language \<Rightarrow> geo_info \<Rightarrow> jstr" where
  "countryName l info =
     (case (if country_code info \<noteq> [] then display_name l (locale_of l) (country_code info) else None) of
        Some name \<Rightarrow> name
      | None \<Rightarrow> or_else (localized l (country_names info)) (js (country_code info)))"

definition scope_text :: "string \<Rightarrow> jstr" where
  "scope_text sc = js
     (case map_of
        [(''local'', ''Local network''), (''private'', ''Private address''), (''loopback'', ''Loopback''),
         (''link_local'', ''Link-local address''), (''shared'', ''Shared address (CGNAT)''),
         (''multicast'', ''Multicast''), (''unspecified'', ''Unspecified address''),
         (''documentation'', ''Documentation address''), (''reserved'', ''Reserved address'')] sc of
        Some t \<Rightarrow> t | None \<Rightarrow> ''Unknown location'')"

record description =
  d_location :: jstr
  d_organization :: jstr
  d_summary :: jstr
  d_details :: jstr

text \<open>
  \<open>value && all.indexOf(value) === index\<close>: of equal names the first one stays.
\<close>

definition first_of_each :: "jstr list \<Rightarrow> jstr list" where
  "first_of_each all =
     map snd (filter (\<lambda>(i, v). truthy v \<and> find (\<lambda>j. all ! j = v) [0..<length all] = Some i) (enumerate 0 all))"

definition describe :: "language \<Rightarrow> geo_info option \<Rightarrow> description option" where
  "describe l info =
     (case info of
        None \<Rightarrow> None
      | Some i \<Rightarrow>
          if scope i \<noteq> ''public''
          then Some \<lparr>d_location = [], d_organization = [], d_summary = scope_text (scope i), d_details = scope_text (scope i)\<rparr>
          else
            (let unknown = scope_text ''unknown'';
                 location = js_join middle_dot
                   (first_of_each [countryName l i, localized l (region_names i), localized l (city_names i)])
             in Some
               \<lparr>d_location = or_else location unknown,
                d_organization = organization i,
                d_summary = or_else (js_join middle_dot (filled [location, organization i])) unknown,
                d_details = js_join [10] (filled [location, if asn i \<noteq> 0 then js ''AS'' @ dec_text (asn i) else [], organization i])\<rparr>))"

section \<open>The panel\<close>

text \<open>
  The dialog over the page, if one is shown: the confirmation of a deletion, the choice of a file to
  upload (its limit, the file, whether the button is disabled, the complaint), or the progress of an
  upload in percent. The page behind it does not react.
\<close>

datatype modal =
    Delete_Dialog
  | Upload_Dialog nat "(jstr \<times> nat) option" bool jstr
  | Uploading nat

text \<open>
  \<open>in_flight\<close> holds the actions sent and not answered, each with whether it ends an upload;
  \<open>uploads\<close> the uploads not answered; \<open>sent\<close> the arguments of all calls.
\<close>

record geoip_page =
  current :: "geoip_status option"
  pending :: bool
  refreshing :: bool
  dirtyProfile :: bool
  badge :: jstr
  badge_green :: bool
  enabled_checked :: bool
  enabled_disabled :: bool
  country_checked :: bool
  city_checked :: bool
  asn_checked :: bool
  choices_disabled :: bool
  selection :: jstr
  selection_shown :: bool
  installed :: jstr
  installed_shown :: bool
  details :: jstr
  message :: jstr
  message_title :: jstr
  message_red :: bool
  progress_shown :: bool
  progress_width :: nat
  progress_title :: jstr
  progress_now :: "nat option"
  download :: string
  download_disabled :: bool
  upload_disabled :: bool
  cancel_shown :: bool
  cancel_disabled :: bool
  remove_shown :: bool
  remove_disabled :: bool
  modal :: "modal option"
  in_flight :: "(string \<times> bool) list"
  uploads :: nat
  sent :: "(string \<times> string \<times> bool) list"
  notices :: "jstr list"

definition new_geoip :: geoip_page where
  "new_geoip =
     \<lparr>current = None, pending = False, refreshing = False, dirtyProfile = False,
      badge = js ''Loading'' @ dots, badge_green = False, enabled_checked = False, enabled_disabled = True,
      country_checked = True, city_checked = False, asn_checked = False, choices_disabled = True,
      selection = [], selection_shown = True, installed = [], installed_shown = True, details = [],
      message = [], message_title = [], message_red = False,
      progress_shown = False, progress_width = 0, progress_title = [], progress_now = None,
      download = ''Download and enable'', download_disabled = False, upload_disabled = False,
      cancel_shown = False, cancel_disabled = False, remove_shown = False, remove_disabled = False,
      modal = None, in_flight = [], uploads = 0, sent = [], notices = []\<rparr>"

definition selectedProfile :: "geoip_page \<Rightarrow> string" where
  "selectedProfile s = (if city_checked s then ''city'' else ''country'') @ (if asn_checked s then ''_asn'' else '''')"

definition setProfile :: "string \<Rightarrow> geoip_page \<Rightarrow> geoip_page" where
  "setProfile value s =
     (let ct = (value = ''city'' \<or> value = ''city_asn'')
      in s\<lparr>city_checked := ct, country_checked := \<not> ct, asn_checked := (value = ''country_asn'' \<or> value = ''city_asn'')\<rparr>)"

definition databaseName :: "string \<Rightarrow> jstr" where
  "databaseName k = js
     (case map_of [(''country'', ''Country/region''), (''city'', ''Country/region + province/city''),
         (''asn'', ''ASN / network organization'')] k of Some t \<Rightarrow> t | None \<Rightarrow> k)"

definition showSelection :: "geoip_page \<Rightarrow> geoip_page" where
  "showSelection s = s\<lparr>
     selection := js ''Download contents: '' @ js_join (js '' + '')
       (filled [databaseName (if city_checked s then ''city'' else ''country''), if asn_checked s then databaseName ''asn'' else []]),
     selection_shown := (case current s of None \<Rightarrow> False
       | Some st \<Rightarrow> databases st \<noteq> [] \<and> st_profile st \<noteq> selectedProfile s)\<rparr>"

definition show_buttons :: "geoip_status \<Rightarrow> bool \<Rightarrow> geoip_page \<Rightarrow> geoip_page" where
  "show_buttons st busy s = s\<lparr>
     download_disabled := busy, upload_disabled := busy,
     download := (if databases st \<noteq> [] \<and> st_profile st = selectedProfile s then ''Update database'' else ''Download and enable''),
     remove_shown := (databases st \<noteq> [] \<or> truthy (load_error st)), remove_disabled := busy,
     cancel_shown := (j_busy (job st) \<and> j_phase (job st) \<noteq> ''activating''), cancel_disabled := pending s\<rparr>"

text \<open>\<open>date_text\<close> writes the day of a time in seconds as the browser does.\<close>

definition show_details :: "(nat \<Rightarrow> jstr) \<Rightarrow> geoip_status \<Rightarrow> geoip_page \<Rightarrow> geoip_page" where
  "show_details date_text st s =
     (let dbs = databases st;
          builds = map (\<lambda>db. databaseName (kind db) @ js '': '' @
            (if build_epoch db \<noteq> 0 then date_text (build_epoch db) else dash)) dbs
      in s\<lparr>
        installed := js ''Installed databases: '' @
          (if dbs \<noteq> [] then js_join (js '' + '') (map (\<lambda>db. databaseName (kind db)) dbs) else js ''Not installed''),
        installed_shown := (dbs \<noteq> []),
        details := js_join [10] (filled
          [if truthy (source st) then js ''Installed data source: '' @ source st else [],
           if truthy (version st) then js ''Release version: '' @ version st else [],
           if builds \<noteq> [] then js ''Database build dates:'' @ [10] @ js_join [10] builds else [],
           js ''Storage used: '' @ size_text (installed_bytes st) @ middle_dot @ js ''Available space: '' @ size_text (free_bytes st),
           js ''Database directory: '' @ directory st])\<rparr>)"

definition percent_of :: "geoip_job \<Rightarrow> nat option" where
  "percent_of jb = (if 0 < total_bytes jb then Some (min 100 (downloaded_bytes jb * 100 div total_bytes jb)) else None)"

definition percent_text :: "nat option \<Rightarrow> jstr" where
  "percent_text p = (case p of None \<Rightarrow> [] | Some n \<Rightarrow> dec_text n @ js ''%'')"

definition show_progress :: "geoip_job \<Rightarrow> geoip_page \<Rightarrow> geoip_page" where
  "show_progress jb s = s\<lparr>
     progress_shown := (j_busy jb \<and> 0 < total_bytes jb),
     progress_width := (case percent_of jb of None \<Rightarrow> 0 | Some n \<Rightarrow> n),
     progress_title := percent_text (percent_of jb),
     progress_now := (case percent_of jb of None \<Rightarrow> progress_now s | Some n \<Rightarrow> Some n)\<rparr>"

definition phase_text :: "string \<Rightarrow> jstr" where
  "phase_text ph =
     (case map_of
        [(''preparing'', js ''Checking database version'' @ dots), (''checking_space'', js ''Checking storage'' @ dots),
         (''downloading'', js ''Downloading database'' @ dots), (''verifying'', js ''Verifying database'' @ dots),
         (''activating'', js ''Loading database'' @ dots), (''importing'', js ''Importing database'' @ dots),
         (''completed'', js ''Database ready''), (''up_to_date'', js ''Database is up to date''),
         (''cancelled'', js ''Download cancelled''), (''failed'', js ''Database operation failed'')] ph of
        Some t \<Rightarrow> t | None \<Rightarrow> [])"

definition failure_message :: "geoip_status \<Rightarrow> jstr" where
  "failure_message st =
     (let jb = job st
      in if j_error_phase jb = ''checking_space'' then
           (case free_bytes st of
              Some free \<Rightarrow>
                if free < required_bytes jb
                then js ''Not enough free space for this database. Required space: '' @ size_text (Some (required_bytes jb)) @
                  middle_dot @ js ''Available space: '' @ size_text (Some free)
                else js ''Cannot prepare storage. Check free space and directory permissions.''
            | None \<Rightarrow> js ''Cannot prepare storage. Check free space and directory permissions.'')
         else if j_error_phase jb = ''verifying'' then js ''Database validation failed. The previous database is unchanged.''
         else js ''Database operation failed. Retry or upload a local database.'')"

definition show_message :: "geoip_status \<Rightarrow> geoip_page \<Rightarrow> geoip_page" where
  "show_message st s =
     (let jb = job st; s1 = s\<lparr>message_red := (j_phase jb = ''failed'' \<or> truthy (load_error st))\<rparr>
      in if truthy (load_error st) \<and> \<not> j_busy jb
         then s1\<lparr>message := js ''The installed database could not be loaded. Download or upload it again.'',
                 message_title := load_error st\<rparr>
         else if j_phase jb = ''failed''
         then s1\<lparr>message := failure_message st, message_title := j_error jb\<rparr>
         else s1\<lparr>message := phase_text (j_phase jb) @
                   (if j_busy jb \<and> 0 < total_bytes jb
                    then js '' '' @ size_text (Some (downloaded_bytes jb)) @ js '' / '' @ size_text (Some (total_bytes jb)) @
                      js '' ('' @ percent_text (percent_of jb) @ js '')''
                    else []),
                 message_title := j_file jb\<rparr>)"

definition display :: "(nat \<Rightarrow> jstr) \<Rightarrow> geoip_status \<Rightarrow> geoip_page \<Rightarrow> geoip_page" where
  "display date_text st s =
     (let jb = job st;
          was_busy = (case current s of None \<Rightarrow> False | Some c \<Rightarrow> j_busy (job c));
          ended = (was_busy \<and> \<not> j_busy jb \<and> j_phase jb = ''completed'');
          s1 = s\<lparr>dirtyProfile := (dirtyProfile s \<and> \<not> ended), current := Some st\<rparr>;
          busy = (pending s \<or> j_busy jb);
          s2 = s1\<lparr>badge_green := st_enabled st,
                  badge := (if st_enabled st then js ''Enabled'' else if databases st \<noteq> [] then js ''Disabled'' else js ''Not installed''),
                  enabled_checked := st_enabled st, enabled_disabled := (busy \<or> databases st = [])\<rparr>;
          s3 = (if \<not> dirtyProfile s2 \<and> st_profile st \<noteq> [] then setProfile (st_profile st) s2 else s2);
          s4 = (if j_busy jb \<and> j_profile jb \<noteq> [] then setProfile (j_profile jb) s3 else s3);
          s5 = showSelection (s4\<lparr>choices_disabled := busy\<rparr>)
      in show_message st (show_progress jb (show_details date_text st (show_buttons st busy s5))))"

definition redisplay :: "(nat \<Rightarrow> jstr) \<Rightarrow> geoip_page \<Rightarrow> geoip_page" where
  "redisplay date_text s = (case current s of None \<Rightarrow> s | Some st \<Rightarrow> display date_text st s)"

section \<open>Handlers\<close>

text \<open>A poll; nothing happens while one is answered or when the panel has left the document.\<close>

definition refresh :: "bool \<Rightarrow> geoip_page \<Rightarrow> geoip_page" where
  "refresh connected s = (if refreshing s \<or> \<not> connected then s else s\<lparr>refreshing := True\<rparr>)"

definition refreshed :: "(nat \<Rightarrow> jstr) \<Rightarrow> outcome \<Rightarrow> geoip_page \<Rightarrow> geoip_page" where
  "refreshed date_text out s =
     (if \<not> refreshing s then s
      else
        (case call_result out of
           Inr st \<Rightarrow> display date_text st s
         | Inl e \<Rightarrow> s\<lparr>message := unavailable, message_title := e, download_disabled := True, upload_disabled := True,
                       enabled_disabled := True, choices_disabled := True\<rparr>)\<lparr>refreshing := False\<rparr>)"

text \<open>\<open>manage\<close>: the call is sent; \<open>ends_upload\<close> tells the one that follows an upload.\<close>

definition manage :: "(nat \<Rightarrow> jstr) \<Rightarrow> string \<Rightarrow> string \<Rightarrow> bool \<Rightarrow> bool \<Rightarrow> geoip_page \<Rightarrow> geoip_page" where
  "manage date_text action selected checked ends_upload s =
     (let s1 = redisplay date_text (s\<lparr>pending := True\<rparr>)
      in s1\<lparr>sent := sent s1 @ [(action, selected, checked)], in_flight := in_flight s1 @ [(action, ends_upload)]\<rparr>)"

definition settle :: "(nat \<Rightarrow> jstr) \<Rightarrow> geoip_page \<Rightarrow> geoip_page" where
  "settle date_text s = redisplay date_text (s\<lparr>pending := False\<rparr>)"

text \<open>Its answer: what is shown, or the notification (175-180); then the \<open>finally\<close>.\<close>

definition answered :: "(nat \<Rightarrow> jstr) \<Rightarrow> string \<Rightarrow> outcome \<Rightarrow> geoip_page \<Rightarrow> geoip_page" where
  "answered date_text action out s =
     (case call_result out of
        Inr st \<Rightarrow> display date_text st (s\<lparr>dirtyProfile := (dirtyProfile s \<or> action = ''download'')\<rparr>)
      | Inl e \<Rightarrow> s\<lparr>notices := notices s @ [js ''Database operation failed: '' @ e]\<rparr>)"

definition managed :: "(nat \<Rightarrow> jstr) \<Rightarrow> nat \<Rightarrow> outcome \<Rightarrow> geoip_page \<Rightarrow> geoip_page" where
  "managed date_text i out s =
     (if length (in_flight s) \<le> i then s
      else
        (let (action, ends_upload) = in_flight s ! i;
             s1 = s\<lparr>in_flight := take i (in_flight s) @ drop (Suc i) (in_flight s)\<rparr>;
             s2 = settle date_text (answered date_text action out s1)
         in if ends_upload then settle date_text s2 else s2))"

datatype choice = Pick_Country | Pick_City | Tick_Asn bool

text \<open>The browser sets the control, of the two radio buttons one; then the handler runs.\<close>

definition pick :: "choice \<Rightarrow> geoip_page \<Rightarrow> geoip_page" where
  "pick c s =
     (case c of
        Pick_Country \<Rightarrow> s\<lparr>country_checked := True, city_checked := False\<rparr>
      | Pick_City \<Rightarrow> s\<lparr>country_checked := False, city_checked := True\<rparr>
      | Tick_Asn tick \<Rightarrow> s\<lparr>asn_checked := tick\<rparr>)"

definition choose_profile :: "(nat \<Rightarrow> jstr) \<Rightarrow> choice \<Rightarrow> geoip_page \<Rightarrow> geoip_page" where
  "choose_profile date_text c s =
     (let s1 = (pick c s)\<lparr>dirtyProfile := True\<rparr>
      in if current s1 = None then showSelection s1 else redisplay date_text s1)"

definition click_upload :: "geoip_page \<Rightarrow> geoip_page" where
  "click_upload s =
     (case current s of
        None \<Rightarrow> s
      | Some st \<Rightarrow> s\<lparr>modal := Some (Upload_Dialog (case upload_max_bytes st of Some n \<Rightarrow> n | None \<Rightarrow> 8 * 1048576) None True [])\<rparr>)"

text \<open>\<open>/\.mmdb$/i\<close>\<close>

definition mmdb_name :: "jstr \<Rightarrow> bool" where
  "mmdb_name name \<longleftrightarrow> 5 \<le> length name \<and> to_lower (drop (length name - 5) name) = js ''.mmdb''"

definition pick_file :: "(jstr \<times> nat) option \<Rightarrow> geoip_page \<Rightarrow> geoip_page" where
  "pick_file file s =
     (case modal s of
        Some (Upload_Dialog limit _ _ _) \<Rightarrow>
          (let bad = (case file of None \<Rightarrow> True | Some (name, bytes) \<Rightarrow> \<not> mmdb_name name \<or> bytes = 0 \<or> bytes > limit)
           in s\<lparr>modal := Some (Upload_Dialog limit file bad
                (if bad \<and> file \<noteq> None then js ''Choose an uncompressed .mmdb file within the upload size limit.'' else []))\<rparr>)
      | _ \<Rightarrow> s)"

definition start_upload :: "(nat \<Rightarrow> jstr) \<Rightarrow> geoip_page \<Rightarrow> geoip_page" where
  "start_upload date_text s =
     (case modal s of
        Some (Upload_Dialog limit (Some file) False e) \<Rightarrow>
          (let s1 = redisplay date_text (s\<lparr>pending := True\<rparr>)
           in s1\<lparr>modal := Some (Uploading 0), uploads := uploads s1 + 1\<rparr>)
      | _ \<Rightarrow> s)"

definition upload_progress :: "nat \<Rightarrow> nat \<Rightarrow> geoip_page \<Rightarrow> geoip_page" where
  "upload_progress loaded all_bytes s =
     (case modal s of
        Some (Uploading p) \<Rightarrow>
          if all_bytes = 0 then s else s\<lparr>modal := Some (Uploading (min 100 ((200 * loaded + all_bytes) div (2 * all_bytes))))\<rparr>
      | _ \<Rightarrow> s)"

text \<open>The reply of the upload: \<open>response.ok\<close>, \<open>reply.failure\<close> and its message; or none.\<close>

datatype upload_outcome = Response bool bool jstr | No_Response jstr

definition uploaded :: "(nat \<Rightarrow> jstr) \<Rightarrow> upload_outcome \<Rightarrow> geoip_page \<Rightarrow> geoip_page" where
  "uploaded date_text out s =
     (if uploads s = 0 then s
      else
        (let s1 = s\<lparr>uploads := uploads s - 1, modal := None\<rparr>;
             fail = (\<lambda>e. settle date_text (s1\<lparr>notices := notices s1 @ [js ''Database upload failed: '' @ e]\<rparr>))
         in case out of
              No_Response e \<Rightarrow> fail e
            | Response ok failure msg \<Rightarrow>
                if \<not> ok \<or> failure then fail (or_else msg (js ''Database upload failed''))
                else manage date_text ''import'' '''' False True s1))"

section \<open>Events\<close>

datatype geoip_event =
    Poll bool
  | Status outcome
  | Choose choice
  | Toggle_Enabled bool
  | Click_Download
  | Click_Cancel
  | Click_Delete
  | Answer_Delete bool
  | Click_Upload
  | Pick_File "(jstr \<times> nat) option"
  | Close_Upload
  | Start_Upload
  | Upload_Progress nat nat
  | Upload_Reply upload_outcome
  | Manage_Reply nat outcome

fun geoip_step :: "(nat \<Rightarrow> jstr) \<Rightarrow> geoip_event \<Rightarrow> geoip_page \<Rightarrow> geoip_page" where
  "geoip_step dt (Poll connected) s = refresh connected s"
| "geoip_step dt (Status out) s = refreshed dt out s"
| "geoip_step dt (Choose c) s = choose_profile dt c s"
| "geoip_step dt (Toggle_Enabled b) s = manage dt ''enable'' '''' b False (s\<lparr>enabled_checked := b\<rparr>)"
| "geoip_step dt Click_Download s = manage dt ''download'' (selectedProfile s) False False s"
| "geoip_step dt Click_Cancel s = manage dt ''cancel'' '''' False False s"
| "geoip_step dt Click_Delete s = s\<lparr>modal := Some Delete_Dialog\<rparr>"
| "geoip_step dt (Answer_Delete yes) s =
     (if modal s \<noteq> Some Delete_Dialog then s
      else if yes then manage dt ''delete'' '''' False False (s\<lparr>modal := None, dirtyProfile := False\<rparr>)
      else s\<lparr>modal := None\<rparr>)"
| "geoip_step dt Click_Upload s = click_upload s"
| "geoip_step dt (Pick_File file) s = pick_file file s"
| "geoip_step dt Close_Upload s = (case modal s of Some (Upload_Dialog _ _ _ _) \<Rightarrow> s\<lparr>modal := None\<rparr> | _ \<Rightarrow> s)"
| "geoip_step dt Start_Upload s = start_upload dt s"
| "geoip_step dt (Upload_Progress loaded all_bytes) s = upload_progress loaded all_bytes s"
| "geoip_step dt (Upload_Reply out) s = uploaded dt out s"
| "geoip_step dt (Manage_Reply i out) s = managed dt i out s"

text \<open>What the browser guarantees: a disabled control, or one behind a dialog, does not react.\<close>

fun geoip_clickable :: "geoip_page \<Rightarrow> geoip_event \<Rightarrow> bool" where
  "geoip_clickable s (Choose c) \<longleftrightarrow> modal s = None \<and> \<not> choices_disabled s"
| "geoip_clickable s (Toggle_Enabled b) \<longleftrightarrow> modal s = None \<and> \<not> enabled_disabled s"
| "geoip_clickable s Click_Download \<longleftrightarrow> modal s = None \<and> \<not> download_disabled s"
| "geoip_clickable s Click_Cancel \<longleftrightarrow> modal s = None \<and> cancel_shown s \<and> \<not> cancel_disabled s"
| "geoip_clickable s Click_Delete \<longleftrightarrow> modal s = None \<and> remove_shown s \<and> \<not> remove_disabled s"
| "geoip_clickable s Click_Upload \<longleftrightarrow> modal s = None \<and> \<not> upload_disabled s"
| "geoip_clickable s _ \<longleftrightarrow> True"

text \<open>
  The user does not click the download button again while a download started before the first
  status is unanswered: until a status is shown the button stays enabled.
\<close>

definition no_second_download :: "geoip_page \<Rightarrow> geoip_event \<Rightarrow> bool" where
  "no_second_download s e \<longleftrightarrow> (e = Click_Download \<and> current s = None \<longrightarrow> in_flight s = [])"

inductive geoip_session :: "(geoip_page \<Rightarrow> geoip_event \<Rightarrow> bool) \<Rightarrow> (nat \<Rightarrow> jstr) \<Rightarrow> geoip_page \<Rightarrow> bool" for ok dt where
  start: "geoip_session ok dt new_geoip"
| move: "geoip_session ok dt s \<Longrightarrow> ok s e \<Longrightarrow> geoip_session ok dt (geoip_step dt e s)"

fun run_geoip :: "(nat \<Rightarrow> jstr) \<Rightarrow> geoip_event list \<Rightarrow> geoip_page \<Rightarrow> geoip_page" where
  "run_geoip dt [] s = s"
| "run_geoip dt (e # es) s = run_geoip dt es (geoip_step dt e s)"

text \<open>
  The status an event brings: a reply to a poll or to a call that waits for one, when it succeeds. Of a
  list of events, the last one.
\<close>

definition good :: "outcome \<Rightarrow> geoip_status option" where
  "good out = (case call_result out of Inl m \<Rightarrow> None | Inr st \<Rightarrow> Some st)"

fun told :: "geoip_event \<Rightarrow> geoip_page \<Rightarrow> geoip_status option" where
  "told (Status out) s = (if refreshing s then good out else None)"
| "told (Manage_Reply i out) s = (if i < length (in_flight s) then good out else None)"
| "told _ s = None"


section \<open>What a display leaves alone, and what it shows\<close>

named_theorems geoip_frame \<open>the fields an operation leaves as they are\<close>

lemma setProfile_frame [geoip_frame]:
  "current (setProfile v s) = current s" "pending (setProfile v s) = pending s" "dirtyProfile (setProfile v s) = dirtyProfile s"
  "enabled_checked (setProfile v s) = enabled_checked s" "enabled_disabled (setProfile v s) = enabled_disabled s"
  "modal (setProfile v s) = modal s" "in_flight (setProfile v s) = in_flight s" "uploads (setProfile v s) = uploads s"
  "refreshing (setProfile v s) = refreshing s" "sent (setProfile v s) = sent s"
  "country_checked (setProfile v s) \<longleftrightarrow> \<not> city_checked (setProfile v s)"
  by (simp_all add: setProfile_def Let_def)

lemma show_message_frame [geoip_frame]:
  "current (show_message st s) = current s" "pending (show_message st s) = pending s" "dirtyProfile (show_message st s) = dirtyProfile s"
  "enabled_checked (show_message st s) = enabled_checked s" "enabled_disabled (show_message st s) = enabled_disabled s"
  "modal (show_message st s) = modal s" "in_flight (show_message st s) = in_flight s" "uploads (show_message st s) = uploads s"
  "refreshing (show_message st s) = refreshing s" "sent (show_message st s) = sent s"
  "country_checked (show_message st s) = country_checked s" "city_checked (show_message st s) = city_checked s"
  "asn_checked (show_message st s) = asn_checked s" "choices_disabled (show_message st s) = choices_disabled s"
  "download (show_message st s) = download s" "download_disabled (show_message st s) = download_disabled s"
  "upload_disabled (show_message st s) = upload_disabled s" "cancel_shown (show_message st s) = cancel_shown s"
  "cancel_disabled (show_message st s) = cancel_disabled s" "remove_shown (show_message st s) = remove_shown s"
  "remove_disabled (show_message st s) = remove_disabled s" "selection_shown (show_message st s) = selection_shown s"
  by (simp_all add: show_message_def Let_def)

lemma display_frame [geoip_frame]:
  "current (display dt st s) = Some st" "pending (display dt st s) = pending s"
  "modal (display dt st s) = modal s" "in_flight (display dt st s) = in_flight s" "uploads (display dt st s) = uploads s"
  "refreshing (display dt st s) = refreshing s" "sent (display dt st s) = sent s"
  by (simp_all add: display_def Let_def showSelection_def show_buttons_def show_details_def show_progress_def geoip_frame)

lemma selectedProfile_cong:
  "city_checked s = city_checked s' \<Longrightarrow> asn_checked s = asn_checked s' \<Longrightarrow> selectedProfile s = selectedProfile s'"
  by (simp add: selectedProfile_def)

text \<open>The controls of a panel that shows \<open>st\<close>.\<close>

definition panel_shows :: "geoip_status \<Rightarrow> geoip_page \<Rightarrow> bool" where
  "panel_shows st s \<longleftrightarrow>
     enabled_checked s = st_enabled st \<and>
     download s = (if databases st \<noteq> [] \<and> st_profile st = selectedProfile s then ''Update database'' else ''Download and enable'') \<and>
     selection_shown s = (databases st \<noteq> [] \<and> st_profile st \<noteq> selectedProfile s) \<and>
     remove_shown s = (databases st \<noteq> [] \<or> load_error st \<noteq> []) \<and>
     cancel_shown s = (j_busy (job st) \<and> j_phase (job st) \<noteq> ''activating'')"

text \<open>While something runs, nothing else can be started.\<close>

definition locked :: "geoip_page \<Rightarrow> bool" where
  "locked s \<longleftrightarrow> enabled_disabled s \<and> choices_disabled s \<and> download_disabled s \<and> upload_disabled s \<and> remove_disabled s"

definition panel_ok :: "geoip_page \<Rightarrow> bool" where
  "panel_ok s \<longleftrightarrow> (country_checked s \<longleftrightarrow> \<not> city_checked s) \<and>
     (\<forall>st. current s = Some st \<longrightarrow> panel_shows st s \<and> (pending s \<or> j_busy (job st) \<longrightarrow> locked s) \<and> (pending s \<longrightarrow> cancel_disabled s))"

lemma display_one_radio:
  "(country_checked s \<longleftrightarrow> \<not> city_checked s) \<Longrightarrow> country_checked (display dt st s) \<longleftrightarrow> \<not> city_checked (display dt st s)"
  by (simp add: display_def Let_def showSelection_def show_buttons_def show_details_def show_progress_def geoip_frame)

lemma display_shows: "panel_shows st (display dt st s)"
  by (simp add: panel_shows_def display_def Let_def showSelection_def show_buttons_def show_details_def show_progress_def
      geoip_frame selectedProfile_def truthy_def)

lemma display_locked:
  "pending s \<or> j_busy (job st) \<Longrightarrow> locked (display dt st s)" "pending s \<Longrightarrow> cancel_disabled (display dt st s)"
  by (auto simp: locked_def display_def Let_def showSelection_def show_buttons_def show_details_def show_progress_def geoip_frame)

lemma panel_display: "(country_checked s \<longleftrightarrow> \<not> city_checked s) \<Longrightarrow> panel_ok (display dt st s)"
  using display_one_radio[of s dt st] display_shows[of st dt s] display_locked(1)[of s st dt] display_locked(2)[of s dt st]
  unfolding panel_ok_def by (simp add: geoip_frame)

section \<open>The panel always shows the last status\<close>

definition one_radio :: "geoip_page \<Rightarrow> bool" where
  "one_radio s \<longleftrightarrow> (country_checked s \<longleftrightarrow> \<not> city_checked s)"

lemma one_radio_simps [simp]:
  "one_radio (s\<lparr>pending := b\<rparr>) = one_radio s" "one_radio (s\<lparr>enabled_checked := b\<rparr>) = one_radio s"
  "one_radio (s\<lparr>dirtyProfile := b\<rparr>) = one_radio s" "one_radio (s\<lparr>modal := m\<rparr>) = one_radio s"
  "one_radio (s\<lparr>in_flight := f\<rparr>) = one_radio s" "one_radio (s\<lparr>uploads := n\<rparr>) = one_radio s"
  "one_radio (s\<lparr>notices := ns\<rparr>) = one_radio s"
  by (simp_all add: one_radio_def)

lemma panel_ok_simps [simp]:
  "panel_ok (s\<lparr>modal := m\<rparr>) = panel_ok s" "panel_ok (s\<lparr>in_flight := f\<rparr>) = panel_ok s"
  "panel_ok (s\<lparr>uploads := n\<rparr>) = panel_ok s" "panel_ok (s\<lparr>sent := x\<rparr>) = panel_ok s"
  "panel_ok (s\<lparr>refreshing := b\<rparr>) = panel_ok s" "panel_ok (s\<lparr>notices := ns\<rparr>) = panel_ok s"
  by (simp_all add: panel_ok_def panel_shows_def locked_def selectedProfile_def)

lemma panel_one_radio: "panel_ok s \<Longrightarrow> one_radio s"
  by (simp add: panel_ok_def one_radio_def)

lemma panel_display_radio: "one_radio s \<Longrightarrow> panel_ok (display dt st s)"
  by (simp add: one_radio_def panel_display)

lemma panel_redisplay: "one_radio s \<Longrightarrow> panel_ok (redisplay dt s)"
  by (cases "current s") (simp_all add: redisplay_def panel_display_radio, simp add: panel_ok_def one_radio_def)

lemma panel_manage: "one_radio s \<Longrightarrow> panel_ok (manage dt act prof ch up s)"
  by (simp add: manage_def Let_def panel_redisplay)

lemma panel_settle: "one_radio s \<Longrightarrow> panel_ok (settle dt s)"
  by (simp add: settle_def panel_redisplay)

lemma panel_refreshed:
  assumes "panel_ok s"
  shows "panel_ok (refreshed dt out s)"
proof (cases "call_result out")
  case (Inl e)
  have "panel_ok (s\<lparr>message := unavailable, message_title := e, download_disabled := True, upload_disabled := True,
      enabled_disabled := True, choices_disabled := True\<rparr>)"
    using assms by (auto simp: panel_ok_def panel_shows_def locked_def selectedProfile_def)
  then show ?thesis using Inl assms by (simp add: refreshed_def)
next
  case (Inr st)
  then show ?thesis using assms by (simp add: refreshed_def panel_display_radio panel_one_radio)
qed

lemma radio_answered: "one_radio s \<Longrightarrow> one_radio (answered dt act out s)"
  by (simp add: answered_def panel_one_radio[OF panel_display_radio] split: sum.split)

lemma panel_managed: "panel_ok s \<Longrightarrow> panel_ok (managed dt i out s)"
  using panel_one_radio[of s]
  by (simp add: managed_def Let_def panel_settle panel_one_radio radio_answered split: prod.split)

lemma pick_radio: "one_radio s \<Longrightarrow> one_radio (pick c s)"
  by (cases c) (simp_all add: pick_def one_radio_def)

lemma pick_frame [geoip_frame]:
  "current (pick c s) = current s" "pending (pick c s) = pending s" "modal (pick c s) = modal s"
  "in_flight (pick c s) = in_flight s" "uploads (pick c s) = uploads s"
  by (cases c; simp add: pick_def)+

lemma panel_choose:
  assumes "panel_ok s"
  shows "panel_ok (choose_profile dt c s)"
proof -
  have r: "one_radio ((pick c s)\<lparr>dirtyProfile := True\<rparr>)"
    using pick_radio[OF panel_one_radio[OF assms]] by simp
  show ?thesis
  proof (cases "current s")
    case None
    have "panel_ok (showSelection ((pick c s)\<lparr>dirtyProfile := True\<rparr>))"
      using r None by (simp add: panel_ok_def one_radio_def showSelection_def geoip_frame)
    then show ?thesis using None by (simp add: choose_profile_def geoip_frame)
  next
    case (Some st)
    then show ?thesis using panel_redisplay[OF r] by (simp add: choose_profile_def geoip_frame)
  qed
qed

lemma panel_uploaded: "panel_ok s \<Longrightarrow> panel_ok (uploaded dt out s)"
  using panel_one_radio[of s]
  by (auto simp: uploaded_def Let_def panel_settle panel_manage split: upload_outcome.split)

lemma panel_start_upload: "panel_ok s \<Longrightarrow> panel_ok (start_upload dt s)"
  using panel_one_radio[of s]
  by (auto simp: start_upload_def Let_def panel_redisplay split: option.split modal.split bool.split)

lemma panel_step:
  assumes "panel_ok s"
  shows "panel_ok (geoip_step dt e s)"
proof (cases e)
  case (Poll connected)
  then show ?thesis using assms by (simp add: refresh_def)
next
  case Click_Upload
  then show ?thesis using assms by (simp add: click_upload_def split: option.split)
next
  case (Pick_File f)
  then show ?thesis using assms by (simp add: pick_file_def Let_def split: option.split modal.split)
next
  case Close_Upload
  then show ?thesis using assms by (simp split: option.split modal.split)
next
  case (Upload_Progress n m)
  then show ?thesis using assms by (simp add: upload_progress_def split: option.split modal.split)
qed (use assms panel_one_radio[OF assms] in
    \<open>simp_all add: panel_refreshed panel_managed panel_choose panel_manage panel_uploaded panel_start_upload\<close>)


lemma panel_session: "geoip_session ok dt s \<Longrightarrow> panel_ok s"
  by (induction rule: geoip_session.induct) (simp_all add: panel_step, simp add: panel_ok_def new_geoip_def)

section \<open>One operation at a time\<close>

text \<open>The operations without an answer; a dialog for another one is open only when there is none.\<close>

definition running :: "geoip_page \<Rightarrow> nat" where
  "running s = length (in_flight s) + uploads s"

definition dialog_open :: "geoip_page \<Rightarrow> bool" where
  "dialog_open s = (case modal s of None \<Rightarrow> False | Some (Uploading p) \<Rightarrow> False | Some _ \<Rightarrow> True)"

definition one_running :: "geoip_page \<Rightarrow> bool" where
  "one_running s \<longleftrightarrow> running s \<le> 1 \<and> (pending s \<longleftrightarrow> running s = 1) \<and> (dialog_open s \<longrightarrow> \<not> pending s)"

text \<open>Before the first status only the download button reacts, and no dialog is open.\<close>

definition only_download :: "geoip_page \<Rightarrow> bool" where
  "only_download s \<longleftrightarrow> (current s = None \<longrightarrow>
     enabled_disabled s \<and> \<not> remove_shown s \<and> \<not> cancel_shown s \<and> modal s = None \<and> uploads s = 0)"

lemma redisplay_frame [geoip_frame]:
  "current (redisplay dt s) = current s" "pending (redisplay dt s) = pending s"
  "modal (redisplay dt s) = modal s" "in_flight (redisplay dt s) = in_flight s" "uploads (redisplay dt s) = uploads s"
  "sent (redisplay dt s) = sent s"
  by (simp_all add: redisplay_def geoip_frame split: option.split)

lemma settle_frame [geoip_frame]:
  "current (settle dt s) = current s" "pending (settle dt s) = False"
  "modal (settle dt s) = modal s" "in_flight (settle dt s) = in_flight s" "uploads (settle dt s) = uploads s"
  by (simp_all add: settle_def geoip_frame)

lemma answered_frame [geoip_frame]:
  "modal (answered dt act out s) = modal s" "in_flight (answered dt act out s) = in_flight s"
  "uploads (answered dt act out s) = uploads s"
  by (simp_all add: answered_def geoip_frame split: sum.split)

lemma manage_frame [geoip_frame]:
  "current (manage dt a prof ch up s) = current s" "pending (manage dt a prof ch up s) = True"
  "modal (manage dt a prof ch up s) = modal s" "uploads (manage dt a prof ch up s) = uploads s"
  "in_flight (manage dt a prof ch up s) = in_flight s @ [(a, up)]"
  by (simp_all add: manage_def Let_def geoip_frame)

lemma choose_profile_current [geoip_frame]: "current (choose_profile dt c s) = current s"
  by (simp add: choose_profile_def Let_def showSelection_def geoip_frame)

lemma current_step: "current (geoip_step dt e s) = (case told e s of Some st \<Rightarrow> Some st | None \<Rightarrow> current s)"
proof (cases e)
  case (Manage_Reply i out)
  have "current (answered dt act out t) = (case call_result out of Inl m \<Rightarrow> current t | Inr st \<Rightarrow> Some st)" for act t
    by (simp add: answered_def geoip_frame split: sum.split)
  then show ?thesis using Manage_Reply by (simp add: managed_def good_def Let_def geoip_frame split: sum.split prod.split)
qed (auto simp: refresh_def refreshed_def good_def geoip_frame click_upload_def pick_file_def start_upload_def upload_progress_def
    uploaded_def Let_def split: sum.split option.split modal.split bool.split upload_outcome.split)


lemma one_running_cong:
  "pending s' = pending s \<Longrightarrow> modal s' = modal s \<Longrightarrow> in_flight s' = in_flight s \<Longrightarrow> uploads s' = uploads s \<Longrightarrow>
     one_running s' \<longleftrightarrow> one_running s"
  by (simp add: one_running_def running_def dialog_open_def)

lemma one_running_manage:
  "one_running s \<Longrightarrow> \<not> pending s \<Longrightarrow> modal s' = None \<Longrightarrow> in_flight s' = in_flight s \<Longrightarrow> uploads s' = uploads s \<Longrightarrow>
     one_running (manage dt a prof ch up s')"
  by (cases "in_flight s") (auto simp: one_running_def running_def dialog_open_def geoip_frame)

lemma one_running_refreshed: "one_running s \<Longrightarrow> one_running (refreshed dt out s)"
proof -
  assume s: "one_running s"
  have "one_running (refreshed dt out s) \<longleftrightarrow> one_running s"
    by (rule one_running_cong; cases "call_result out"; simp add: refreshed_def geoip_frame)
  then show ?thesis using s by simp
qed

lemma one_running_managed:
  assumes "one_running s"
  shows "one_running (managed dt i out s)"
proof (cases "i < length (in_flight s)")
  case True
  then have n: "length (in_flight s) = 1" "uploads s = 0" "i = 0"
    using assms by (simp_all add: one_running_def running_def)
  then obtain a up where f: "in_flight s = [(a, up)]" by (cases "in_flight s") auto
  have "one_running (settle dt s2)" if "in_flight s2 = []" "uploads s2 = 0" for s2
    using that by (simp add: one_running_def running_def geoip_frame)
  then show ?thesis
    using n f by (simp add: managed_def Let_def geoip_frame)
qed (simp add: managed_def assms)

lemma one_running_uploaded:
  assumes "one_running s"
  shows "one_running (uploaded dt out s)"
proof (cases "uploads s = 0")
  case False
  then have "in_flight s = []" "uploads s = 1"
    using assms by (cases "in_flight s"; simp add: one_running_def running_def)+
  then show ?thesis
    by (cases out) (simp_all add: uploaded_def Let_def one_running_def running_def dialog_open_def geoip_frame)
qed (simp add: uploaded_def assms)

lemma one_running_choose: "one_running s \<Longrightarrow> one_running (choose_profile dt c s)"
proof -
  assume s: "one_running s"
  have "one_running (choose_profile dt c s) \<longleftrightarrow> one_running s"
    by (rule one_running_cong) (simp_all add: choose_profile_def Let_def showSelection_def geoip_frame)
  then show ?thesis using s by simp
qed

lemma only_download_step:
  assumes "only_download s" "geoip_clickable s e"
  shows "only_download (geoip_step dt e s)"
proof (cases "current s")
  case None
  have cur: "current (answered dt act out t) = (case call_result out of Inl m \<Rightarrow> current t | Inr st \<Rightarrow> Some st)" for act out t
    by (simp add: answered_def geoip_frame split: sum.split)
  have idle: "settle dt t = t\<lparr>pending := False\<rparr>" if "current t = None" for t
    using that by (simp add: settle_def redisplay_def)
  show ?thesis
  proof (cases e)
    case (Manage_Reply i out)
    then show ?thesis
      using assms None
      by (auto simp: only_download_def managed_def Let_def cur geoip_frame answered_def idle split: sum.splits prod.splits)
  qed (use assms None in \<open>auto simp: only_download_def refresh_def refreshed_def geoip_frame choose_profile_def pick_def showSelection_def
      manage_def redisplay_def click_upload_def pick_file_def start_upload_def upload_progress_def uploaded_def Let_def
      split: sum.splits choice.splits option.splits\<close>)
next
  case (Some st)
  have "current (geoip_step dt e s) \<noteq> None"
    using Some current_step[of dt e s] by (simp split: option.split)
  then show ?thesis unfolding only_download_def by blast
qed

text \<open>A control that reacts shows that nothing runs.\<close>

lemma clickable_idle:
  assumes "panel_ok s" "one_running s" "only_download s" "no_second_download s e" "geoip_clickable s e"
    "e = Click_Download \<or> e = Click_Cancel \<or> e = Click_Delete \<or> (e = Click_Upload \<and> current s \<noteq> None) \<or> (\<exists>b. e = Toggle_Enabled b)"
  shows "\<not> pending s \<and> modal s = None"
proof (cases "current s")
  case None
  then have "e = Click_Download" using assms(3,5,6) by (auto simp: only_download_def)
  then show ?thesis
    using None assms(2-5) by (simp add: only_download_def no_second_download_def one_running_def running_def)
next
  case (Some st)
  then have "pending s \<longrightarrow> locked s \<and> cancel_disabled s" using assms(1) by (auto simp: panel_ok_def)
  then show ?thesis using assms(5,6) by (auto simp: locked_def)
qed

lemma one_running_step:
  assumes "one_running s" "panel_ok s" "only_download s" "geoip_clickable s e" "no_second_download s e"
  shows "one_running (geoip_step dt e s)"
proof (cases e)
  case (Poll connected)
  then show ?thesis using assms(1) one_running_cong[of "s\<lparr>refreshing := True\<rparr>" s] by (simp add: refresh_def)
next
  case (Status out)
  then show ?thesis using assms(1) by (simp add: one_running_refreshed)
next
  case (Choose c)
  then show ?thesis using assms(1) by (simp add: one_running_choose)
next
  case (Toggle_Enabled b)
  then have "\<not> pending s \<and> modal s = None" using assms clickable_idle[of s e] by blast
  then show ?thesis using Toggle_Enabled assms(1) one_running_manage[of s "s\<lparr>enabled_checked := b\<rparr>"] by simp
next
  case Click_Download
  then have "\<not> pending s \<and> modal s = None" using assms clickable_idle[of s e] by blast
  then show ?thesis using Click_Download assms(1) one_running_manage[of s s] by simp
next
  case Click_Cancel
  then have "\<not> pending s \<and> modal s = None" using assms clickable_idle[of s e] by blast
  then show ?thesis using Click_Cancel assms(1) one_running_manage[of s s] by simp
next
  case Click_Delete
  then have "\<not> pending s \<and> modal s = None" using assms clickable_idle[of s e] by blast
  then show ?thesis using Click_Delete assms(1) by (simp add: one_running_def running_def)
next
  case (Answer_Delete yes)
  show ?thesis
  proof (cases "modal s = Some Delete_Dialog")
    case True
    then have np: "\<not> pending s" using assms(1) by (auto simp: one_running_def dialog_open_def)
    have "one_running (s\<lparr>modal := None\<rparr>)"
      using assms(1) np by (auto simp: one_running_def running_def dialog_open_def)
    then show ?thesis
      using Answer_Delete True np assms(1) one_running_manage[of s "s\<lparr>modal := None, dirtyProfile := False\<rparr>"] by simp
  qed (simp add: Answer_Delete assms(1))
next
  case Click_Upload
  then have "current s \<noteq> None \<Longrightarrow> \<not> pending s \<and> modal s = None" using assms clickable_idle[of s e] by blast
  then show ?thesis
    using Click_Upload assms(1) by (auto simp: click_upload_def one_running_def running_def split: option.split)
next
  case (Pick_File f)
  then show ?thesis
    using assms(1) by (auto simp: pick_file_def Let_def one_running_def running_def dialog_open_def split: option.split modal.split)
next
  case Close_Upload
  then show ?thesis
    using assms(1) by (auto simp: one_running_def running_def dialog_open_def split: option.split modal.split)
next
  case Start_Upload
  then show ?thesis
    using assms(1)
    by (cases "in_flight s") (auto simp: start_upload_def Let_def one_running_def running_def dialog_open_def geoip_frame
        split: option.split modal.split bool.split)
next
  case (Upload_Progress n m)
  then show ?thesis
    using assms(1) by (auto simp: upload_progress_def one_running_def running_def dialog_open_def split: option.split modal.split)
next
  case (Upload_Reply out)
  then show ?thesis using assms(1) by (simp add: one_running_uploaded)
next
  case (Manage_Reply i out)
  then show ?thesis using assms(1) by (simp add: one_running_managed)
qed

lemma one_running_session:
  "geoip_session (\<lambda>s e. geoip_clickable s e \<and> no_second_download s e) dt s \<Longrightarrow> one_running s \<and> only_download s"
proof (induction rule: geoip_session.induct)
  case start
  show ?case by (simp add: one_running_def running_def dialog_open_def only_download_def new_geoip_def)
next
  case (move s e)
  then show ?case using panel_session[OF move.hyps(1)] one_running_step only_download_step by blast
qed

section \<open>The user's choice\<close>

text \<open>
  Events that are neither a choice of the user nor a confirmed deletion, and report no running job.
\<close>

fun no_job :: "outcome \<Rightarrow> bool" where
  "no_job out \<longleftrightarrow> (case call_result out of Inl e \<Rightarrow> True | Inr st \<Rightarrow> \<not> j_busy (job st))"

fun quiet :: "geoip_event \<Rightarrow> bool" where
  "quiet (Choose c) \<longleftrightarrow> False"
| "quiet (Answer_Delete yes) \<longleftrightarrow> \<not> yes"
| "quiet (Status out) \<longleftrightarrow> no_job out"
| "quiet (Manage_Reply i out) \<longleftrightarrow> no_job out"
| "quiet _ \<longleftrightarrow> True"

text \<open>The selected contents are \<open>v\<close>, by the user's choice, and no job is known to run.\<close>

definition chosen :: "string \<Rightarrow> geoip_page \<Rightarrow> bool" where
  "chosen v s \<longleftrightarrow> selectedProfile s = v \<and> dirtyProfile s \<and> (\<forall>st. current s = Some st \<longrightarrow> \<not> j_busy (job st))"

lemma chosen_simps [simp]:
  "chosen v (s\<lparr>pending := b\<rparr>) = chosen v s" "chosen v (s\<lparr>enabled_checked := b\<rparr>) = chosen v s"
  "chosen v (s\<lparr>modal := m\<rparr>) = chosen v s" "chosen v (s\<lparr>in_flight := f\<rparr>) = chosen v s"
  "chosen v (s\<lparr>uploads := n\<rparr>) = chosen v s" "chosen v (s\<lparr>notices := ns\<rparr>) = chosen v s"
  "chosen v (s\<lparr>sent := x\<rparr>) = chosen v s" "chosen v (s\<lparr>refreshing := b\<rparr>) = chosen v s"
  "chosen v s \<Longrightarrow> chosen v (s\<lparr>dirtyProfile := dirtyProfile s \<or> b\<rparr>)"
  by (simp_all add: chosen_def selectedProfile_def)

lemma chosen_display:
  assumes "chosen v s" "\<not> j_busy (job st)"
  shows "chosen v (display dt st s)"
proof -
  have nb: "(case current s of None \<Rightarrow> False | Some c \<Rightarrow> j_busy (job c)) = False"
    using assms(1) by (simp add: chosen_def split: option.split)
  have "dirtyProfile s" "selectedProfile s = v" using assms(1) by (simp_all add: chosen_def)
  then show ?thesis
    using assms(2) unfolding chosen_def display_def Let_def nb
    by (simp add: showSelection_def show_buttons_def show_details_def show_progress_def geoip_frame selectedProfile_def Let_def)
qed

lemma chosen_redisplay:
  assumes "chosen v s"
  shows "chosen v (redisplay dt s)"
proof (cases "current s")
  case (Some st)
  then have "\<not> j_busy (job st)" using assms by (simp add: chosen_def)
  then show ?thesis using Some assms by (simp add: redisplay_def chosen_display)
qed (use assms in \<open>simp add: redisplay_def\<close>)

lemma chosen_manage: "chosen v s \<Longrightarrow> chosen v (manage dt act prof ch up s)"
  by (simp add: manage_def Let_def chosen_redisplay)

lemma chosen_settle: "chosen v s \<Longrightarrow> chosen v (settle dt s)"
  by (simp add: settle_def chosen_redisplay)

lemma chosen_answered: "chosen v s \<Longrightarrow> no_job out \<Longrightarrow> chosen v (answered dt act out s)"
  by (auto simp: answered_def chosen_display split: sum.splits)

lemma chosen_refreshed: "chosen v s \<Longrightarrow> no_job out \<Longrightarrow> chosen v (refreshed dt out s)"
  by (auto simp: refreshed_def chosen_display split: sum.splits) (simp add: chosen_def selectedProfile_def)

lemma chosen_managed: "chosen v s \<Longrightarrow> no_job out \<Longrightarrow> chosen v (managed dt i out s)"
  by (simp add: managed_def Let_def chosen_settle chosen_answered split: prod.split)

lemma chosen_uploaded: "chosen v s \<Longrightarrow> chosen v (uploaded dt out s)"
  by (simp add: uploaded_def Let_def chosen_settle chosen_manage split: upload_outcome.split)

lemma chosen_step: "chosen v s \<Longrightarrow> quiet e \<Longrightarrow> chosen v (geoip_step dt e s)"
  by (cases e)
    (simp_all add: refresh_def chosen_refreshed chosen_managed chosen_manage click_upload_def pick_file_def start_upload_def
      upload_progress_def chosen_uploaded Let_def chosen_redisplay
      split: option.split modal.split bool.split del: no_job.simps)

lemma chosen_run: "chosen v s \<Longrightarrow> \<forall>e\<in>set es. quiet e \<Longrightarrow> chosen v (run_geoip dt es s)"
  by (induction es arbitrary: s) (simp_all add: chosen_step)

section \<open>Claims on the panel\<close>


definition example_job :: geoip_job where
  "example_job = \<lparr>j_busy = False, j_phase = [], j_profile = [], j_file = [], j_error = [], j_error_phase = [],
     total_bytes = 0, downloaded_bytes = 0, required_bytes = 0\<rparr>"

definition example_status :: geoip_status where
  "example_status =
     \<lparr>st_enabled = True, databases = [\<lparr>kind = ''country'', build_epoch = 0\<rparr>], st_profile = ''country'', job = example_job,
      load_error = [], source = [], version = [], directory = js ''/tmp'', installed_bytes = Some 4096, free_bytes = None,
      upload_max_bytes = None\<rparr>"

abbreviation example_outcome :: outcome where
  "example_outcome \<equiv> Inr (Some \<lparr>is_success = True, r_data = Some example_status, r_message = [], r_error = []\<rparr>)"

text \<open>The panel after its first poll.\<close>

definition example_panel :: geoip_page where
  "example_panel = run_geoip (\<lambda>n. []) [Poll True, Status example_outcome] new_geoip"

lemma example_call: "call_result example_outcome = Inr example_status"
  by (simp add: call_result_def unwrap_def)

lemma example_panel_eq:
  "example_panel = (display (\<lambda>n. []) example_status (new_geoip\<lparr>refreshing := True\<rparr>))\<lparr>refreshing := False\<rparr>"
  by (simp add: example_panel_def refresh_def refreshed_def example_call) (simp add: new_geoip_def)

lemma example_panel_current: "current example_panel = Some example_status"
  by (simp add: example_panel_eq geoip_frame)

lemma example_panel_idle:
  "modal example_panel = None" "choices_disabled example_panel = False" "download_disabled example_panel = False"
  "asn_checked example_panel = False" "city_checked example_panel = False"
  by (simp_all add: example_panel_eq display_def Let_def new_geoip_def showSelection_def show_buttons_def show_details_def
      show_progress_def show_message_frame setProfile_def example_status_def example_job_def)

lemma example_session:
  "geoip_session (\<lambda>s e. geoip_clickable s e \<and> no_second_download s e) (\<lambda>n. []) example_panel"
  unfolding example_panel_def run_geoip.simps
  by (intro geoip_session.intros) (simp_all add: no_second_download_def)



text \<open>
  C10: when the user touches only enabled controls and, before the first status, does not start a
  second download while one is unanswered, at most one operation (a call or an upload) is ever
  unanswered, \<open>pending\<close> tells whether one is, and while one is and a status is known
  every control that starts an operation is disabled.
\<close>

theorem geoip_one_operation:
  assumes "geoip_session (\<lambda>s e. geoip_clickable s e \<and> no_second_download s e) dt s"
  shows "length (in_flight s) + uploads s \<le> 1 \<and> (pending s \<longleftrightarrow> in_flight s \<noteq> [] \<or> uploads s \<noteq> 0) \<and>
    ((in_flight s \<noteq> [] \<or> uploads s \<noteq> 0) \<and> current s \<noteq> None \<longrightarrow>
      enabled_disabled s \<and> choices_disabled s \<and> download_disabled s \<and> upload_disabled s \<and> remove_disabled s \<and> cancel_disabled s)"
proof -
  have "length (in_flight s) + uploads s \<le> 1 \<and> (pending s \<longleftrightarrow> in_flight s \<noteq> [] \<or> uploads s \<noteq> 0)"
    using one_running_session[OF assms] by (cases "in_flight s") (auto simp: one_running_def running_def)
  then show ?thesis using panel_session[OF assms] by (auto simp: panel_ok_def locked_def)
qed

theorem geoip_one_operation_witness:
  "length (in_flight (geoip_step (\<lambda>n. []) Click_Download example_panel)) + uploads (geoip_step (\<lambda>n. []) Click_Download example_panel) \<le> 1 \<and>
     download_disabled (geoip_step (\<lambda>n. []) Click_Download example_panel) \<and>
     upload_disabled (geoip_step (\<lambda>n. []) Click_Download example_panel)"
proof -
  have "geoip_session (\<lambda>s e. geoip_clickable s e \<and> no_second_download s e) (\<lambda>n. []) (geoip_step (\<lambda>n. []) Click_Download example_panel)"
    by (rule geoip_session.move[OF example_session]) (simp add: example_panel_current example_panel_idle no_second_download_def)
  from geoip_one_operation[OF this] show ?thesis by (simp add: geoip_frame example_panel_current)
qed

text \<open>
  Before the first status the buttons are enabled and stay so while a call runs: two downloads can
  be started at once.
\<close>

lemma two_downloads_before_status:
  "geoip_session geoip_clickable dt (run_geoip dt [Click_Download, Click_Download] new_geoip)"
  "length (in_flight (run_geoip dt [Click_Download, Click_Download] new_geoip)) = 2"
proof -
  have m: "modal (geoip_step dt Click_Download new_geoip) = None" "\<not> download_disabled (geoip_step dt Click_Download new_geoip)"
    by (simp_all add: manage_def Let_def redisplay_def new_geoip_def)
  have "geoip_session geoip_clickable dt (geoip_step dt Click_Download new_geoip)"
    by (rule geoip_session.move[OF geoip_session.start]) (simp add: new_geoip_def)
  from geoip_session.move[OF this, of Click_Download] m
  show "geoip_session geoip_clickable dt (run_geoip dt [Click_Download, Click_Download] new_geoip)" by simp
  show "length (in_flight (run_geoip dt [Click_Download, Click_Download] new_geoip)) = 2"
    by (simp add: geoip_frame) (simp add: new_geoip_def)
qed

text \<open>
  Contents the user has chosen stay chosen whatever the service reports of the installed ones,
  as long as no job runs and the user neither chooses again nor deletes the database.
\<close>

theorem geoip_choice_kept:
  assumes "dirtyProfile s" "current s = Some st" "\<not> j_busy (job st)" "\<forall>e\<in>set es. quiet e"
  shows "selectedProfile (run_geoip dt es s) = selectedProfile s"
proof -
  have "chosen (selectedProfile s) s" using assms(1-3) by (simp add: chosen_def)
  from chosen_run[OF this assms(4)] show ?thesis by (simp add: chosen_def)
qed

theorem geoip_choice_kept_witness:
  "selectedProfile (run_geoip (\<lambda>n. []) [Poll True, Status example_outcome, Poll True, Status (Inl [])]
     (geoip_step (\<lambda>n. []) (Choose Pick_City) example_panel)) = ''city''"
proof -
  let ?s = "geoip_step (\<lambda>n. []) (Choose Pick_City) example_panel"
  have s: "?s = display (\<lambda>n. []) example_status
      (example_panel\<lparr>country_checked := False, city_checked := True, dirtyProfile := True\<rparr>)"
    by (simp add: choose_profile_def pick_def redisplay_def example_panel_current)
  have k: "\<not> j_busy (job example_status)" by (simp add: example_status_def example_job_def)
  have "chosen ''city'' ?s"
    unfolding s by (rule chosen_display) (simp_all add: k chosen_def selectedProfile_def example_panel_idle example_panel_current)
  then have c: "selectedProfile ?s = ''city''" "dirtyProfile ?s" by (simp_all add: chosen_def)
  have cur: "current ?s = Some example_status" unfolding s by (rule display_frame)
  have q: "\<forall>e\<in>set [Poll True, Status example_outcome, Poll True, Status (Inl [])]. quiet e"
    using k by (simp add: call_result_def unwrap_def)
  show ?thesis using geoip_choice_kept[OF c(2) cur k q] c(1) by (simp only:)
qed

end
