(* ===== verification/Js_Sort.thy ===== *)
theory Js_Sort
  imports Main "HOL-Library.Multiset"
begin

text \<open>
  \<open>Array.prototype.sort\<close> with a comparator: its result for a consistent comparator
  (\<open>js_sort\<close>), comparators combined one after the other (\<open>then_by\<close>), and the
  contract between the two as a locale. The component theories interpret it on the comparators of
  the program.
\<close>

section \<open>Sorting\<close>

type_synonym 'a comparator = "'a \<Rightarrow> 'a \<Rightarrow> int"

fun insert_by :: "'a comparator \<Rightarrow> 'a \<Rightarrow> 'a list \<Rightarrow> 'a list" where
  "insert_by cmp x [] = [x]"
| "insert_by cmp x (y # ys) = (if cmp x y \<le> 0 then x # y # ys else y # insert_by cmp x ys)"

text \<open>
  \<open>Array.prototype.sort\<close>: for a consistent comparator the language requires the stable sorted
  arrangement, which insertion from the right computes.
\<close>

definition js_sort :: "'a comparator \<Rightarrow> 'a list \<Rightarrow> 'a list" where
  "js_sort cmp xs = foldr (insert_by cmp) xs []"

definition then_by :: "'a comparator \<Rightarrow> 'a comparator \<Rightarrow> 'a comparator" where
  "then_by f g a b = (if f a b \<noteq> 0 then f a b else g a b)"

definition consistent :: "'a comparator \<Rightarrow> bool" where
  "consistent cmp \<longleftrightarrow> (\<forall>a b. cmp a b < 0 \<longleftrightarrow> 0 < cmp b a) \<and>
     (\<forall>a b d. cmp a b \<le> 0 \<longrightarrow> cmp b d \<le> 0 \<longrightarrow> cmp a d \<le> 0)"

section \<open>Stable sorting\<close>

lemma mset_insert_by [simp]: "mset (insert_by cmp x ys) = add_mset x (mset ys)"
  by (induction ys) auto

lemma mset_js_sort [simp]: "mset (js_sort cmp xs) = mset xs"
  by (induction xs) (simp_all add: js_sort_def)

lemma set_insert_by [simp]: "set (insert_by cmp x ys) = insert x (set ys)"
  by (induction ys) auto

text \<open>
  The contract of \<open>sort\<close> with its comparator: comparing the other way round gives the other
  sign, and the order it stands for is transitive. Under it the sorted arrangement is ordered and
  stable.
\<close>

locale comparator_laws =
  fixes cmp :: "'a comparator"
  assumes compare_flip: "cmp a b < 0 \<longleftrightarrow> 0 < cmp b a"
    and compare_trans: "cmp a b \<le> 0 \<Longrightarrow> cmp b d \<le> 0 \<Longrightarrow> cmp a d \<le> 0"
begin

lemma compare_total: "\<not> cmp a b \<le> 0 \<Longrightarrow> cmp b a \<le> 0"
  using compare_flip[of b a] by simp

lemma compare_zero: "cmp a b = 0 \<longleftrightarrow> cmp b a = 0"
  using compare_flip[of a b] compare_flip[of b a] by linarith

lemma sorted_insert_by:
  assumes "sorted_wrt (\<lambda>a b. cmp a b \<le> 0) ys"
  shows "sorted_wrt (\<lambda>a b. cmp a b \<le> 0) (insert_by cmp x ys)"
  using assms
proof (induction ys)
  case (Cons y ys)
  show ?case
  proof (cases "cmp x y \<le> 0")
    case True
    have "cmp x z \<le> 0" if "z \<in> set ys" for z
      using compare_trans[OF True] Cons.prems that by simp
    then show ?thesis using True Cons.prems by simp
  next
    case False
    then show ?thesis using Cons compare_total[OF False] by simp
  qed
qed simp

lemma sorted_js_sort: "sorted_wrt (\<lambda>a b. cmp a b \<le> 0) (js_sort cmp xs)"
  by (induction xs) (simp_all add: js_sort_def sorted_insert_by)

lemma stable_insert_by:
  assumes "sorted_wrt (\<lambda>a b. cmp a b \<le> 0) ys"
  shows "filter (\<lambda>z. cmp d z = 0) (insert_by cmp x ys) = filter (\<lambda>z. cmp d z = 0) (x # ys)"
  using assms
proof (induction ys)
  case (Cons y ys)
  show ?case
  proof (cases "cmp x y \<le> 0")
    case False
    have "\<not> (cmp d x = 0 \<and> cmp d y = 0)"
    proof
      assume h: "cmp d x = 0 \<and> cmp d y = 0"
      then have "cmp x d = 0" using compare_zero[of x d] by simp
      then show False using False h compare_trans[of x d y] by simp
    qed
    then show ?thesis using Cons False by simp
  qed simp
qed simp

lemma stable_js_sort: "filter (\<lambda>z. cmp d z = 0) (js_sort cmp xs) = filter (\<lambda>z. cmp d z = 0) xs"
proof (induction xs)
  case (Cons x xs)
  have "js_sort cmp (x # xs) = insert_by cmp x (js_sort cmp xs)" by (simp add: js_sort_def)
  then show ?case using stable_insert_by[OF sorted_js_sort] Cons by simp
qed (simp add: js_sort_def)

end

lemma consistent_laws: "consistent cmp \<longleftrightarrow> comparator_laws cmp"
  by (simp add: consistent_def comparator_laws_def)

lemmas consistentD = comparator_laws.compare_trans[OF consistent_laws[THEN iffD1]]
  comparator_laws.compare_flip[OF consistent_laws[THEN iffD1]]
lemmas consistent_zero = comparator_laws.compare_zero[OF consistent_laws[THEN iffD1]]

text \<open>Comparing by one comparator and then by another keeps the contract.\<close>

lemma consistent_then_by:
  assumes f: "consistent f" and g: "consistent g"
  shows "consistent (then_by f g)"
  unfolding consistent_def
proof (intro conjI allI impI)
  fix a b d
  show "then_by f g a b < 0 \<longleftrightarrow> 0 < then_by f g b a"
    using consistentD(2)[OF f, of a b] consistentD(2)[OF g, of a b] consistent_zero[OF f, of a b]
    by (simp add: then_by_def)
  assume h: "then_by f g a b \<le> 0" "then_by f g b d \<le> 0"
  have le: "f a b \<le> 0" "f b d \<le> 0" using h by (simp_all add: then_by_def split: if_splits)
  have ad: "f a d \<le> 0" by (rule consistentD(1)[OF f le])
  show "then_by f g a d \<le> 0"
  proof (cases "f a d = 0")
    case True
    then have da: "f d a \<le> 0" using consistent_zero[OF f, of a d] by simp
    have "f b a \<le> 0" "f d b \<le> 0" using consistentD(1)[OF f le(2) da] consistentD(1)[OF f da le(1)] by simp_all
    then have "f a b = 0" "f b d = 0"
      using le consistentD(2)[OF f, of a b] consistentD(2)[OF f, of b d] by linarith+
    then show ?thesis using h True consistentD(1)[OF g, of a b d] by (simp add: then_by_def)
  next
    case False
    then show ?thesis using ad by (simp add: then_by_def)
  qed
qed

lemma consistent_key: "consistent (\<lambda>a b. key a - key b)" "consistent (\<lambda>a b. key b - (key a :: int))"
  by (simp_all add: consistent_def)

lemma consistent_image: "consistent f \<Longrightarrow> consistent (\<lambda>a b. f (h a) (h b))"
  unfolding consistent_def by blast

end
