(* ===== verification/Bandix_Sort.thy ===== *)
theory Bandix_Sort
  imports Vmess_Links Js_Sort
begin

text \<open>
  The device list of the Bandix page (\<open>view/bandix/index.js\<close>): which devices count as online
  (\<open>isDeviceOnline\<close>), the orders of the table (\<open>compareIP\<close>, \<open>sortDevices\<close>),
  the device menu of the history chart (\<open>updateDeviceOptions\<close>), and the texts for a device's
  uplink and for the time it was last seen. Counters, rates and times are integers in the range
  that doubles represent exactly; a missing one that the code replaces by 0 is 0. The order of
  \<open>localeCompare\<close> is a parameter.
\<close>

section \<open>Devices\<close>

record device =
  mac :: jstr
  ip4 :: jstr
  host :: jstr
  last :: "int option"
  online_flag :: bool
  l_tx_r :: int
  l_rx_r :: int
  w_tx_r :: int
  w_rx_r :: int
  l_tx_b :: int
  l_rx_b :: int
  w_tx_b :: int
  w_rx_b :: int
  conn :: string
  uplink :: jstr
  w_ch :: int
  w_freq :: "int option"

text \<open>
  \<open>timeout\<close> is the configured time in seconds (600 without one); \<open>online_flag\<close> is
  \<open>online !== false\<close>. A time below \<open>10^12\<close> is one in seconds.
\<close>

definition to_ms :: "int \<Rightarrow> int" where
  "to_ms t = (if t < 1000000000000 then t * 1000 else t)"

definition isDeviceOnline :: "int \<Rightarrow> int option \<Rightarrow> device \<Rightarrow> bool" where
  "isDeviceOnline now timeout d =
     (case last d of
        None \<Rightarrow> online_flag d
      | Some l \<Rightarrow> 0 < l \<and> now - to_ms l \<le> (case timeout of Some t \<Rightarrow> t | None \<Rightarrow> 600) * 1000)"

text \<open>\<open>parseInt(part) || 0\<close>\<close>

definition digit_value :: "cu \<Rightarrow> int" where
  "digit_value c = (if is_digit c then c - 48 else if 97 \<le> c \<and> c \<le> 102 then c - 87 else if 65 \<le> c \<and> c \<le> 70 then c - 55 else 36)"

definition number_prefix :: "int \<Rightarrow> jstr \<Rightarrow> int" where
  "number_prefix radix s = fold (\<lambda>c n. radix * n + digit_value c) (takeWhile (\<lambda>c. digit_value c < radix) s) 0"

definition unsigned_int :: "jstr \<Rightarrow> int" where
  "unsigned_int s =
     (if starts_with (js ''0x'') s \<or> starts_with (js ''0X'') s then number_prefix 16 (drop 2 s) else number_prefix 10 s)"

definition parse_int :: "jstr \<Rightarrow> int" where
  "parse_int part =
     (case dropWhile is_ws part of
        [] \<Rightarrow> 0
      | c # t \<Rightarrow> if c = 45 then - unsigned_int t else if c = 43 then unsigned_int t else unsigned_int (c # t))"

fun first_diff :: "int list \<Rightarrow> int list \<Rightarrow> int" where
  "first_diff (x # xs) (y # ys) = (if x \<noteq> y then x - y else first_diff xs ys)"
| "first_diff _ _ = 0"

definition ip_parts :: "jstr \<Rightarrow> int list" where
  "ip_parts ip = take 4 (map parse_int (js_split [46] ip) @ [0, 0, 0, 0])"

definition compareIP :: "jstr \<Rightarrow> jstr \<Rightarrow> int" where
  "compareIP a b = first_diff (ip_parts a) (ip_parts b)"

section \<open>The orders of the table\<close>

definition online_first :: "int \<Rightarrow> int option \<Rightarrow> device comparator" where
  "online_first now timeout a b =
     (let ao = isDeviceOnline now timeout a; bo = isDeviceOnline now timeout b
      in if ao \<noteq> bo then (if ao then -1 else 1) else 0)"

definition by_ip :: "device comparator" where
  "by_ip a b = compareIP (ip4 a) (ip4 b)"

definition by_mac :: "jstr comparator \<Rightarrow> device comparator" where
  "by_mac locale_compare a b = locale_compare (mac a) (mac b)"

definition by_key :: "(device \<Rightarrow> int) \<Rightarrow> bool \<Rightarrow> device comparator" where
  "by_key key ascending a b = (if ascending then key a - key b else key b - key a)"

text \<open>The number four of the orders look at.\<close>

definition sort_key_of :: "string \<Rightarrow> (device \<Rightarrow> int) option" where
  "sort_key_of sortBy =
     (if sortBy = ''lan_speed'' then Some (\<lambda>d. l_tx_r d + l_rx_r d)
      else if sortBy = ''wan_speed'' then Some (\<lambda>d. w_tx_r d + w_rx_r d)
      else if sortBy = ''lan_traffic'' then Some (\<lambda>d. l_tx_b d + l_rx_b d)
      else if sortBy = ''wan_traffic'' then Some (\<lambda>d. w_tx_b d + w_rx_b d)
      else None)"

definition device_order :: "jstr comparator \<Rightarrow> int \<Rightarrow> int option \<Rightarrow> string \<Rightarrow> bool \<Rightarrow> device comparator" where
  "device_order locale_compare now timeout sortBy ascending =
     (case sort_key_of sortBy of
        Some key \<Rightarrow> then_by (online_first now timeout) (then_by (by_key key ascending) by_ip)
      | None \<Rightarrow>
          if sortBy = ''online'' \<and> ascending
          then then_by (\<lambda>a b. - online_first now timeout a b) (then_by by_ip (by_mac locale_compare))
          else then_by (online_first now timeout) (then_by by_ip (by_mac locale_compare)))"

definition sortDevices :: "jstr comparator \<Rightarrow> int \<Rightarrow> int option \<Rightarrow> device list \<Rightarrow> string \<Rightarrow> bool \<Rightarrow> device list" where
  "sortDevices locale_compare now timeout devices sortBy ascending =
     js_sort (device_order locale_compare now timeout sortBy ascending) devices"

section \<open>The device menu\<close>

text \<open>A menu: the values of its options with their labels, and the selected value.\<close>

record menu =
  options :: "(jstr \<times> jstr) list"
  chosen_value :: jstr

definition option_label :: "device \<Rightarrow> jstr" where
  "option_label d =
     or_else (or_else (or_else (host d) (ip4 d)) (mac d)) (js ''-'') @
     (if truthy (ip4 d) then js '' ('' @ ip4 d @ js '')'' else []) @ (if truthy (mac d) then js '' ['' @ mac d @ js '']'' else [])"

definition updateDeviceOptions :: "jstr comparator \<Rightarrow> int \<Rightarrow> int option \<Rightarrow> device list \<Rightarrow> menu \<Rightarrow> menu" where
  "updateDeviceOptions locale_compare now timeout devices m =
     (let sorted = js_sort (then_by (online_first now timeout) (then_by by_ip (by_mac locale_compare))) devices;
          desired = [] # map mac sorted
      in if map fst (options m) = desired then m
         else
           \<lparr>options = ([], js ''All Devices'') # map (\<lambda>d. (mac d, option_label d)) sorted,
            chosen_value = (if chosen_value m \<in> set desired then chosen_value m else [])\<rparr>)"

section \<open>Texts of a device\<close>

definition wifiBand :: "device \<Rightarrow> (string \<times> string) option" where
  "wifiBand d =
     (if conn d \<noteq> ''wifi'' then None
      else
        (case w_freq d of
           None \<Rightarrow> None
         | Some f \<Rightarrow>
             if 2400 \<le> f \<and> f < 2500 then Some (''2.4 GHz'', ''g24'')
             else if 4900 \<le> f \<and> f < 5925 then Some (''5 GHz'', ''g5'')
             else if 5925 \<le> f \<and> f \<le> 7125 then Some (''6 GHz'', ''g6'')
             else None))"

definition formatDeviceUplinkCh :: "device \<Rightarrow> jstr" where
  "formatDeviceUplinkCh d =
     js_join [32, 0xB7, 32]
       ((if trim (uplink d) \<noteq> [] then [trim (uplink d)] else []) @
        (if conn d = ''wifi'' \<and> 0 < w_ch d
         then [case wifiBand d of Some (label, css) \<Rightarrow> js label | None \<Rightarrow> js ''WiFi Channel '' @ dec_text (nat (w_ch d))] else []))"

definition formatLastOnlineTime :: "int \<Rightarrow> int \<Rightarrow> jstr" where
  "formatLastOnlineTime now t =
     (if t \<le> 0 then js ''Never Online''
      else
        (let diff = now - to_ms t; minutes = diff div 60000; hours = diff div 3600000; days = diff div 86400000;
             months = days div 30; years = days div 365; count = (\<lambda>n u. dec_text (nat n) @ js u)
         in if minutes < 1 then js ''Just Now''
            else if minutes \<le> 10 \<or> hours < 1 then count minutes ''min ago''
            else if days < 1 then count hours ''h ago''
            else if months < 1 then count days ''days ago''
            else if years < 1 then count months ''months ago''
            else count years ''years ago''))"

section \<open>The comparators of the table\<close>

lemma first_diff_facts:
  assumes "length a = length b" "length b = length d"
  shows "first_diff a b < 0 \<longleftrightarrow> 0 < first_diff b a"
    "first_diff a b \<le> 0 \<Longrightarrow> first_diff b d \<le> 0 \<Longrightarrow> first_diff a d \<le> 0"
proof -
  show "first_diff a b < 0 \<longleftrightarrow> 0 < first_diff b a"
    using assms(1) by (induction a b rule: list_induct2) simp_all
  show "first_diff a b \<le> 0 \<Longrightarrow> first_diff b d \<le> 0 \<Longrightarrow> first_diff a d \<le> 0"
    using assms by (induction a b d rule: list_induct3) (simp_all split: if_splits)
qed

lemma ip_parts_length [simp]: "length (ip_parts s) = 4"
  by (simp add: ip_parts_def)

text \<open>The comparators the table is ordered by keep the contract.\<close>

interpretation ip: comparator_laws compareIP
  using first_diff_facts[OF trans[OF ip_parts_length ip_parts_length[symmetric]] trans[OF ip_parts_length ip_parts_length[symmetric]]]
  by unfold_locales (auto simp: compareIP_def)

lemma consistent_compareIP: "consistent compareIP"
  unfolding consistent_laws by (rule ip.comparator_laws_axioms)

lemma online_first_key:
  "online_first now timeout = (\<lambda>a b. (if isDeviceOnline now timeout b then 1 else 0) - (if isDeviceOnline now timeout a then 1 else 0))"
  by (intro ext) (simp add: online_first_def Let_def)

interpretation online: comparator_laws "online_first now timeout" for now timeout
  by unfold_locales (auto simp: online_first_key split: if_splits)

interpretation number: comparator_laws "by_key key ascending" for key ascending
  by unfold_locales (auto simp: by_key_def split: if_splits)

lemma consistent_online_first:
  "consistent (online_first now timeout)" "consistent (\<lambda>a b. - online_first now timeout a b)"
proof -
  show "consistent (online_first now timeout)"
    unfolding consistent_laws by (rule online.comparator_laws_axioms)
  show "consistent (\<lambda>a b. - online_first now timeout a b)"
    unfolding online_first_key minus_diff_eq by (rule consistent_key)
qed

lemma consistent_by_ip: "consistent by_ip"
  unfolding by_ip_def[abs_def] by (rule consistent_image[OF consistent_compareIP])

lemma consistent_by_mac: "consistent l \<Longrightarrow> consistent (by_mac l)"
  unfolding by_mac_def[abs_def] by (rule consistent_image)

lemma consistent_by_key: "consistent (by_key key ascending)"
  unfolding consistent_laws by (rule number.comparator_laws_axioms)

lemma consistent_device_order: "consistent l \<Longrightarrow> consistent (device_order l now timeout sortBy ascending)"
  unfolding device_order_def
  by (simp split: option.split)
    (intro conjI allI impI consistent_then_by consistent_online_first consistent_by_key consistent_by_ip consistent_by_mac)

section \<open>The order of the table, in its own words\<close>

text \<open>
  One address comes before another when it has the smaller number at the first of the four places
  where they differ.
\<close>

definition ip_before :: "jstr \<Rightarrow> jstr \<Rightarrow> bool" where
  "ip_before a b \<longleftrightarrow> (\<exists>k<4. ip_parts a ! k < ip_parts b ! k \<and> (\<forall>j<k. ip_parts a ! j = ip_parts b ! j))"

text \<open>
  A device may stand before another: by state, of one state by the number of the column, of equal
  numbers by address; in the columns without a number by address and then by hardware address.
\<close>

definition may_precede :: "jstr comparator \<Rightarrow> (device \<Rightarrow> bool) \<Rightarrow> string \<Rightarrow> bool \<Rightarrow> device \<Rightarrow> device \<Rightarrow> bool" where
  "may_precede locale_compare on column ascending a b \<longleftrightarrow>
     (if on a \<noteq> on b then (if column = ''online'' \<and> ascending then on b else on a)
      else
        (case map_of [(''lan_speed'', \<lambda>d. l_tx_r d + l_rx_r d), (''wan_speed'', \<lambda>d. w_tx_r d + w_rx_r d),
                      (''lan_traffic'', \<lambda>d. l_tx_b d + l_rx_b d), (''wan_traffic'', \<lambda>d. w_tx_b d + w_rx_b d)] column of
           Some n \<Rightarrow> (if ascending then n a < n b else n b < n a) \<or> n a = n b \<and> \<not> ip_before (ip4 b) (ip4 a)
         | None \<Rightarrow> ip_before (ip4 a) (ip4 b) \<or> \<not> ip_before (ip4 b) (ip4 a) \<and> locale_compare (mac a) (mac b) \<le> 0))"

lemma first_diff_nth:
  "length a = length b \<Longrightarrow>
     first_diff a b < 0 \<longleftrightarrow> (\<exists>k<length a. a ! k < b ! k \<and> (\<forall>j<k. a ! j = b ! j))"
proof (induction a b rule: list_induct2)
  case (Cons x xs y ys)
  then show ?case by (auto simp: Ex_less_Suc2 All_less_Suc2)
qed simp

lemma ip_before_compare: "ip_before a b \<longleftrightarrow> compareIP a b < 0"
  using first_diff_nth[of "ip_parts a" "ip_parts b"] by (simp add: ip_before_def compareIP_def)

lemma compareIP_pos: "0 < compareIP a b \<longleftrightarrow> ip_before b a"
  using ip.compare_flip[of b a] by (simp add: ip_before_compare)

lemma device_order_le:
  "device_order l now timeout sortBy ascending a b \<le> 0 \<longleftrightarrow> may_precede l (isDeviceOnline now timeout) sortBy ascending a b"
proof -
  have ip: "ip_before (ip4 a) (ip4 b) \<longleftrightarrow> compareIP (ip4 a) (ip4 b) < 0" "ip_before (ip4 b) (ip4 a) \<longleftrightarrow> 0 < compareIP (ip4 a) (ip4 b)"
    by (simp_all only: ip_before_compare[of "ip4 a"] compareIP_pos)
  have keys: "map_of [(''lan_speed'', \<lambda>d. l_tx_r d + l_rx_r d), (''wan_speed'', \<lambda>d. w_tx_r d + w_rx_r d),
      (''lan_traffic'', \<lambda>d. l_tx_b d + l_rx_b d), (''wan_traffic'', \<lambda>d. w_tx_b d + w_rx_b d)] sortBy = sort_key_of sortBy"
    by (simp add: sort_key_of_def)
  have online: "sort_key_of ''online'' = None" by (simp add: sort_key_of_def)
  show ?thesis
  proof (cases "isDeviceOnline now timeout a = isDeviceOnline now timeout b")
    case True
    then have z: "online_first now timeout a b = 0" by (simp add: online_first_def)
    show ?thesis
    proof (cases "sort_key_of sortBy")
      case None
      have "device_order l now timeout sortBy ascending a b =
          (if compareIP (ip4 a) (ip4 b) \<noteq> 0 then compareIP (ip4 a) (ip4 b) else l (mac a) (mac b))"
        using None z by (simp add: device_order_def then_by_def by_ip_def by_mac_def)
      then show ?thesis unfolding may_precede_def keys None ip using True by auto
    next
      case (Some n)
      have "device_order l now timeout sortBy ascending a b =
          (if by_key n ascending a b \<noteq> 0 then by_key n ascending a b else compareIP (ip4 a) (ip4 b))"
        using Some z by (simp add: device_order_def then_by_def by_ip_def)
      then show ?thesis unfolding may_precede_def keys Some ip using True by (auto simp: by_key_def not_less)
    qed
  next
    case False
    then show ?thesis
      unfolding may_precede_def keys using online
      by (cases "sort_key_of sortBy") (auto simp: device_order_def then_by_def online_first_def Let_def)
  qed
qed

text \<open>A dotted address is read as its four numbers.\<close>

lemma number_prefix_digits:
  assumes "\<forall>c\<in>set s. is_digit c"
  shows "number_prefix 10 s = fold (\<lambda>c n. 10 * n + (c - 48)) s 0"
proof -
  have d: "digit_value c = c - 48" "digit_value c < 10" if "is_digit c" for c
    using that by (simp_all add: digit_value_def) (simp add: is_digit_def)
  then have "takeWhile (\<lambda>c. digit_value c < 10) s = s" using assms by (simp add: takeWhile_eq_all_conv)
  moreover have "fold (\<lambda>c n. 10 * n + digit_value c) s m = fold (\<lambda>c n. 10 * n + (c - 48)) s m" for m
    using assms by (induction s arbitrary: m) (simp_all add: d)
  ultimately show ?thesis by (simp add: number_prefix_def)
qed

lemma decimal_value: "fold (\<lambda>c n. 10 * n + (c - 48)) (dec_text n) 0 = int n"
proof (induction n rule: dec_text.induct)
  case (1 n)
  show ?case
  proof (cases "n < 10")
    case True
    then show ?thesis by (subst dec_text.simps) simp
  next
    case False
    have "10 * int (n div 10) + int (n mod 10) = int n" by (metis mult_div_mod_eq of_nat_add of_nat_mult of_nat_numeral)
    then show ?thesis using 1 False by (subst dec_text.simps) simp
  qed
qed

lemma parse_int_dec_text: "parse_int (dec_text n) = int n"
proof -
  obtain d ds where t: "dec_text n = d # ds" "is_digit d" "\<forall>c\<in>set ds. is_digit c" by (rule dec_text_Cons)
  have first: "\<not> is_ws d" "d \<noteq> 45" "d \<noteq> 43" using t(2) by (auto simp: is_digit_def is_ws_def)
  have "\<not> starts_with (js ''0x'') (d # ds)" "\<not> starts_with (js ''0X'') (d # ds)"
    using t(3) by (cases ds; auto simp: starts_with_def js_def is_digit_def)+
  then show ?thesis
    using t first number_prefix_digits[of "dec_text n"] decimal_value[of n]
    by (simp add: parse_int_def unsigned_int_def)
qed

lemma ip_parts_dotted:
  assumes "length ns = 4"
  shows "ip_parts (js_join [46] (map dec_text ns)) = map int ns"
proof -
  have "js_split [46] (js_join [46] (map dec_text ns)) = map dec_text ns"
    using assms dec_text_digits[of 46] by (intro js_split_join) (auto simp: is_digit_def)
  then show ?thesis using assms by (simp add: ip_parts_def parse_int_dec_text comp_def)
qed

section \<open>Claims on the list\<close>

text \<open>
  C19: the table is a rearrangement of the devices. In the ascending order by state the devices that
  are not online come first, in every other order the online ones; devices of one state are ordered by
  speed or traffic, in the direction chosen, where the column has one; then, always upwards, by the
  numbers of the address, and in the other columns last by hardware address. Devices no rule tells
  apart keep their order. An address of four decimal numbers is compared by these numbers.
\<close>

theorem sortDevices_order:
  fixes now :: int and timeout :: "int option" and devices :: "device list" and sortBy :: string and ascending :: bool
  assumes "consistent locale_compare"
  defines "r \<equiv> sortDevices locale_compare now timeout devices sortBy ascending"
    and "before \<equiv> may_precede locale_compare (isDeviceOnline now timeout) sortBy ascending"
  shows "mset r = mset devices \<and> sorted_wrt before r \<and>
    (\<forall>d. filter (\<lambda>x. before d x \<and> before x d) r = filter (\<lambda>x. before d x \<and> before x d) devices) \<and>
    (\<forall>ns. length ns = 4 \<longrightarrow> ip_parts (js_join [46] (map dec_text ns)) = map int ns)"
proof -
  let ?cmp = "device_order locale_compare now timeout sortBy ascending"
  have c: "comparator_laws ?cmp"
    using consistent_device_order[OF assms(1)] by (simp add: consistent_laws)
  have le: "before a b \<longleftrightarrow> ?cmp a b \<le> 0" for a b by (simp add: before_def device_order_le)
  have "before d x \<and> before x d \<longleftrightarrow> ?cmp d x = 0" for d x
    using comparator_laws.compare_flip[OF c, of d x] comparator_laws.compare_flip[OF c, of x d] by (auto simp: le)
  then show ?thesis
    using comparator_laws.sorted_js_sort[OF c, of devices] comparator_laws.stable_js_sort[OF c, of _ devices]
    by (simp add: r_def sortDevices_def le[abs_def] ip_parts_dotted)
qed

definition example_device :: "jstr \<Rightarrow> jstr \<Rightarrow> int \<Rightarrow> int \<Rightarrow> device" where
  "example_device m ip l speed =
     \<lparr>mac = m, ip4 = ip, host = [], last = Some l, online_flag = True, l_tx_r = speed, l_rx_r = 0, w_tx_r = 0, w_rx_r = 0,
      l_tx_b = 0, l_rx_b = 0, w_tx_b = 0, w_rx_b = 0, conn = ''wifi'', uplink = [], w_ch = 0, w_freq = None\<rparr>"

theorem sortDevices_order_witness:
  "(let a = example_device [65] [50] 4990 9; b = example_device [66] [49] 1 1; c = example_device [67] [49] 4990 9
    in mset (sortDevices (\<lambda>a b. 0) 5000000 None [a, b, c] ''lan_speed'' False) = {#a, b, c#} \<and>
      hd (sortDevices (\<lambda>a b. 0) 5000000 None [a, b, c] ''lan_speed'' False) = c)"
proof -
  define a where "a = example_device [65] [50] 4990 9"
  define b where "b = example_device [66] [49] 1 1"
  define c where "c = example_device [67] [49] 4990 9"
  let ?r = "sortDevices (\<lambda>a b. 0) 5000000 None [a, b, c] ''lan_speed'' False"
  let ?before = "may_precede (\<lambda>a b. 0) (isDeviceOnline 5000000 None) ''lan_speed'' False"
  have k: "consistent (\<lambda>a b :: jstr. 0)" by (simp add: consistent_def)
  from sortDevices_order[OF k, of 5000000 None "[a, b, c]" "''lan_speed''" False]
  have m: "mset ?r = {#a, b, c#}" and s: "sorted_wrt ?before ?r" by simp_all
  have on: "isDeviceOnline 5000000 None a" "\<not> isDeviceOnline 5000000 None b" "isDeviceOnline 5000000 None c"
    by (simp_all add: isDeviceOnline_def to_ms_def a_def b_def c_def example_device_def)
  have ip: "ip_before [49] [50]" "ip4 a = [50]" "ip4 c = [49]"
    by (simp_all add: ip_before_compare compareIP_def ip_parts_def js_split_absent parse_int_def unsigned_int_def
        number_prefix_def digit_value_def is_digit_def is_ws_def starts_with_def js_def a_def c_def example_device_def)
  have speed: "l_tx_r a + l_rx_r a = 9" "l_tx_r c + l_rx_r c = 9"
    by (simp_all add: a_def c_def example_device_def)
  have first: "\<not> ?before a c" "\<not> ?before b c"
    using on ip speed by (simp_all add: may_precede_def)
  obtain h t where r: "?r = h # t" using m by (cases ?r) auto
  have "h = c"
  proof (rule ccontr)
    assume "h \<noteq> c"
    have "set ?r = {a, b, c}" by (metis m set_mset_add_mset_insert set_mset_empty set_mset_mset)
    then have "c \<in> set t" "h = a \<or> h = b" using r \<open>h \<noteq> c\<close> by auto
    then show False using s first r by auto
  qed
  then show ?thesis using m r unfolding Let_def a_def[symmetric] b_def[symmetric] c_def[symmetric] by simp
qed

text \<open>Rebuilding the menu keeps the selected device if it is still there, and else selects all devices.\<close>

lemma updateDeviceOptions_keeps:
  assumes "chosen_value m \<in> fst ` set (options m)"
  shows "chosen_value (updateDeviceOptions l now timeout devices m) =
    (if chosen_value m \<in> mac ` set devices then chosen_value m else [])"
proof -
  define sorted where "sorted = js_sort (then_by (online_first now timeout) (then_by by_ip (by_mac l))) devices"
  have "set sorted = set devices" unfolding sorted_def by (metis mset_js_sort set_mset_mset)
  then have d: "set ([] # map mac sorted) = insert [] (mac ` set devices)" by simp
  show ?thesis
  proof (cases "map fst (options m) = [] # map mac sorted")
    case True
    then have "chosen_value m \<in> insert [] (mac ` set devices)"
      using assms d by (metis list.set_map)
    then show ?thesis using True by (auto simp: updateDeviceOptions_def sorted_def[symmetric])
  next
    case False
    then show ?thesis using d by (auto simp: updateDeviceOptions_def sorted_def[symmetric] Let_def)
  qed
qed

end
