(* ===== verification/Bandix_Rules.thy ===== *)
theory Bandix_Rules
  imports Vmess_Links
begin

text \<open>
  The scheduled speed limits of the Bandix page (\<open>view/bandix/index.js\<close>): when a rule is in
  force (\<open>isRuleActive\<close>), which rules are in force for a device, the limits they amount to
  (\<open>mergeActiveRulesLimits\<close>) and the time slot shown for them. The clock is a parameter; a
  missing text is the empty one and a missing limit 0.
\<close>

section \<open>Rules\<close>

record time_slot =
  slot_days :: "int list"
  slot_start :: jstr
  slot_end :: jstr

record rule =
  rule_mac :: jstr
  slot :: "time_slot option"
  wan_tx_rate_limit :: int
  wan_rx_rate_limit :: int

text \<open>The local time: \<open>getDay()\<close> (0 is Sunday), \<open>getHours()\<close>, \<open>getMinutes()\<close>.\<close>

record local_time =
  week_day :: int
  hours :: nat
  minutes :: nat

text \<open>\<open>a <= b\<close> on strings compares code units.\<close>

fun str_le :: "jstr \<Rightarrow> jstr \<Rightarrow> bool" where
  "str_le [] b \<longleftrightarrow> True"
| "str_le (x # a) [] \<longleftrightarrow> False"
| "str_le (x # a) (y # b) \<longleftrightarrow> x < y \<or> x = y \<and> str_le a b"

text \<open>\<open>('0' + n).slice(-2)\<close>\<close>

definition two_digits :: "nat \<Rightarrow> jstr" where
  "two_digits n = (let t = 48 # dec_text n in drop (length t - 2) t)"

definition clock_text :: "nat \<Rightarrow> nat \<Rightarrow> jstr" where
  "clock_text h m = two_digits h @ 58 # two_digits m"

definition isRuleActive :: "local_time \<Rightarrow> rule \<Rightarrow> bool" where
  "isRuleActive now r =
     (case slot r of
        None \<Rightarrow> False
      | Some ts \<Rightarrow>
          (let dayOfWeek = (if week_day now = 0 then 7 else week_day now);
               currentTime = clock_text (hours now) (minutes now)
           in if dayOfWeek \<notin> set (slot_days ts) then False
              else if \<not> truthy (slot_start ts) \<or> \<not> truthy (slot_end ts) then False
              else if str_le (slot_start ts) (slot_end ts)
              then str_le (slot_start ts) currentTime \<and> str_le currentTime (slot_end ts)
              else str_le (slot_start ts) currentTime \<or> str_le currentTime (slot_end ts)))"

definition getActiveRulesForDevice :: "local_time \<Rightarrow> rule list \<Rightarrow> jstr \<Rightarrow> rule list" where
  "getActiveRulesForDevice now rules mac = filter (\<lambda>r. rule_mac r = mac \<and> isRuleActive now r) rules"

text \<open>\<open>Math.min\<close> of the limits above 0, or 0 without one.\<close>

definition least_limit :: "int list \<Rightarrow> int" where
  "least_limit limits =
     (let ls = filter (\<lambda>l. 0 < l) limits in if ls = [] then 0 else fold min ls (hd ls))"

definition mergeActiveRulesLimits :: "rule list \<Rightarrow> int \<times> int" where
  "mergeActiveRulesLimits rules =
     (least_limit (map wan_tx_rate_limit rules), least_limit (map wan_rx_rate_limit rules))"

definition slot_times :: "rule \<Rightarrow> jstr \<times> jstr" where
  "slot_times r = (case slot r of None \<Rightarrow> ([], []) | Some ts \<Rightarrow> (slot_start ts, slot_end ts))"

definition getTimeSlotDisplayText :: "rule list \<Rightarrow> jstr" where
  "getTimeSlotDisplayText rules =
     (case rules of
        [] \<Rightarrow> []
      | r # rest \<Rightarrow>
          (let (s, e) = slot_times r; count = js '' ('' @ dec_text (length rules) @ js '' rules)''
           in if rest = [] then s @ js ''-'' @ e
              else if \<forall>q\<in>set rest. slot_times q = (s, e) then s @ js ''-'' @ e @ count
              else js ''Multiple time slots'' @ count))"

section \<open>Times as texts\<close>

lemma two_digits_eq: "n < 100 \<Longrightarrow> two_digits n = [48 + int (n div 10), 48 + int (n mod 10)]"
proof -
  assume n: "n < 100"
  show ?thesis
  proof (cases "n < 10")
    case True
    then show ?thesis by (simp add: two_digits_def dec_text.simps)
  next
    case False
    then show ?thesis using n by (simp add: two_digits_def dec_text.simps[of n] dec_text.simps[of "n div 10"])
  qed
qed

text \<open>On times of two digits each the order of the texts is the order of the times.\<close>

lemma clock_text_le:
  assumes "h < 24" "m < 60" "h' < 24" "m' < 60"
  shows "str_le (clock_text h m) (clock_text h' m') \<longleftrightarrow> 60 * h + m \<le> 60 * h' + m'"
proof -
  have l: "a < a' \<or> a = a' \<and> b < b' \<longleftrightarrow> 10 * a + b < 10 * a' + b'" if "b < 10" "b' < 10" for a b a' b' :: nat
    using that by linarith
  have d: "n div 10 < n' div 10 \<or> n div 10 = n' div 10 \<and> n mod 10 < n' mod 10 \<longleftrightarrow> n < n'" for n n' :: nat
    by (subst l) simp_all
  have e: "n div 10 = n' div 10 \<and> n mod 10 = n' mod 10 \<longleftrightarrow> n = n'" for n n' :: nat
    by (metis div_mult_mod_eq)
  have "str_le (clock_text h m) (clock_text h' m') \<longleftrightarrow>
      (h div 10 < h' div 10 \<or> h div 10 = h' div 10 \<and> h mod 10 < h' mod 10) \<or>
      (h div 10 = h' div 10 \<and> h mod 10 = h' mod 10) \<and>
        ((m div 10 < m' div 10 \<or> m div 10 = m' div 10 \<and> m mod 10 < m' mod 10) \<or> m div 10 = m' div 10 \<and> m mod 10 = m' mod 10)"
    using assms by (auto simp: clock_text_def two_digits_eq)
  also have "\<dots> \<longleftrightarrow> h < h' \<or> h = h' \<and> (m < m' \<or> m = m')"
    using assms d[of h h'] d[of m m'] e[of h h'] e[of m m'] by simp
  also have "\<dots> \<longleftrightarrow> 60 * h + m \<le> 60 * h' + m'"
    using assms by linarith
  finally show ?thesis .
qed

lemma clock_text_truthy [simp]: "truthy (clock_text h m)"
  by (simp add: clock_text_def truthy_def)

lemma fold_min_least: "fold min ls (x :: int) \<le> x \<and> (\<forall>l\<in>set ls. fold min ls x \<le> l) \<and> fold min ls x \<in> insert x (set ls)"
proof (induction ls arbitrary: x)
  case (Cons a ls)
  from Cons[of "min a x"] show ?case by (auto simp: min_def split: if_splits)
qed simp

section \<open>Claims on the rules\<close>

text \<open>
  C21: a rule with a start and an end in hours and minutes is in force exactly on its days between
  the two, both included, or, when it ends before it starts, outside of the time between its end and
  its start; the day is that of the moment, also after midnight.
\<close>

theorem rule_active_iff:
  assumes "slot r = Some \<lparr>slot_days = ds, slot_start = clock_text h m, slot_end = clock_text h' m'\<rparr>"
    and "h < 24" "m < 60" "h' < 24" "m' < 60" "hours now < 24" "minutes now < 60"
  shows "isRuleActive now r \<longleftrightarrow>
    (if week_day now = 0 then 7 else week_day now) \<in> set ds \<and>
    (let t = 60 * hours now + minutes now; s = 60 * h + m; e = 60 * h' + m'
     in if s \<le> e then s \<le> t \<and> t \<le> e else s \<le> t \<or> t \<le> e)"
  using assms by (simp add: isRuleActive_def Let_def clock_text_le)

definition night_rule :: rule where
  "night_rule = \<lparr>rule_mac = [], slot = Some \<lparr>slot_days = [1], slot_start = clock_text 22 0, slot_end = clock_text 6 0\<rparr>,
     wan_tx_rate_limit = 0, wan_rx_rate_limit = 1000\<rparr>"

text \<open>
  The night from Monday to Tuesday: a rule for Monday, 22:00 to 06:00, is not in force on Tuesday at
  03:00, but is on Monday at 03:00.
\<close>

theorem rule_active_iff_witness:
  "isRuleActive \<lparr>week_day = 1, hours = 23, minutes = 0\<rparr> night_rule \<and> \<not> isRuleActive \<lparr>week_day = 2, hours = 3, minutes = 0\<rparr> night_rule \<and>
   isRuleActive \<lparr>week_day = 1, hours = 3, minutes = 0\<rparr> night_rule"
  using rule_active_iff[of night_rule "[1]" 22 0 6 0 "\<lparr>week_day = 1, hours = 23, minutes = 0\<rparr>"]
    rule_active_iff[of night_rule "[1]" 22 0 6 0 "\<lparr>week_day = 2, hours = 3, minutes = 0\<rparr>"]
    rule_active_iff[of night_rule "[1]" 22 0 6 0 "\<lparr>week_day = 1, hours = 3, minutes = 0\<rparr>"]
  by (simp add: night_rule_def Let_def)

text \<open>
  The limit in one direction is the smallest of the limits above 0, and 0 when there is none.
\<close>

lemma least_limit_min:
  "least_limit ls = (if {l \<in> set ls. 0 < l} = {} then 0 else Min {l \<in> set ls. 0 < l})"
proof (cases "filter (\<lambda>l. 0 < l) ls")
  case Nil
  then have "{l \<in> set ls. 0 < l} = {}" by (auto simp: filter_empty_conv)
  then show ?thesis using Nil by (simp add: least_limit_def)
next
  case (Cons x xs)
  then have s: "{l \<in> set ls. 0 < l} = set (x # xs)" by (metis set_filter)
  have "Min (set (x # xs)) = fold min (x # xs) x"
    using fold_min_least[of "x # xs" x] by (intro Min_eqI) auto
  then show ?thesis using Cons s by (simp add: least_limit_def)
qed

end
