(* ===== verification/Bandix_Increments.thy ===== *)
theory Bandix_Increments
  imports Main "HOL-Library.Multiset"
begin

text \<open>
  The traffic timeline of the Bandix page (\<open>view/bandix/index.js\<close>): a long range is asked for
  in chunks, one request after the other, whose answers are merged and sorted
  (\<open>buildTrafficIncrementsChunks\<close>, \<open>mergeIncrementsResponse\<close>,
  \<open>fetchTrafficIncrementsChunked\<close>); entries of different versions of the service are brought
  to one form (\<open>normalizeTrafficIncrementItem\<close>). The service is a parameter: \<open>None\<close> is a
  rejected call, \<open>Some None\<close> an empty answer. Times are in milliseconds; a missing number that
  the code treats as 0 is 0, a missing text the empty one.
\<close>

section \<open>Entries\<close>

record increment =
  ts_ms :: int
  i_start :: int
  i_end :: int
  rx_bytes :: "int option"
  tx_bytes :: "int option"
  total_bytes :: "int option"
  w_rx_b :: int
  l_rx_b :: int
  w_tx_b :: int
  l_tx_b :: int

definition normalizeTrafficIncrementItem :: "increment \<Rightarrow> increment" where
  "normalizeTrafficIncrementItem i =
     (let ts = (if ts_ms i \<noteq> 0 then ts_ms i else if i_start i \<noteq> 0 then i_start i else i_end i);
          rx = (case rx_bytes i of Some n \<Rightarrow> n | None \<Rightarrow> w_rx_b i + l_rx_b i);
          tx = (case tx_bytes i of Some n \<Rightarrow> n | None \<Rightarrow> w_tx_b i + l_tx_b i);
          total = (case total_bytes i of Some n \<Rightarrow> n | None \<Rightarrow> rx + tx)
      in i\<lparr>ts_ms := ts, rx_bytes := Some rx, tx_bytes := Some tx, total_bytes := Some total\<rparr>)"

text \<open>A list may hold empty entries, which are dropped.\<close>

definition normalizeTrafficIncrementsList :: "increment option list option \<Rightarrow> increment list" where
  "normalizeTrafficIncrementsList increments =
     (case increments of
        None \<Rightarrow> []
      | Some is \<Rightarrow> map normalizeTrafficIncrementItem (map the (filter (\<lambda>i. i \<noteq> None) is)))"

section \<open>Chunks\<close>

function chunks_from :: "int \<Rightarrow> int \<Rightarrow> int \<Rightarrow> (int \<times> int) list" where
  "chunks_from w s e = (if s < e \<and> 0 < w then (s, min (s + w) e) # chunks_from w (s + w) e else [])"
  by pat_completeness auto
termination
  by (relation "measure (\<lambda>(w, s, e). nat (e - s))") auto

declare chunks_from.simps [simp del]

definition chunk_ms :: "string \<Rightarrow> int" where
  "chunk_ms aggregation = (if aggregation = ''daily'' then 60 * 24 * 60 * 60 * 1000 else 14 * 24 * 60 * 60 * 1000)"

definition buildTrafficIncrementsChunks :: "int \<Rightarrow> int \<Rightarrow> string \<Rightarrow> (int \<times> int) list option" where
  "buildTrafficIncrementsChunks startMs endMs aggregation =
     (if startMs = 0 \<or> endMs = 0 \<or> endMs \<le> startMs \<or> endMs - startMs \<le> chunk_ms aggregation then None
      else Some (chunks_from (chunk_ms aggregation) startMs endMs))"

section \<open>Answers\<close>

record increments =
  range_start :: int
  range_end :: int
  agg :: string
  for_mac :: string
  net :: string
  network_type :: string
  inc :: "increment list"
  t_rx_b :: int
  t_tx_b :: int
  t_b :: int

definition no_increments :: increments where
  "no_increments = \<lparr>range_start = 0, range_end = 0, agg = [], for_mac = [], net = [], network_type = [], inc = [],
     t_rx_b = 0, t_tx_b = 0, t_b = 0\<rparr>"

definition mergeIncrementsResponse :: "increments \<Rightarrow> increments \<Rightarrow> increments" where
  "mergeIncrementsResponse base part =
     \<lparr>range_start = (if range_start part \<noteq> 0 \<and> (range_start base = 0 \<or> range_start part < range_start base)
         then range_start part else range_start base),
      range_end = (if range_end part \<noteq> 0 \<and> (range_end base = 0 \<or> range_end part > range_end base)
         then range_end part else range_end base),
      agg = (if agg base = [] then agg part else agg base),
      for_mac = (if for_mac base = [] then for_mac part else for_mac base),
      net = (if net base = [] then net part else net base),
      network_type = (if network_type base = [] then network_type part else network_type base),
      inc = inc base @ inc part,
      t_rx_b = t_rx_b base + t_rx_b part, t_tx_b = t_tx_b base + t_tx_b part, t_b = t_b base + t_b part\<rparr>"

type_synonym service = "int \<Rightarrow> int \<Rightarrow> increments option option"

text \<open>
  The chain of requests: the merged answer (\<open>None\<close> when a request is rejected, after which none
  is sent), the requests sent and the progress reported.
\<close>

fun run_chunks :: "service \<Rightarrow> nat \<Rightarrow> (int \<times> int) list \<Rightarrow> increments \<Rightarrow> nat \<Rightarrow>
    increments option \<times> (int \<times> int) list \<times> (nat \<times> nat) list" where
  "run_chunks svc n [] acc finished = (Some acc, [], [])"
| "run_chunks svc n (c # cs) acc finished =
     (case svc (fst c) (snd c) of
        None \<Rightarrow> (None, [c], [])
      | Some part \<Rightarrow>
          (let (r, sent, progress) = run_chunks svc n cs
                 (mergeIncrementsResponse acc (case part of Some p \<Rightarrow> p | None \<Rightarrow> no_increments)) (finished + 1)
           in (r, c # sent, (finished + 1, n) # progress)))"

definition entry_time :: "increment \<Rightarrow> int" where
  "entry_time i = (if i_start i \<noteq> 0 then i_start i else if ts_ms i \<noteq> 0 then ts_ms i else i_end i)"

text \<open>
  The whole fetch. The sort by a difference of numbers is stable (\<open>sort_key\<close>).
\<close>

definition fetchTrafficIncrementsChunked :: "service \<Rightarrow> int \<Rightarrow> int \<Rightarrow> string \<Rightarrow>
    increments option option \<times> (int \<times> int) list \<times> (nat \<times> nat) list" where
  "fetchTrafficIncrementsChunked svc startMs endMs aggregation =
     (case buildTrafficIncrementsChunks startMs endMs aggregation of
        None \<Rightarrow> (svc startMs endMs, [(startMs, endMs)], [])
      | Some chunks \<Rightarrow>
          (let merged = no_increments\<lparr>range_start := startMs, range_end := endMs, agg := aggregation\<rparr>;
               (r, sent, progress) = run_chunks svc (length chunks) chunks merged 0
           in (map_option (\<lambda>m. Some (m\<lparr>inc := sort_key entry_time (inc m)\<rparr>)) r, sent, (0, length chunks) # progress)))"

section \<open>The chunks cover the range\<close>

text \<open>Each chunk begins where the one before it ends.\<close>

fun consecutive :: "int \<Rightarrow> (int \<times> int) list \<Rightarrow> int \<Rightarrow> bool" where
  "consecutive s [] e \<longleftrightarrow> s = e"
| "consecutive s ((a, b) # cs) e \<longleftrightarrow> a = s \<and> a < b \<and> consecutive b cs e"

lemma consecutive_le: "consecutive s cs e \<Longrightarrow> s \<le> e"
  by (induction s cs e rule: consecutive.induct) auto

lemma chunks_from_done: "e \<le> s \<Longrightarrow> chunks_from w s e = []"
  by (simp add: chunks_from.simps)

lemma chunks_from_consecutive: "0 < w \<Longrightarrow> s \<le> e \<Longrightarrow> consecutive s (chunks_from w s e) e"
proof (induction w s e rule: chunks_from.induct)
  case (1 w s e)
  show ?case
  proof (cases "s < e")
    case True
    then have u: "chunks_from w s e = (s, min (s + w) e) # chunks_from w (s + w) e"
      using 1(2) by (subst chunks_from.simps) simp
    show ?thesis
    proof (cases "s + w \<le> e")
      case True
      then show ?thesis using u \<open>s < e\<close> 1 by simp
    next
      case False
      then show ?thesis using u \<open>s < e\<close> by (simp add: chunks_from_done)
    qed
  qed (use 1 in \<open>simp add: chunks_from_done\<close>)
qed

lemma chunks_from_size: "c \<in> set (chunks_from w s e) \<Longrightarrow> s \<le> fst c \<and> snd c \<le> e \<and> snd c - fst c \<le> w"
proof (induction w s e rule: chunks_from.induct)
  case (1 w s e)
  then have "s < e \<and> 0 < w" by (subst (asm) (2) chunks_from.simps) (simp split: if_splits)
  then show ?case using 1 by (subst (asm) (2) chunks_from.simps) auto
qed

lemma chunks_from_full: "c \<in> set (butlast (chunks_from w s e)) \<Longrightarrow> snd c - fst c = w"
proof (induction w s e rule: chunks_from.induct)
  case (1 w s e)
  show ?case
  proof (cases "s < e \<and> 0 < w")
    case go: True
    then have u: "chunks_from w s e = (s, min (s + w) e) # chunks_from w (s + w) e"
      by (subst chunks_from.simps) simp
    show ?thesis
    proof (cases "s + w < e")
      case True
      then show ?thesis using 1(1)[OF go] 1(2) u by (auto split: if_splits)
    next
      case False
      then show ?thesis using 1(2) u by (simp add: chunks_from_done)
    qed
  next
    case False
    then have "chunks_from w s e = []" by (subst chunks_from.simps) simp
    then show ?thesis using 1(2) by simp
  qed
qed

section \<open>Merging the answers\<close>

text \<open>The answers to a list of requests; an empty answer has no entries and no totals.\<close>

definition answers :: "service \<Rightarrow> (int \<times> int) list \<Rightarrow> increments list" where
  "answers svc cs = map (\<lambda>(a, b). case svc a b of Some (Some p) \<Rightarrow> p | _ \<Rightarrow> no_increments) cs"

lemma steps_upt: "(k + 1, n) # map (\<lambda>j. (k + 1 + j, n)) [1..<Suc m] = map (\<lambda>j. (k + j, n)) [1..<Suc (Suc m)]"
proof -
  have "[1..<Suc (Suc m)] = 1 # map Suc [1..<Suc m]"
    by (subst upt_conv_Cons) (simp_all add: map_Suc_upt del: upt_Suc)
  then show ?thesis by (simp only: list.map map_map comp_def) simp
qed

lemma run_chunks_answered:
  assumes "\<forall>(a, b)\<in>set cs. svc a b \<noteq> None"
  shows "run_chunks svc n cs acc k =
    (Some (fold (\<lambda>p m. mergeIncrementsResponse m p) (answers svc cs) acc), cs, map (\<lambda>j. (k + j, n)) [1..<Suc (length cs)])"
  using assms
proof (induction cs arbitrary: acc k)
  case (Cons c cs)
  obtain part where part: "svc (fst c) (snd c) = Some part" using Cons.prems by (cases c) auto
  have "answers svc (c # cs) = (case part of Some p \<Rightarrow> p | None \<Rightarrow> no_increments) # answers svc cs"
    using part by (simp add: answers_def split_beta split: option.split)
  then show ?case
    using Cons part steps_upt[of k n "length cs"] by (simp add: Let_def del: upt_Suc)
qed (simp add: answers_def)

lemma run_chunks_rejected:
  assumes "\<forall>(a, b)\<in>set pre. svc a b \<noteq> None" "svc (fst c) (snd c) = None"
  shows "run_chunks svc n (pre @ c # post) acc k = (None, pre @ [c], map (\<lambda>j. (k + j, n)) [1..<Suc (length pre)])"
  using assms(1)
proof (induction pre arbitrary: acc k)
  case Nil
  then show ?case using assms(2) by simp
next
  case (Cons d pre)
  obtain part where part: "svc (fst d) (snd d) = Some part" using Cons.prems by (cases d) auto
  then show ?case
    using Cons steps_upt[of k n "length pre"] by (simp add: Let_def del: upt_Suc)
qed

lemma fold_merge:
  "inc (fold (\<lambda>p m. mergeIncrementsResponse m p) ps acc) = inc acc @ concat (map inc ps)"
  "t_rx_b (fold (\<lambda>p m. mergeIncrementsResponse m p) ps acc) = t_rx_b acc + sum_list (map t_rx_b ps)"
  "t_tx_b (fold (\<lambda>p m. mergeIncrementsResponse m p) ps acc) = t_tx_b acc + sum_list (map t_tx_b ps)"
  "t_b (fold (\<lambda>p m. mergeIncrementsResponse m p) ps acc) = t_b acc + sum_list (map t_b ps)"
  by (induction ps arbitrary: acc) (simp_all add: mergeIncrementsResponse_def)

lemma fold_merge_range:
  assumes "range_start acc \<noteq> 0" "range_end acc \<noteq> 0"
  defines "r ps \<equiv> fold (\<lambda>p m. mergeIncrementsResponse m p) ps acc"
  shows "range_start (r ps) \<noteq> 0 \<and> range_end (r ps) \<noteq> 0 \<and>
    range_start (r ps) = Min (insert (range_start acc) (range_start ` set ps - {0})) \<and>
    range_end (r ps) = Max (insert (range_end acc) (range_end ` set ps - {0}))"
proof (induction ps rule: rev_induct)
  case Nil
  then show ?case using assms by simp
next
  case (snoc p ps)
  let ?A = "range_start ` set ps - {0}" and ?B = "range_end ` set ps - {0}"
  have step: "r (ps @ [p]) = mergeIncrementsResponse (r ps) p" by (simp add: r_def)
  have nz: "range_start (r ps) \<noteq> 0" "range_end (r ps) \<noteq> 0" using snoc.IH by blast+
  have st: "range_start (r (ps @ [p])) = (if range_start p = 0 then range_start (r ps) else min (range_start p) (range_start (r ps)))"
    "range_end (r (ps @ [p])) = (if range_end p = 0 then range_end (r ps) else max (range_end p) (range_end (r ps)))"
    using nz by (auto simp: step mergeIncrementsResponse_def)
  have ins: "insert (range_start acc) (range_start ` set (ps @ [p]) - {0}) =
      (if range_start p = 0 then insert (range_start acc) ?A else insert (range_start p) (insert (range_start acc) ?A))"
    "insert (range_end acc) (range_end ` set (ps @ [p]) - {0}) =
      (if range_end p = 0 then insert (range_end acc) ?B else insert (range_end p) (insert (range_end acc) ?B))"
    by auto
  have m: "Min (insert (range_start p) (insert (range_start acc) ?A)) = min (range_start p) (Min (insert (range_start acc) ?A))"
    "Max (insert (range_end p) (insert (range_end acc) ?B)) = max (range_end p) (Max (insert (range_end acc) ?B))"
    by (rule Min_insert Max_insert; simp)+
  have "range_start (r (ps @ [p])) \<noteq> 0" "range_end (r (ps @ [p])) \<noteq> 0"
    using nz unfolding st by (auto simp only: min_def max_def split: if_splits)
  moreover have "range_start (r (ps @ [p])) = Min (insert (range_start acc) (range_start ` set (ps @ [p]) - {0}))"
    using snoc.IH by (cases "range_start p = 0") (simp_all only: st ins m if_True if_False simp_thms)
  moreover have "range_end (r (ps @ [p])) = Max (insert (range_end acc) (range_end ` set (ps @ [p]) - {0}))"
    using snoc.IH by (cases "range_end p = 0") (simp_all only: st ins m if_True if_False simp_thms)
  ultimately show ?case by blast
qed

lemma first_rejected:
  assumes "\<exists>(a, b)\<in>set cs. svc a b = None"
  obtains pre c post where "cs = pre @ c # post" "\<forall>(a, b)\<in>set pre. svc a b \<noteq> None" "svc (fst c) (snd c) = None"
  using split_list_first_prop[of cs "\<lambda>c. svc (fst c) (snd c) = None"] assms by (auto simp: split_beta)

section \<open>Claims on the timeline\<close>

text \<open>
  C5: a long range is covered by chunks, each beginning where the one before it ends, all of the
  chunk size but the last, which is no longer. They are asked for one after the other. When every
  request is answered, the result holds exactly the entries of all answers, sorted by time and the
  entries of one time in the order they came, the sums of the totals, and the widest range reported;
  when one is rejected, the fetch fails and no later chunk is asked for. The progress counts the
  answers so far. Nothing is assumed of what the service answers.
\<close>

theorem chunked_fetch_merges:
  assumes "s \<noteq> 0" "e \<noteq> 0" "chunk_ms ag < e - s"
  shows "\<exists>cs. consecutive s cs e \<and> (\<forall>c\<in>set cs. snd c - fst c \<le> chunk_ms ag) \<and>
    (\<forall>c\<in>set (butlast cs). snd c - fst c = chunk_ms ag) \<and>
    (if \<forall>(a, b)\<in>set cs. svc a b \<noteq> None
     then \<exists>r. fetchTrafficIncrementsChunked svc s e ag =
        (Some (Some r), cs, map (\<lambda>j. (j, length cs)) [0..<Suc (length cs)]) \<and>
      (let ps = answers svc cs; entries = concat (map inc ps)
       in sorted (map entry_time (inc r)) \<and> mset (inc r) = mset entries \<and>
         (\<forall>t. filter (\<lambda>i. entry_time i = t) (inc r) = filter (\<lambda>i. entry_time i = t) entries) \<and>
         t_rx_b r = sum_list (map t_rx_b ps) \<and> t_tx_b r = sum_list (map t_tx_b ps) \<and> t_b r = sum_list (map t_b ps) \<and>
         range_start r = Min (insert s (range_start ` set ps - {0})) \<and>
         range_end r = Max (insert e (range_end ` set ps - {0})))
     else \<exists>k<length cs. svc (fst (cs ! k)) (snd (cs ! k)) = None \<and> (\<forall>j<k. svc (fst (cs ! j)) (snd (cs ! j)) \<noteq> None) \<and>
       fetchTrafficIncrementsChunked svc s e ag = (None, take (Suc k) cs, map (\<lambda>j. (j, length cs)) [0..<Suc k]))"
proof -
  define cs where "cs = chunks_from (chunk_ms ag) s e"
  have w: "0 < chunk_ms ag" by (simp add: chunk_ms_def)
  have se: "s < e" using w assms(3) by simp
  have c: "consecutive s cs e" unfolding cs_def using w se by (intro chunks_from_consecutive) simp_all
  have size: "\<forall>c\<in>set cs. snd c - fst c \<le> chunk_ms ag" "\<forall>c\<in>set (butlast cs). snd c - fst c = chunk_ms ag"
    unfolding cs_def using chunks_from_size chunks_from_full by blast+
  have b: "buildTrafficIncrementsChunks s e ag = Some cs"
    using assms se by (simp add: buildTrafficIncrementsChunks_def cs_def)
  define acc where "acc = no_increments\<lparr>range_start := s, range_end := e, agg := ag\<rparr>"
  have acc: "range_start acc = s" "range_end acc = e" "inc acc = []" "t_rx_b acc = 0" "t_tx_b acc = 0" "t_b acc = 0"
    by (simp_all add: acc_def no_increments_def)
  have p: "(0, n) # map (\<lambda>j. (0 + j, n)) [1..<Suc m] = map (\<lambda>j. (j, n)) [0..<Suc m]" for n m :: nat
  proof -
    have "[0..<Suc m] = 0 # [1..<Suc m]" by (simp only: upt_conv_Cons zero_less_Suc One_nat_def)
    then show ?thesis by (simp only: list.map add_0)
  qed
  show ?thesis
  proof (cases "\<forall>(a, b)\<in>set cs. svc a b \<noteq> None")
    case True
    define m where "m = fold (\<lambda>p m. mergeIncrementsResponse m p) (answers svc cs) acc"
    have f: "fetchTrafficIncrementsChunked svc s e ag =
        (Some (Some (m\<lparr>inc := sort_key entry_time (inc m)\<rparr>)), cs, map (\<lambda>j. (j, length cs)) [0..<Suc (length cs)])"
      unfolding fetchTrafficIncrementsChunked_def b acc_def[symmetric] option.case Let_def run_chunks_answered[OF True] m_def
      by (simp only: prod.case option.map p)
    have "filter (\<lambda>i. entry_time i = t) (sort_key entry_time xs) = filter (\<lambda>i. entry_time i = t) xs" for t xs
      using sort_key_stable[of entry_time t xs] by (simp add: eq_commute[of t])
    moreover have "range_start m = Min (insert s (range_start ` set (answers svc cs) - {0}))"
      "range_end m = Max (insert e (range_end ` set (answers svc cs) - {0}))"
      using fold_merge_range[of acc "answers svc cs"] assms(1,2) by (simp_all add: m_def acc)
    ultimately show ?thesis
      using f True c size fold_merge[of "answers svc cs" acc] acc
      by (intro exI[of _ cs]) (simp add: Let_def m_def del: upt_Suc)
  next
    case False
    then obtain pre d post where d: "cs = pre @ d # post" "\<forall>(a, b)\<in>set pre. svc a b \<noteq> None" "svc (fst d) (snd d) = None"
      using first_rejected[of cs svc] by blast
    have f: "fetchTrafficIncrementsChunked svc s e ag = (None, pre @ [d], map (\<lambda>j. (j, length cs)) [0..<Suc (length pre)])"
      unfolding fetchTrafficIncrementsChunked_def b acc_def[symmetric] option.case Let_def
      by (subst (2) d(1), subst run_chunks_rejected[OF d(2,3)]) (simp only: prod.case option.map p)
    have "\<exists>k<length cs. svc (fst (cs ! k)) (snd (cs ! k)) = None \<and> (\<forall>j<k. svc (fst (cs ! j)) (snd (cs ! j)) \<noteq> None) \<and>
        (None, pre @ [d], map (\<lambda>j. (j, length cs)) [0..<Suc (length pre)]) =
        (None, take (Suc k) cs, map (\<lambda>j. (j, length cs)) [0..<Suc k])"
      by (rule exI[of _ "length pre"]) (use d in \<open>auto simp: nth_append split_beta simp del: upt_Suc\<close>)
    then show ?thesis using c size False f by (intro exI[of _ cs]) simp
  qed
qed

definition example_increment :: "int \<Rightarrow> increment" where
  "example_increment t = \<lparr>ts_ms = 0, i_start = t, i_end = 0, rx_bytes = Some 5, tx_bytes = None, total_bytes = None,
     w_rx_b = 0, l_rx_b = 0, w_tx_b = 0, l_tx_b = 0\<rparr>"

text \<open>A service whose first answer holds the later entry; what it is asked beyond is rejected.\<close>

definition example_service :: service where
  "example_service a b =
     (if b \<le> 1600000000 then Some (Some (no_increments\<lparr>range_start := a, range_end := b, t_b := 5,
           inc := [example_increment (if a = 1 then 1500000000 else 7)]\<rparr>))
      else None)"

lemma example_chunks:
  assumes "consecutive 1 cs 1600000000" "\<forall>c\<in>set cs. snd c - fst c \<le> 1209600000"
    "\<forall>c\<in>set (butlast cs). snd c - fst c = 1209600000"
  shows "cs = [(1, 1209600001), (1209600001, 1600000000)]"
proof -
  obtain b cs1 where 1: "cs = (1, b) # cs1" "consecutive b cs1 1600000000" "b \<le> 1209600001"
    using assms(1,2) by (cases cs) auto
  then obtain d cs2 where 2: "cs1 = (b, d) # cs2" "consecutive d cs2 1600000000" by (cases cs1) auto
  have b: "b = 1209600001" using assms(3) by (simp add: 1(1) 2(1))
  have "cs2 = []"
  proof (rule ccontr)
    assume "cs2 \<noteq> []"
    then have "d = 2419200001" using assms(3) b by (simp add: 1(1) 2(1))
    then show False using consecutive_le[OF 2(2)] by simp
  qed
  then show ?thesis using 1 2 b by simp
qed

lemma ex_then:
  assumes "\<exists>x. P x \<and> Q x \<and> R x \<and> (if A x then B x else C x)" "\<And>x. P x \<Longrightarrow> Q x \<Longrightarrow> R x \<Longrightarrow> x = y \<and> A y"
  shows "B y"
  using assms by (auto split: if_splits)

theorem chunked_fetch_merges_witness:
  "\<exists>r p. fetchTrafficIncrementsChunked example_service 1 1600000000 ''hourly'' =
       (Some (Some r), [(1, 1209600001), (1209600001, 1600000000)], p) \<and>
     t_b r = 10 \<and> range_end r = 1600000000 \<and> sorted (map entry_time (inc r))"
proof -
  have w: "chunk_ms ''hourly'' = 1209600000" by (simp add: chunk_ms_def)
  let ?cs = "[(1, 1209600001), (1209600001, 1600000000)] :: (int \<times> int) list"
  have len: "chunk_ms ''hourly'' < 1600000000 - 1" and nz: "(1::int) \<noteq> 0" "(1600000000::int) \<noteq> 0" by (simp_all add: w)
  have an: "answers example_service ?cs = [no_increments\<lparr>range_start := 1, range_end := 1209600001, t_b := 5, inc := [example_increment 1500000000]\<rparr>,
      no_increments\<lparr>range_start := 1209600001, range_end := 1600000000, t_b := 5, inc := [example_increment 7]\<rparr>]"
    by (simp add: answers_def example_service_def)
  have ok: "\<forall>(a, b)\<in>set ?cs. example_service a b \<noteq> None" by (simp add: example_service_def)
  have "cs = ?cs \<and> (\<forall>(a, b)\<in>set ?cs. example_service a b \<noteq> None)"
    if "consecutive 1 cs 1600000000" "\<forall>c\<in>set cs. snd c - fst c \<le> chunk_ms ''hourly''"
      "\<forall>c\<in>set (butlast cs). snd c - fst c = chunk_ms ''hourly''" for cs
    using example_chunks[OF that[unfolded w]] ok by blast
  from ex_then[OF chunked_fetch_merges[OF nz len, of example_service] this, unfolded Let_def]
  obtain r where r: "fetchTrafficIncrementsChunked example_service 1 1600000000 ''hourly'' =
        (Some (Some r), ?cs, map (\<lambda>j. (j, length ?cs)) [0..<Suc (length ?cs)])"
      "sorted (map entry_time (inc r))" "t_b r = sum_list (map t_b (answers example_service ?cs))"
      "range_end r = Max (insert 1600000000 (range_end ` set (answers example_service ?cs) - {0}))"
    by blast
  have "t_b r = 10" "range_end r = 1600000000" using r(3,4) unfolding an by (simp_all add: insert_Diff_if)
  then show ?thesis using r(1,2) by blast
qed

end
