(* ===== verification/Argon_Updates.thy ===== *)
theory Argon_Updates
  imports Vmess_Links Js_Regex
begin

text \<open>
  The update panel of the Argon theme (\<open>argon/updates.js\<close>): versions and their order
  (\<open>version\<close>, \<open>compare\<close>), what of a release may be installed (\<open>release\<close>,
  \<open>mayInstall\<close>), and the panel that checks for updates, installs them and watches the
  installation. The state of the panel is what the closure of \<open>render\<close> keeps (56-91), with the
  properties of its elements that the code writes; its operations are the handlers and the
  continuations of the four calls, one \<open>update_event\<close> each, so that polls, the user and the
  replies interleave freely. A member of a reply that is only used as a string is \<open>None\<close> when
  it is none; translated texts are their English originals.
\<close>

section \<open>Versions\<close>

fun lit :: "jstr \<Rightarrow> re \<Rightarrow> re" where
  "lit [] r = r"
| "lit (c # cs) r = Cat (Chr ((=) c)) (lit cs r)"

definition num_re :: re where
  "num_re = Many1 is_digit"

definition dot_num :: re where
  "dot_num = Cat (Chr ((=) 46)) num_re"

text \<open>\<open>[0-9]+(?:\.[0-9]+){1,3}\<close>\<close>

definition nums_re :: re where
  "nums_re = Cat num_re (Cat dot_num (Opt (Cat dot_num (Opt dot_num))))"

definition stage_re :: re where
  "stage_re = Alt (lit (js ''alph'') (Chr ((=) 97))) (Alt (lit (js ''bet'') (Chr ((=) 97))) (lit (js ''r'') (Chr ((=) 99))))"

text \<open>\<open>(?:~|_)(alpha|beta|rc)([0-9]+)|-(alpha|beta|rc)\.([0-9]+)\<close>\<close>

definition pre_re :: re where
  "pre_re = Alt
     (Cat (Alt (Chr ((=) 126)) (Chr ((=) 95))) (Cat (Grp 2 stage_re) (Grp 3 num_re)))
     (Cat (Chr ((=) 45)) (Cat (Grp 4 stage_re) (Cat (Chr ((=) 46)) (Grp 5 num_re))))"

definition revision_re :: re where
  "revision_re = Cat (Chr ((=) 45)) (Cat (Opt (Chr ((=) 114))) (Grp 6 num_re))"

definition version_re :: re where
  "version_re = Cat (Opt (Chr ((=) 118))) (Cat (Grp 1 nums_re) (Cat (Opt pre_re) (Cat (Opt revision_re) End)))"

definition max_safe :: int where
  "max_safe = 9007199254740991"

definition group_or :: "caps \<Rightarrow> nat \<Rightarrow> jstr \<Rightarrow> jstr" where
  "group_or m i d = (case m i of Some t \<Rightarrow> or_else t d | None \<Rightarrow> d)"

definition stage_rank :: "jstr \<Rightarrow> int" where
  "stage_rank t = (if t = js ''alpha'' then 0 else if t = js ''beta'' then 1 else if t = js ''rc'' then 2 else 3)"

text \<open>
  \<open>Number\<close> of a run of digits; a value that is not a safe integer is not one after rounding
  either.
\<close>

definition version_parts :: "caps \<Rightarrow> int list" where
  "version_parts m =
     (let parts = map dec_value (js_split [46] (group_or m 1 []));
          padded = parts @ replicate (4 - length parts) 0
      in padded @ [stage_rank (group_or m 2 (group_or m 4 [])),
                   dec_value (group_or m 3 (group_or m 5 [48])), dec_value (group_or m 6 [49])])"

definition version :: "jstr option \<Rightarrow> int list option" where
  "version v =
     (case v of
        None \<Rightarrow> None
      | Some t \<Rightarrow>
          if length t > 80 then None
          else
            (case re_match version_re t of
               None \<Rightarrow> None
             | Some m \<Rightarrow> (let parts = version_parts m in if \<forall>n\<in>set parts. n \<le> max_safe then Some parts else None)))"

fun compare :: "int list \<Rightarrow> int list \<Rightarrow> int" where
  "compare [] b = 0"
| "compare (x # a) [] = 1"
| "compare (x # a) (y # b) = (if x \<noteq> y then (if x < y then -1 else 1) else compare a b)"

section \<open>Releases\<close>

record upgrade_job =
  u_active :: bool
  u_phase :: string
  u_error :: string
  u_log :: "jstr option"

record update_state =
  tag :: "jstr option"
  package_manager :: "jstr option"
  ipk :: "jstr option"
  apk :: "jstr option"
  current_version :: "jstr option"
  can_upgrade :: bool
  result :: "int option"
  checked_at :: "int option"
  retry_at :: "int option"
  release_notes :: "jstr option"
  upgrade :: "upgrade_job option"

definition no_state :: update_state where
  "no_state =
     \<lparr>tag = None, package_manager = None, ipk = None, apk = None, current_version = None, can_upgrade = False,
      result = None, checked_at = None, retry_at = None, release_notes = None, upgrade = None\<rparr>"

definition in_class :: "string \<Rightarrow> cu \<Rightarrow> bool" where
  "in_class extra c \<longleftrightarrow> is_digit c \<or> (97 \<le> c \<and> c \<le> 122) \<or> c \<in> set (js extra)"

definition tag_re :: re where
  "tag_re = Cat (Opt (Chr ((=) 118))) (Cat nums_re End)"

definition ipk_re :: re where
  "ipk_re = lit (js ''luci-theme-argon_'') (Cat (Grp 1 (Cat (Chr is_digit) (Many (in_class ''.~-'')))) (lit (js ''_all.ipk'') End))"

definition apk_re :: re where
  "apk_re = lit (js ''luci-theme-argon-'') (Cat (Grp 1 (Cat (Chr is_digit) (Many (in_class ''._-'')))) (lit (js ''.apk'') End))"

record release_info =
  rel_tag :: jstr
  rel_file :: "jstr option"
  rel_version :: jstr
  rel_parsed :: "int list option"

text \<open>The version in the name of the package for the package manager.\<close>

definition package_version :: "update_state \<Rightarrow> jstr option" where
  "package_version s =
     (if package_manager s = Some (js ''opkg'')
      then Option.bind (ipk s) (\<lambda>f. Option.bind (re_match ipk_re f) (\<lambda>m. m 1))
      else if package_manager s = Some (js ''apk'')
      then Option.bind (apk s) (\<lambda>f. Option.bind (re_match apk_re f) (\<lambda>m. m 1))
      else None)"

definition package_file :: "update_state \<Rightarrow> jstr option" where
  "package_file s = (if package_manager s = Some (js ''opkg'') then ipk s else apk s)"

definition release :: "update_state option \<Rightarrow> release_info option" where
  "release st =
     (case st of
        None \<Rightarrow> None
      | Some s \<Rightarrow>
          (case tag s of
             None \<Rightarrow> None
           | Some t \<Rightarrow>
               if re_match tag_re t = None then None
               else
                 (let matched = package_version s;
                      parsed = version matched;
                      ok = (case (parsed, version (Some t)) of
                              (Some p, Some q) \<Rightarrow> p ! 4 = 3 \<and> take 4 p = take 4 q
                            | _ \<Rightarrow> False)
                  in Some
                    (if ok then \<lparr>rel_tag = t, rel_file = package_file s, rel_version = the matched, rel_parsed = parsed\<rparr>
                     else \<lparr>rel_tag = t, rel_file = None, rel_version = t, rel_parsed = None\<rparr>))))"

section \<open>The panel\<close>

text \<open>
  \<open>editable\<close> is \<open>map && !map.readonly\<close>. \<open>status_calls\<close> and
  \<open>get_calls\<close> count the calls not answered, \<open>check_calls\<close> likewise;
  \<open>starting_calls\<close> holds the requests for an installation not answered, \<open>started\<close>
  all of them with the version installed then. \<open>install_dialog\<close> is the version of the open
  confirmation.
\<close>

record update_page =
  state :: "update_state option"
  loadedVersion :: "jstr option"
  editable :: bool
  connected :: bool
  observedInstallation :: bool
  lastPhase :: string
  busy :: bool
  monitoring :: bool
  confirming :: bool
  starting :: bool
  attached :: bool
  install_dialog :: "jstr option"
  status_calls :: nat
  get_calls :: nat
  check_calls :: nat
  starting_calls :: "(jstr \<times> jstr) list"
  started :: "(jstr \<times> jstr \<times> jstr option) list"
  current_text :: jstr
  latest_text :: jstr
  status_text :: jstr
  status_kind :: string
  checked_text :: "jstr option"
  notes_text :: jstr
  details_open :: bool
  details_shown :: bool
  release_href :: jstr
  download_href :: jstr
  download_shown :: bool
  check_disabled :: bool
  check_neutral :: bool
  check_text :: string
  install_shown :: bool
  install_disabled :: bool
  hint_shown :: bool
  reload_shown :: bool
  log_text :: jstr
  log_shown :: bool
  log_open :: bool

text \<open>The times of the page: now, in milliseconds, and how the browser writes a time.\<close>

record clock =
  now_ms :: int
  time_text :: "int \<Rightarrow> jstr"
  date_time_text :: "int \<Rightarrow> jstr"

definition current_job :: "update_page \<Rightarrow> upgrade_job" where
  "current_job p =
     (case Option.bind (state p) upgrade of
        Some j \<Rightarrow> j | None \<Rightarrow> \<lparr>u_active = False, u_phase = [], u_error = [], u_log = None\<rparr>)"

definition installed_version :: "update_page \<Rightarrow> jstr option" where
  "installed_version p = Option.bind (state p) current_version"

definition needsReload :: "update_page \<Rightarrow> bool" where
  "needsReload p \<longleftrightarrow>
     u_phase (current_job p) = ''complete'' \<and>
     (observedInstallation p \<or> truthy (case loadedVersion p of Some v \<Rightarrow> v | None \<Rightarrow> []) \<and> installed_version p \<noteq> loadedVersion p)"

definition showStatus :: "jstr \<Rightarrow> string \<Rightarrow> update_page \<Rightarrow> update_page" where
  "showStatus t k p = p\<lparr>status_text := t, status_kind := k\<rparr>"

definition checkError :: "clock \<Rightarrow> int option \<Rightarrow> jstr" where
  "checkError c retry =
     js ''Unable to check for updates. Check the router's network connection and try again.'' @
     (case retry of
        Some r \<Rightarrow> if \<bar>r\<bar> \<le> max_safe \<and> now_ms c < 1000 * r then js '' Try again after '' @ time_text c r @ js ''.'' else []
      | None \<Rightarrow> [])"

definition order_of :: "update_page \<Rightarrow> int option" where
  "order_of p =
     (case (Option.bind (release (state p)) rel_parsed, version (installed_version p)) of
        (Some r, Some l) \<Rightarrow> Some (compare l r) | _ \<Rightarrow> None)"

definition mayInstall :: "update_page \<Rightarrow> bool" where
  "mayInstall p \<longleftrightarrow>
     (case (release (state p), order_of p) of (Some r, Some d) \<Rightarrow> rel_file r \<noteq> None \<and> d < 0 | _ \<Rightarrow> False) \<and>
     (case state p of Some s \<Rightarrow> can_upgrade s | None \<Rightarrow> False) \<and> editable p \<and> \<not> needsReload p"

definition jobMessage :: "upgrade_job \<Rightarrow> jstr" where
  "jobMessage j = js
     (if u_phase j = ''failed'' then
        (case map_of
           [(''network'', ''Download failed. Check the router's connection to GitHub and try again.''),
            (''checksum'', ''Package verification failed. Check for updates and try again.''),
            (''space'', ''Not enough free space to install the update.''),
            (''version'', ''The installed version has changed. Check for updates again.''),
            (''metadata'', ''Release information has changed or expired. Check for updates again.''),
            (''interrupted'', ''The update was interrupted. Check the installed version before trying again.'')] (u_error j) of
           Some t \<Rightarrow> t | None \<Rightarrow> ''Installation failed. See the installation log for details.'')
      else
        (case map_of
           [(''downloading'', ''Downloading the update...''), (''verifying'', ''Verifying the package...''),
            (''installing'', ''Installing the update. Please wait...''),
            (''complete'', ''Update installed. Reload the page to use the new version.'')] (u_phase j) of
           Some t \<Rightarrow> t | None \<Rightarrow> ''Preparing the update...''))"

definition releases :: jstr where
  "releases = js ''https://github.com/jerrykuku/luci-theme-argon/releases''"

text \<open>The tag and the file name have passed their expressions: they are ASCII.\<close>

definition encoded :: "jstr \<Rightarrow> jstr" where
  "encoded t = (case encodeURIComponent t of Some e \<Rightarrow> e | None \<Rightarrow> [])"

text \<open>The three parts of \<open>refresh\<close>: the buttons and links, the texts, and the status line.\<close>

definition show_controls :: "update_page \<Rightarrow> update_page" where
  "show_controls p =
     (let remote = release (state p); order = order_of p;
          active = (u_active (current_job p) \<or> monitoring p); off = (busy p \<or> active \<or> confirming p);
          has_file = (case remote of Some r \<Rightarrow> rel_file r \<noteq> None | None \<Rightarrow> False);
          shown = (has_file \<and> \<not> active \<and> \<not> needsReload p \<and> (case order of Some d \<Rightarrow> d < 0 | None \<Rightarrow> True))
      in p\<lparr>
        check_disabled := off, check_neutral := (remote \<noteq> None),
        check_text := (if busy p then ''Checking for updates...'' else ''Check for updates''),
        install_shown := mayInstall p, install_disabled := off,
        hint_shown := ((case order of Some d \<Rightarrow> d < 0 | None \<Rightarrow> False) \<and>
          (case state p of Some s \<Rightarrow> \<not> can_upgrade s | None \<Rightarrow> False) \<and> editable p \<and> \<not> active \<and> \<not> needsReload p),
        reload_shown := (needsReload p \<and> \<not> active),
        release_href := (case remote of Some r \<Rightarrow> releases @ js ''/tag/'' @ encoded (rel_tag r) | None \<Rightarrow> releases @ js ''/latest''),
        download_shown := shown,
        download_href := (case remote of
            Some r \<Rightarrow> (case rel_file r of
                Some f \<Rightarrow> if shown then releases @ js ''/download/'' @ encoded (rel_tag r) @ js ''/'' @ encoded f else download_href p
              | None \<Rightarrow> download_href p)
          | None \<Rightarrow> download_href p)\<rparr>)"

definition show_texts :: "clock \<Rightarrow> update_page \<Rightarrow> update_page" where
  "show_texts c p =
     (let remote = release (state p); job = current_job p;
          notes = (case Option.bind (state p) release_notes of Some n \<Rightarrow> n | None \<Rightarrow> []);
          log = (case u_log job of Some l \<Rightarrow> l | None \<Rightarrow> []);
          at = (case Option.bind (state p) checked_at of Some t \<Rightarrow> if 0 < t \<and> t \<le> max_safe then Some t else None | None \<Rightarrow> None)
      in p\<lparr>
        current_text := or_else (case installed_version p of Some v \<Rightarrow> v | None \<Rightarrow> []) (js ''Unknown version''),
        latest_text := (case remote of Some r \<Rightarrow> rel_version r | None \<Rightarrow> js ''Not checked yet.''),
        checked_text := (if remote = None then None else map_option (\<lambda>t. js ''Last checked: '' @ date_time_text c t) at),
        details_shown := (remote \<noteq> None),
        notes_text := (if remote \<noteq> None \<and> trim notes \<noteq> []
          then take 32768 notes @ (if length notes > 32768 then [10, 0x2026] else []) else js ''No release notes were published.''),
        log_shown := (trim log \<noteq> []), log_text := drop (length log - 8192) log\<rparr>)"

definition show_status_line :: "clock \<Rightarrow> update_page \<Rightarrow> update_page" where
  "show_status_line c p =
     (let remote = release (state p); job = current_job p; order = order_of p;
          active = (u_active job \<or> monitoring p); reload = needsReload p
      in if active \<or> u_phase job = ''failed'' \<or> reload
         then showStatus (jobMessage job) (if active then ''working'' else if reload then ''complete'' else ''error'') p
         else if busy p then showStatus (js ''Checking for updates...'') ''working'' p
         else if Option.bind (state p) result \<noteq> Some 0 then showStatus (checkError c (Option.bind (state p) retry_at)) ''error'' p
         else if remote = None then showStatus (js ''Not checked yet.'') ''idle'' p
         else (case order of
            None \<Rightarrow> showStatus (js ''Unable to compare this version. View the release for details.'') ''idle'' p
          | Some d \<Rightarrow>
              if d < 0 then showStatus (js ''Update available.'') ''available'' p
              else if d = 0 then showStatus (js ''Your theme is up to date.'') ''current'' p
              else showStatus (js ''The installed version is newer than the latest stable release.'') ''idle'' p))"

definition refresh :: "clock \<Rightarrow> update_page \<Rightarrow> update_page" where
  "refresh c p =
     (let job = current_job p;
          p1 = p\<lparr>observedInstallation := (observedInstallation p \<or> u_active job)\<rparr>;
          closed = (u_phase job = ''complete'' \<and> lastPhase p \<noteq> ''complete'');
          p2 = p1\<lparr>details_open := (details_open p1 \<and> \<not> closed), log_open := (log_open p1 \<and> \<not> closed), lastPhase := u_phase job\<rparr>
      in show_status_line c (show_texts c (show_controls p2)))"

section \<open>Handlers\<close>

definition monitor :: "update_page \<Rightarrow> update_page" where
  "monitor p = p\<lparr>monitoring := True\<rparr>"

definition stopMonitoring :: "update_page \<Rightarrow> update_page" where
  "stopMonitoring p = p\<lparr>monitoring := False\<rparr>"

text \<open>A tick of the poll: the status is asked for, unless the panel has left the document.\<close>

definition watch :: "update_page \<Rightarrow> update_page" where
  "watch p =
     (if \<not> connected p then (if attached p then stopMonitoring p else p)
      else p\<lparr>attached := True, status_calls := status_calls p + 1\<rparr>)"

definition reconnecting :: "update_page \<Rightarrow> update_page" where
  "reconnecting p = showStatus (js ''Unable to read update progress. Reconnecting...'') ''error'' p"

text \<open>The answer to a status call; \<open>None\<close> when the call is rejected.\<close>

definition watched :: "clock \<Rightarrow> update_state option \<Rightarrow> update_page \<Rightarrow> update_page" where
  "watched c reply p =
     (if status_calls p = 0 then p
      else
        (let p1 = p\<lparr>status_calls := status_calls p - 1\<rparr>
         in case reply of
              None \<Rightarrow> reconnecting p1
            | Some r \<Rightarrow>
                (case upgrade r of
                   None \<Rightarrow> reconnecting p1
                 | Some job \<Rightarrow>
                     if result r \<noteq> Some 0 then reconnecting p1
                     else
                       (let old = (case state p1 of Some s \<Rightarrow> s | None \<Rightarrow> no_state);
                            p2 = p1\<lparr>state := Some (old\<lparr>current_version := current_version r, upgrade := Some job\<rparr>)\<rparr>
                        in if u_active job then refresh c p2
                           else if starting p2 then p2
                           else (stopMonitoring p2)\<lparr>get_calls := get_calls p2 + 1\<rparr>))))"

definition got :: "clock \<Rightarrow> update_state option \<Rightarrow> update_page \<Rightarrow> update_page" where
  "got c reply p =
     (if get_calls p = 0 then p
      else
        (let p1 = p\<lparr>get_calls := get_calls p - 1\<rparr>;
             p2 = (case reply of Some r \<Rightarrow> if result r = Some 0 then p1\<lparr>state := Some r\<rparr> else p1 | None \<Rightarrow> p1);
             p3 = (if u_active (current_job p2) then monitor p2 else p2)
         in refresh c p3))"

definition install :: "clock \<Rightarrow> update_page \<Rightarrow> update_page" where
  "install c p =
     (case release (state p) of
        None \<Rightarrow> p
      | Some r \<Rightarrow>
          if busy p \<or> monitoring p \<or> \<not> mayInstall p then p
          else
            (let call = (rel_tag r, the (rel_file r)); cur = installed_version p;
                 p1 = refresh c (monitor (p\<lparr>starting := True\<rparr>))
             in p1\<lparr>starting_calls := starting_calls p1 @ [call], started := started p1 @ [(fst call, snd call, cur)]\<rparr>))"

definition revoke :: "update_page \<Rightarrow> update_page" where
  "revoke p = p\<lparr>state := map_option (\<lambda>s. s\<lparr>can_upgrade := False\<rparr>) (state p)\<rparr>"

text \<open>The answer to a request for an installation: its result and the job it reports.\<close>

definition installing :: "clock \<Rightarrow> (int option \<times> upgrade_job option) option \<Rightarrow> update_page \<Rightarrow> update_page" where
  "installing c reply p =
     (if starting_calls p = [] then p
      else
        (let p1 = p\<lparr>starting_calls := tl (starting_calls p), starting := False\<rparr>
         in case reply of
              None \<Rightarrow> reconnecting p1
            | Some (res, job) \<Rightarrow>
                if res \<noteq> Some 0 then
                  (let p2 = showStatus (js
                         (if res = Some 3 then ''Release information has changed or expired. Check for updates again.''
                          else if res = Some 5 then ''The installed version has changed. Check for updates again.''
                          else ''Unable to start the update. Check for updates and try again.'')) ''error''
                         (refresh c (stopMonitoring p1));
                       p3 = (if res = Some 3 \<or> res = Some 5 then (revoke p2)\<lparr>install_shown := False\<rparr> else p2)
                   in if res = Some 4 then watch (monitor p3) else p3)
                else refresh c (monitor (p1\<lparr>state := map_option (\<lambda>s. s\<lparr>upgrade := job\<rparr>) (state p1)\<rparr>))))"

definition confirmInstall :: "clock \<Rightarrow> update_page \<Rightarrow> update_page" where
  "confirmInstall c p =
     (if busy p \<or> monitoring p \<or> confirming p \<or> \<not> mayInstall p then p
      else (refresh c (p\<lparr>confirming := True\<rparr>))\<lparr>install_dialog := map_option rel_version (release (state p))\<rparr>)"

definition check :: "clock \<Rightarrow> update_page \<Rightarrow> update_page" where
  "check c p =
     (if busy p \<or> monitoring p \<or> confirming p then p
      else (refresh c (p\<lparr>busy := True\<rparr>))\<lparr>check_calls := check_calls p + 1\<rparr>)"

definition check_failed :: "clock \<Rightarrow> int option \<Rightarrow> update_page \<Rightarrow> update_page" where
  "check_failed c retry p = showStatus (checkError c retry) ''error'' (refresh c (p\<lparr>busy := False\<rparr>))"

definition checked :: "clock \<Rightarrow> update_state option \<Rightarrow> update_page \<Rightarrow> update_page" where
  "checked c reply p =
     (if check_calls p = 0 then p
      else
        (let p1 = p\<lparr>check_calls := check_calls p - 1\<rparr>
         in case reply of
              None \<Rightarrow> check_failed c None p1
            | Some r \<Rightarrow>
                if result r \<noteq> Some 0 \<or> release (Some r) = None then check_failed c (retry_at r) (revoke p1)
                else
                  (let p2 = refresh c (p1\<lparr>state := Some r, busy := False\<rparr>);
                       p3 = p2\<lparr>details_open := ((case order_of p2 of Some d \<Rightarrow> d < 0 | None \<Rightarrow> False) \<and> \<not> needsReload p2)\<rparr>
                   in if u_active (current_job p3) then monitor p3 else p3)))"

section \<open>Events\<close>

text \<open>
  \<open>Dialog_Answer\<close> is the answer to the confirmation, which may also come after the panel has
  left the document; \<open>Leave\<close> takes the panel out of the document, and a panel that has been
  watched there is not put back.
\<close>

datatype update_event =
    Tick
  | Enter
  | Leave
  | Status_Reply "update_state option"
  | Get_Reply "update_state option"
  | Click_Check
  | Check_Reply "update_state option"
  | Click_Install
  | Dialog_Answer bool
  | Start_Reply "(int option \<times> upgrade_job option) option"

fun update_step :: "clock \<Rightarrow> update_event \<Rightarrow> update_page \<Rightarrow> update_page" where
  "update_step c Tick p = (if monitoring p then watch p else p)"
| "update_step c Enter p = (if attached p then p else p\<lparr>connected := True\<rparr>)"
| "update_step c Leave p = p\<lparr>connected := False\<rparr>"
| "update_step c (Status_Reply r) p = watched c r p"
| "update_step c (Get_Reply r) p = got c r p"
| "update_step c Click_Check p = (if connected p then check c p else p)"
| "update_step c (Check_Reply r) p = checked c r p"
| "update_step c Click_Install p = (if connected p then confirmInstall c p else p)"
| "update_step c (Dialog_Answer yes) p =
     (if install_dialog p = None then p
      else
        (let p1 = p\<lparr>confirming := False, install_dialog := None\<rparr>
         in if yes then install c p1 else refresh c p1))"
| "update_step c (Start_Reply r) p = installing c r p"

text \<open>The panel at the start, from what the first \<open>get\<close> has answered.\<close>

definition blank_page :: "update_state option \<Rightarrow> bool \<Rightarrow> update_page" where
  "blank_page st ed =
     (let job = Option.bind st upgrade; active = (case job of Some j \<Rightarrow> u_active j | None \<Rightarrow> False)
      in \<lparr>state = st, loadedVersion = Option.bind st current_version, editable = ed, connected = False,
          observedInstallation = active, lastPhase = (case job of Some j \<Rightarrow> u_phase j | None \<Rightarrow> []),
          busy = False, monitoring = active, confirming = False, starting = False, attached = False,
          install_dialog = None, status_calls = 0, get_calls = 0, check_calls = 0, starting_calls = [], started = [],
          current_text = [], latest_text = [], status_text = [], status_kind = ''idle'', checked_text = None, notes_text = [],
          details_open = False, details_shown = False, release_href = [], download_href = [], download_shown = False,
          check_disabled = False, check_neutral = False, check_text = ''Check for updates'', install_shown = False,
          install_disabled = False, hint_shown = False, reload_shown = False, log_text = [], log_shown = False, log_open = False\<rparr>)"

definition new_panel :: "clock \<Rightarrow> update_state option \<Rightarrow> bool \<Rightarrow> update_page" where
  "new_panel c st ed = refresh c (blank_page st ed)"

inductive update_session :: "(nat \<Rightarrow> clock) \<Rightarrow> nat \<Rightarrow> update_page \<Rightarrow> bool" for cs where
  start: "update_session cs 0 (new_panel (cs 0) st ed)"
| move: "update_session cs n p \<Longrightarrow> update_session cs (Suc n) (update_step (cs (Suc n)) e p)"

section \<open>What is sent\<close>

lemma showStatus_frame [simp]:
  "state (showStatus t k p) = state p" "editable (showStatus t k p) = editable p" "connected (showStatus t k p) = connected p" "busy (showStatus t k p) = busy p"
  "monitoring (showStatus t k p) = monitoring p" "confirming (showStatus t k p) = confirming p"
  "starting (showStatus t k p) = starting p" "attached (showStatus t k p) = attached p"
  "install_dialog (showStatus t k p) = install_dialog p" "status_calls (showStatus t k p) = status_calls p"
  "get_calls (showStatus t k p) = get_calls p" "check_calls (showStatus t k p) = check_calls p"
  "starting_calls (showStatus t k p) = starting_calls p" "started (showStatus t k p) = started p"
  by (simp_all add: showStatus_def)

lemma show_controls_frame [simp]:
  "state (show_controls p) = state p" "editable (show_controls p) = editable p" "connected (show_controls p) = connected p" "busy (show_controls p) = busy p"
  "monitoring (show_controls p) = monitoring p" "confirming (show_controls p) = confirming p"
  "starting (show_controls p) = starting p" "attached (show_controls p) = attached p"
  "install_dialog (show_controls p) = install_dialog p" "status_calls (show_controls p) = status_calls p"
  "get_calls (show_controls p) = get_calls p" "check_calls (show_controls p) = check_calls p"
  "starting_calls (show_controls p) = starting_calls p" "started (show_controls p) = started p"
  by (simp_all add: show_controls_def Let_def)

lemma show_texts_frame [simp]:
  "state (show_texts c p) = state p" "editable (show_texts c p) = editable p" "connected (show_texts c p) = connected p" "busy (show_texts c p) = busy p"
  "monitoring (show_texts c p) = monitoring p" "confirming (show_texts c p) = confirming p"
  "starting (show_texts c p) = starting p" "attached (show_texts c p) = attached p"
  "install_dialog (show_texts c p) = install_dialog p" "status_calls (show_texts c p) = status_calls p"
  "get_calls (show_texts c p) = get_calls p" "check_calls (show_texts c p) = check_calls p"
  "starting_calls (show_texts c p) = starting_calls p" "started (show_texts c p) = started p"
  by (simp_all add: show_texts_def Let_def)

lemma show_status_line_frame [simp]:
  "state (show_status_line c p) = state p" "editable (show_status_line c p) = editable p" "connected (show_status_line c p) = connected p"
  "busy (show_status_line c p) = busy p" "monitoring (show_status_line c p) = monitoring p"
  "confirming (show_status_line c p) = confirming p" "starting (show_status_line c p) = starting p"
  "attached (show_status_line c p) = attached p" "install_dialog (show_status_line c p) = install_dialog p"
  "status_calls (show_status_line c p) = status_calls p" "get_calls (show_status_line c p) = get_calls p"
  "check_calls (show_status_line c p) = check_calls p" "starting_calls (show_status_line c p) = starting_calls p"
  "started (show_status_line c p) = started p"
  by (simp_all add: show_status_line_def Let_def split: option.split)

lemma refresh_frame [simp]:
  "state (refresh c p) = state p" "editable (refresh c p) = editable p" "connected (refresh c p) = connected p" "busy (refresh c p) = busy p"
  "monitoring (refresh c p) = monitoring p" "confirming (refresh c p) = confirming p"
  "starting (refresh c p) = starting p" "attached (refresh c p) = attached p"
  "install_dialog (refresh c p) = install_dialog p" "status_calls (refresh c p) = status_calls p"
  "get_calls (refresh c p) = get_calls p" "check_calls (refresh c p) = check_calls p"
  "starting_calls (refresh c p) = starting_calls p" "started (refresh c p) = started p"
  by (simp_all add: refresh_def Let_def)

lemma revoke_frame [simp]:
  "connected (revoke p) = connected p" "busy (revoke p) = busy p"
  "monitoring (revoke p) = monitoring p" "starting (revoke p) = starting p"
  "attached (revoke p) = attached p" "check_calls (revoke p) = check_calls p"
  "starting_calls (revoke p) = starting_calls p" "started (revoke p) = started p"
  by (simp_all add: revoke_def)

text \<open>
  The request for \<open>file\<close> of the release \<open>tg\<close> over the installed version \<open>cur\<close>: the package's name holds a stable
  version, that of the tag, which comes after the installed one.
\<close>

definition newer_package :: "jstr \<Rightarrow> jstr \<Rightarrow> jstr option \<Rightarrow> bool" where
  "newer_package tg file cur \<longleftrightarrow>
     (\<exists>v l r q. (Option.bind (re_match ipk_re file) (\<lambda>m. m 1) = Some v \<or> Option.bind (re_match apk_re file) (\<lambda>m. m 1) = Some v) \<and>
        version (Some v) = Some r \<and> version cur = Some l \<and> compare l r < 0 \<and>
        version (Some tg) = Some q \<and> take 4 r = take 4 q \<and> r ! 4 = 3)"

lemma release_file:
  assumes "release st = Some r" "rel_file r = Some f"
  shows "\<exists>v q. (Option.bind (re_match ipk_re f) (\<lambda>m. m 1) = Some v \<or> Option.bind (re_match apk_re f) (\<lambda>m. m 1) = Some v) \<and>
    version (Some v) = rel_parsed r \<and> (\<exists>p. rel_parsed r = Some p \<and> version (Some (rel_tag r)) = Some q \<and> take 4 p = take 4 q \<and> p ! 4 = 3)"
proof -
  obtain s t where s: "st = Some s" "tag s = Some t" using assms(1) by (auto simp: release_def split: option.splits)
  obtain p q where pq: "version (package_version s) = Some p" "version (Some t) = Some q" "p ! 4 = 3" "take 4 p = take 4 q"
      "r = \<lparr>rel_tag = t, rel_file = package_file s, rel_version = the (package_version s), rel_parsed = Some p\<rparr>"
    using assms s by (auto simp: release_def Let_def split: if_splits option.splits)
  obtain v where v: "package_version s = Some v" using pq(1) by (cases "package_version s") (auto simp: version_def)
  have "package_file s = Some f" using assms(2) pq(5) by simp
  then have "Option.bind (re_match ipk_re f) (\<lambda>m. m 1) = Some v \<or> Option.bind (re_match apk_re f) (\<lambda>m. m 1) = Some v"
    using v by (auto simp: package_version_def package_file_def split: if_splits)
  then show ?thesis using pq v by (auto simp: exI[of _ v])
qed

lemma mayInstall_newer:
  assumes "release (state p) = Some r" "mayInstall p"
  shows "newer_package (rel_tag r) (the (rel_file r)) (installed_version p)"
proof -
  obtain d f where d: "order_of p = Some d" "d < 0" "rel_file r = Some f"
    using assms by (auto simp: mayInstall_def split: option.splits)
  then obtain l pr where "version (installed_version p) = Some l" "rel_parsed r = Some pr" "compare l pr < 0"
    using assms(1) by (auto simp: order_of_def split: option.splits)
  then show ?thesis
    using release_file[OF assms(1) d(3)] d(3) unfolding newer_package_def by (metis option.inject option.sel)
qed

section \<open>One request at a time\<close>

definition update_ok :: "update_page \<Rightarrow> bool" where
  "update_ok p \<longleftrightarrow>
     check_calls p = (if busy p then 1 else 0) \<and> length (starting_calls p) = (if starting p then 1 else 0) \<and>
     \<not> (busy p \<and> starting p) \<and> (install_dialog p \<noteq> None \<longrightarrow> \<not> starting p) \<and> (starting p \<longrightarrow> monitoring p \<or> attached p \<and> \<not> connected p) \<and>
     (\<forall>(tg, file, cur)\<in>set (started p). newer_package tg file cur)"

lemma update_ok_cong:
  assumes "check_calls q = check_calls p" "busy q = busy p" "starting_calls q = starting_calls p" "starting q = starting p"
    "monitoring p \<longrightarrow> monitoring q" "attached p \<longrightarrow> attached q" "connected q = connected p" "started q = started p" "install_dialog q = install_dialog p"
  shows "update_ok p \<Longrightarrow> update_ok q"
  using assms by (auto simp: update_ok_def)

lemma update_ok_refresh [simp]: "update_ok (refresh c p) = update_ok p"
  by (simp add: update_ok_def)

lemma update_ok_watch: "update_ok p \<Longrightarrow> update_ok (watch p)"
  by (auto simp: watch_def stopMonitoring_def update_ok_def)

lemma update_ok_watched: "update_ok p \<Longrightarrow> update_ok (watched c r p)"
  by (auto simp: watched_def Let_def reconnecting_def stopMonitoring_def update_ok_def split: option.split)

lemma update_ok_got: "update_ok p \<Longrightarrow> update_ok (got c r p)"
  by (auto simp: got_def Let_def monitor_def update_ok_def split: option.split)

lemma update_ok_install:
  assumes "update_ok p" "\<not> starting p" "install_dialog p = None"
  shows "update_ok (install c p)"
proof (cases "release (state p)")
  case None
  then show ?thesis using assms by (simp add: install_def)
next
  case (Some r)
  show ?thesis
  proof (cases "busy p \<or> monitoring p \<or> \<not> mayInstall p")
    case True
    then show ?thesis using Some assms by (simp add: install_def)
  next
    case False
    then have "newer_package (rel_tag r) (the (rel_file r)) (installed_version p)"
      using Some mayInstall_newer by blast
    then show ?thesis
      using False Some assms by (simp add: install_def Let_def monitor_def update_ok_def)
  qed
qed

lemma update_ok_check:
  assumes "update_ok p" "connected p"
  shows "update_ok (check c p)"
  using assms by (auto simp: check_def update_ok_def)

lemma update_ok_checked: "update_ok p \<Longrightarrow> update_ok (checked c r p)"
  by (auto simp: checked_def check_failed_def Let_def monitor_def update_ok_def split: option.split if_splits)

lemma update_ok_installing:
  assumes "update_ok p"
  shows "update_ok (installing c r p)"
proof (cases "starting_calls p = []")
  case False
  then have n: "tl (starting_calls p) = []" using assms
    by (cases "starting_calls p") (auto simp: update_ok_def split: if_splits)
  have s: "starting p" using assms False by (auto simp: update_ok_def split: if_splits)
  then have b: "check_calls p = 0" "\<not> busy p" using assms by (auto simp: update_ok_def)
  have ok: "update_ok q" if "check_calls q = 0" "\<not> busy q" "starting_calls q = []" "\<not> starting q" "started q = started p" for q
    using that assms by (simp add: update_ok_def)
  show ?thesis
    using False n b
    by (auto simp: installing_def Let_def reconnecting_def stopMonitoring_def monitor_def
        split: option.split intro!: ok update_ok_watch)
qed (simp add: installing_def assms)

lemma update_ok_step:
  assumes "update_ok p"
  shows "update_ok (update_step c e p)"
proof (cases e)
  case Enter
  then show ?thesis using assms by (auto simp: update_ok_def)
next
  case Leave
  then show ?thesis using assms by (auto simp: update_ok_def)
next
  case Click_Install
  then show ?thesis using assms by (auto simp: confirmInstall_def update_ok_def)
next
  case (Dialog_Answer yes)
  have "update_ok (p\<lparr>confirming := False, install_dialog := None\<rparr>)" using assms by (simp add: update_ok_def)
  then show ?thesis
    using Dialog_Answer assms update_ok_install[of "p\<lparr>confirming := False, install_dialog := None\<rparr>" c]
    by (auto simp: Let_def update_ok_def[of p])
qed (use assms in \<open>simp_all add: update_ok_watch update_ok_watched update_ok_got update_ok_check update_ok_checked update_ok_installing\<close>)

lemma update_ok_session: "update_session cs n p \<Longrightarrow> update_ok p"
proof (induction rule: update_session.induct)
  case (start st ed)
  show ?case by (simp add: new_panel_def update_ok_def blank_page_def Let_def)
qed (rule update_ok_step)

section \<open>Versions as texts\<close>

lemma dec_value_snoc: "dec_value (s @ [c]) = 10 * dec_value s + (c - 48)"
  by (simp add: dec_value_def)

lemma dec_value_dec_text [simp]: "dec_value (dec_text n) = int n"
proof (induction n rule: dec_text.induct)
  case (1 n)
  show ?case
  proof (cases "n < 10")
    case True
    then show ?thesis by (subst dec_text.simps) (simp add: dec_value_def)
  next
    case False
    have "10 * int (n div 10) + int (n mod 10) = int n" by (metis mult_div_mod_eq of_nat_add of_nat_mult of_nat_numeral)
    then show ?thesis using 1 False by (subst dec_text.simps) (simp add: dec_value_snoc)
  qed
qed

text \<open>What follows a number.\<close>

definition stops :: "jstr \<Rightarrow> bool" where
  "stops s \<longleftrightarrow> s = [] \<or> \<not> is_digit (hd s)"

lemma num_first: "stops s \<Longrightarrow> re_first num_re (dec_text n @ s, c) = Some (s, c)"
proof -
  assume s: "stops s"
  obtain d ds where t: "dec_text n = d # ds" "is_digit d" "\<forall>c\<in>set ds. is_digit c" by (rule dec_text_Cons)
  have "takeWhile is_digit (d # ds @ s) = d # ds"
    using takeWhile_stop[of "d # ds" is_digit s] t s by (auto simp: stops_def)
  then show ?thesis using t by (simp add: num_re_def re_first_def)
qed

lemma dot_num_first: "stops s \<Longrightarrow> re_first dot_num (46 # dec_text n @ s, c) = Some (s, c)"
  unfolding dot_num_def by (rule re_first_Cat[OF _ num_first]) (simp_all add: re_first_Chr)

lemma dot_num_none: "s = [] \<or> hd s \<noteq> 46 \<Longrightarrow> re_first (Opt (Cat dot_num r)) (s, c) = Some (s, c)"
  "s = [] \<or> hd s \<noteq> 46 \<Longrightarrow> re_first (Opt dot_num) (s, c) = Some (s, c)"
  by (cases s; simp add: re_first_def dot_num_def)+

lemma dot_num_some:
  "stops s \<Longrightarrow> re_first (Opt dot_num) (46 # dec_text n @ s, c) = Some (s, c)"
  by (rule re_first_Opt_some[OF dot_num_first]) simp_all

definition after_numbers :: "jstr \<Rightarrow> bool" where
  "after_numbers s \<longleftrightarrow> s = [] \<or> \<not> is_digit (hd s) \<and> hd s \<noteq> 46"

lemma after_numbers_stops [simp]: "after_numbers s \<Longrightarrow> stops s" "stops (46 # s)"
  by (auto simp: after_numbers_def stops_def is_digit_def)

lemma nums_first:
  assumes "after_numbers s" "length ns \<in> {2, 3, 4}"
  shows "re_first nums_re (js_join [46] (map dec_text ns) @ s, c) = Some (s, c)"
proof -
  have e: "s = [] \<or> hd s \<noteq> 46" using assms(1) by (auto simp: after_numbers_def)
  note st = after_numbers_stops(1)[OF assms(1)]
  have *: "re_first (Opt (Cat dot_num (Opt dot_num))) (46 # dec_text n @ u, c) = Some (s, c)"
    if "re_first (Opt dot_num) (u, c) = Some (s, c)" "stops u" "length s \<le> length u" for n u
    by (rule re_first_Opt_some[OF re_first_Cat[OF dot_num_first that(1)]]) (use that in simp_all)
  have **: "re_first nums_re (dec_text a @ 46 # dec_text b @ u, c) = Some (s, c)"
    if "re_first (Opt (Cat dot_num (Opt dot_num))) (u, c) = Some (s, c)" "stops u" for a b u
    unfolding nums_re_def
    by (rule re_first_Cat[OF num_first re_first_Cat[OF dot_num_first that(1)]]) (use that in simp_all)
  consider a b where "ns = [a, b]" | a b d where "ns = [a, b, d]" | a b d f where "ns = [a, b, d, f]"
    using assms(2) by (auto simp: length_Suc_conv numeral_eq_Suc)
  then show ?thesis
  proof cases
    case 1
    then show ?thesis using **[OF dot_num_none(1)[OF e] st] by simp
  next
    case 2
    then show ?thesis using **[OF *[OF dot_num_none(2)[OF e] st]] by simp
  next
    case 3
    then show ?thesis using **[OF *[OF dot_num_some[OF st]]] by simp
  qed
qed

datatype stage = Alpha | Beta | Rc

fun stage_text :: "stage \<Rightarrow> jstr" where
  "stage_text Alpha = js ''alpha''"
| "stage_text Beta = js ''beta''"
| "stage_text Rc = js ''rc''"

fun stage_number :: "stage \<Rightarrow> int" where
  "stage_number Alpha = 0"
| "stage_number Beta = 1"
| "stage_number Rc = 2"

lemma stage_first: "stops s \<Longrightarrow> re_first stage_re (stage_text g @ s, c) = Some (s, c)"
  by (cases g) (simp_all add: stage_re_def re_first_def js_def)

lemma stage_text_facts [simp]:
  "stage_text g \<noteq> []" "stage_rank (stage_text g) = stage_number g"
  by (cases g; simp add: js_def stage_rank_def)+

definition pre_text :: "(stage \<times> nat) option \<Rightarrow> jstr" where
  "pre_text pre = (case pre of None \<Rightarrow> [] | Some (g, n) \<Rightarrow> 126 # stage_text g @ dec_text n)"

definition revision_text :: "nat option \<Rightarrow> jstr" where
  "revision_text rv = (case rv of None \<Rightarrow> [] | Some n \<Rightarrow> 45 # 114 # dec_text n)"

definition version_text :: "nat list \<Rightarrow> (stage \<times> nat) option \<Rightarrow> nat option \<Rightarrow> jstr" where
  "version_text ns pre rv = js_join [46] (map dec_text ns) @ pre_text pre @ revision_text rv"

lemma Grp_first: "re_first a (x @ s, c) = Some (s, d) \<Longrightarrow> re_first (Grp i a) (x @ s, c) = Some (s, d(i := Some x))"
  by (simp add: re_first_Grp)

lemma digit_not_stage: "re_run stage_re (dec_text n @ s, c) = []" "re_run stage_re (114 # dec_text n @ s, c) = []"
proof -
  obtain d ds where t: "dec_text n = d # ds" "is_digit d" "\<forall>c\<in>set ds. is_digit c" by (rule dec_text_Cons)
  show "re_run stage_re (dec_text n @ s, c) = []" "re_run stage_re (114 # dec_text n @ s, c) = []"
    using t(2) unfolding t(1) by (auto simp: stage_re_def js_def is_digit_def)
qed

lemma revision_first:
  "re_first (Cat (Opt revision_re) End) (revision_text rv, c) =
     Some ([], case rv of None \<Rightarrow> c | Some n \<Rightarrow> c(6 := Some (dec_text n)))"
proof (cases rv)
  case None
  then show ?thesis by (simp add: revision_text_def revision_re_def re_first_def)
next
  case (Some n)
  have "re_first (Grp 6 num_re) (dec_text n @ [], c) = Some ([], c(6 := Some (dec_text n)))"
    by (rule Grp_first[OF num_first]) (simp add: stops_def)
  then have g: "re_first (Grp 6 num_re) (dec_text n, c) = Some ([], c(6 := Some (dec_text n)))" by simp
  have "re_first revision_re (45 # 114 # dec_text n, c) = Some ([], c(6 := Some (dec_text n)))"
    unfolding revision_re_def
    by (rule re_first_Cat[where y = "(114 # dec_text n, c)"], simp add: re_first_Chr)
      (rule re_first_Cat[OF re_first_Opt_some g], simp_all add: re_first_Chr)
  from re_first_Opt_some[OF this] show ?thesis
    using Some by (intro re_first_Cat[where y = "([], c(6 := Some (dec_text n)))"]) (simp_all add: revision_text_def re_first_End)
qed

lemma revision_stops [simp]: "stops (revision_text rv)"
  by (simp add: stops_def revision_text_def is_digit_def split: option.split)

lemma pre_first:
  "re_first (Opt pre_re) (pre_text pre @ revision_text rv, c) =
     Some (revision_text rv, case pre of None \<Rightarrow> c | Some (g, n) \<Rightarrow> c(2 := Some (stage_text g), 3 := Some (dec_text n)))"
proof (cases pre)
  case None
  have "re_run pre_re (revision_text rv, c) = []"
    using digit_not_stage[of _ "[]"] by (simp add: pre_re_def revision_text_def split: option.split)
  then show ?thesis using None by (simp add: pre_text_def re_first_Opt_none re_first_None)
next
  case (Some x)
  obtain g n where x: "x = (g, n)" by (cases x)
  have st: "stops (dec_text n @ revision_text rv) \<or> True" by simp
  have "re_first stage_re (stage_text g @ (dec_text n @ revision_text rv), c) = Some (dec_text n @ revision_text rv, c)"
    by (cases g) (simp_all add: stage_re_def re_first_def js_def)
  from Grp_first[OF this] have g: "re_first (Grp 2 stage_re) (stage_text g @ dec_text n @ revision_text rv, c) =
      Some (dec_text n @ revision_text rv, c(2 := Some (stage_text g)))" by simp
  have "re_first (Cat (Alt (Chr ((=) 126)) (Chr ((=) 95))) (Cat (Grp 2 stage_re) (Grp 3 num_re)))
      (126 # stage_text g @ dec_text n @ revision_text rv, c) =
      Some (revision_text rv, c(2 := Some (stage_text g), 3 := Some (dec_text n)))"
    by (rule re_first_Cat[where y = "(stage_text g @ dec_text n @ revision_text rv, c)"], simp add: re_first_def)
      (rule re_first_Cat[OF g Grp_first[OF num_first]], simp)
  then have "re_first pre_re (126 # stage_text g @ dec_text n @ revision_text rv, c) =
      Some (revision_text rv, c(2 := Some (stage_text g), 3 := Some (dec_text n)))"
    unfolding pre_re_def by (simp add: re_first_def split: list.splits)
  from re_first_Opt_some[OF this] show ?thesis using Some x by (simp add: pre_text_def)
qed

lemma pre_after_numbers [simp]: "after_numbers (pre_text pre @ revision_text rv)"
  by (cases pre; cases rv) (auto simp: after_numbers_def pre_text_def revision_text_def is_digit_def)

text \<open>The captures of a version.\<close>

definition version_caps :: "nat list \<Rightarrow> (stage \<times> nat) option \<Rightarrow> nat option \<Rightarrow> caps" where
  "version_caps ns pre rv =
     (let c1 = (\<lambda>i. None)(1 := Some (js_join [46] (map dec_text ns)));
          c2 = (case pre of None \<Rightarrow> c1 | Some (g, n) \<Rightarrow> c1(2 := Some (stage_text g), 3 := Some (dec_text n)))
      in case rv of None \<Rightarrow> c2 | Some n \<Rightarrow> c2(6 := Some (dec_text n)))"

lemma version_match:
  assumes "length ns \<in> {2, 3, 4}"
  shows "re_match version_re (version_text ns pre rv) = Some (version_caps ns pre rv)"
proof -
  let ?nums = "js_join [46] (map dec_text ns)" and ?rest = "pre_text pre @ revision_text rv"
  obtain n ns' where ns: "ns = n # ns'" using assms by (cases ns) auto
  obtain d ds where t: "dec_text n = d # ds" "is_digit d" by (rule dec_text_Cons)
  have hd: "?nums = d # ds @ (if ns' = [] then [] else 46 # js_join [46] (map dec_text ns'))"
    using ns t(1) by (simp add: js_join_Cons)
  have v: "re_first (Opt (Chr ((=) 118))) (?nums @ ?rest, \<lambda>i. None) = Some (?nums @ ?rest, \<lambda>i. None)"
    using t(2) unfolding hd by (simp add: re_first_def is_digit_def)
  have n: "re_first (Grp 1 nums_re) (?nums @ ?rest, \<lambda>i. None) = Some (?rest, (\<lambda>i. None)(1 := Some ?nums))"
    by (rule Grp_first[OF nums_first[OF pre_after_numbers assms]])
  have "re_first (Cat (Opt (Chr ((=) 118))) (Cat (Grp 1 nums_re) (Cat (Opt pre_re) (Cat (Opt revision_re) End))))
      (?nums @ ?rest, \<lambda>i. None) = Some ([], version_caps ns pre rv)"
    unfolding version_caps_def Let_def by (rule re_first_Cat[OF v re_first_Cat[OF n re_first_Cat[OF pre_first revision_first]]])
  then show ?thesis by (simp only: re_match_def version_text_def version_re_def option.map snd_conv)
qed

lemma version_caps_parts:
  assumes "length ns \<in> {2, 3, 4}"
  shows "version_parts (version_caps ns pre rv) = map int ns @ replicate (4 - length ns) 0 @
    [case pre of None \<Rightarrow> 3 | Some (g, n) \<Rightarrow> stage_number g, case pre of None \<Rightarrow> 0 | Some (g, n) \<Rightarrow> int n,
     case rv of None \<Rightarrow> 1 | Some n \<Rightarrow> int n]"
proof -
  let ?nums = "js_join [46] (map dec_text ns)"
  have ne: "ns \<noteq> []" using assms by auto
  have no_dot: "46 \<notin> set (dec_text n)" for n
    using dec_text_digits[of 46 n] by (auto simp: is_digit_def)
  have split: "js_split [46] ?nums = map dec_text ns"
    using ne no_dot by (intro js_split_join) auto
  have full: "truthy ?nums" using ne by (cases ns) (simp_all add: truthy_def)
  have t: "truthy (dec_text n)" "truthy (stage_text g)" for n g by (simp_all add: truthy_def)
  have num: "dec_value [48] = 0" "dec_value [49] = 1" "stage_rank [] = 3"
    by (simp_all add: dec_value_def stage_rank_def js_def)
  have c: "group_or (version_caps ns pre rv) 1 [] = ?nums"
    "stage_rank (group_or (version_caps ns pre rv) 2 (group_or (version_caps ns pre rv) 4 [])) =
       (case pre of None \<Rightarrow> 3 | Some (g, n) \<Rightarrow> stage_number g)"
    "dec_value (group_or (version_caps ns pre rv) 3 (group_or (version_caps ns pre rv) 5 [48])) =
       (case pre of None \<Rightarrow> 0 | Some (g, n) \<Rightarrow> int n)"
    "dec_value (group_or (version_caps ns pre rv) 6 [49]) = (case rv of None \<Rightarrow> 1 | Some n \<Rightarrow> int n)"
    by (cases pre; cases rv; simp add: version_caps_def group_or_def or_else_def full t num split: prod.split)+
  show ?thesis
    unfolding version_parts_def Let_def c split by (simp add: comp_def)
qed

section \<open>Claims on updates\<close>

text \<open>
  C22: a version written the way releases are named, from two to four numbers, perhaps a stage and a
  revision, is read as these parts: missing numbers are 0, no stage ranks above every stage, and the
  revision is 1 unless given.
\<close>

theorem version_read:
  assumes "length ns \<in> {2, 3, 4}" "length (version_text ns pre rv) \<le> 80"
    and "\<forall>n\<in>set ns. int n \<le> max_safe" "\<forall>(g, n)\<in>set_option pre. int n \<le> max_safe" "\<forall>n\<in>set_option rv. int n \<le> max_safe"
  shows "version (Some (version_text ns pre rv)) = Some (map int ns @ replicate (4 - length ns) 0 @
    [case pre of None \<Rightarrow> 3 | Some (g, n) \<Rightarrow> stage_number g, case pre of None \<Rightarrow> 0 | Some (g, n) \<Rightarrow> int n,
     case rv of None \<Rightarrow> 1 | Some n \<Rightarrow> int n])"
proof -
  let ?parts = "version_parts (version_caps ns pre rv)"
  have small: "stage_number g \<le> max_safe" "(0::int) \<le> max_safe" "(1::int) \<le> max_safe" "(3::int) \<le> max_safe" for g
    by (cases g) (simp_all add: max_safe_def)
  have "\<forall>n\<in>set ?parts. n \<le> max_safe"
    unfolding version_caps_parts[OF assms(1)] using assms(3-5) small by (auto split: option.splits)
  then show ?thesis
    using assms(2) by (simp add: version_def version_match[OF assms(1)] Let_def version_caps_parts[OF assms(1)])
qed

theorem version_read_witness:
  "version (Some (version_text [2, 4, 10] (Some (Rc, 3)) (Some 7))) = Some [2, 4, 10, 0, 2, 3, 7]"
  using version_read[of "[2, 4, 10]" "Some (Rc, 3)" "Some 7"]
  by (simp add: max_safe_def version_text_def pre_text_def revision_text_def js_def dec_text.simps)

text \<open>Versions of one length are in lexicographic order.\<close>

lemma compare_order:
  assumes "length a = length b" "length b = length d"
  shows "compare a b = 0 \<longleftrightarrow> a = b" "compare b a = - compare a b" "compare a b < 0 \<Longrightarrow> compare b d < 0 \<Longrightarrow> compare a d < 0"
proof -
  show "compare a b = 0 \<longleftrightarrow> a = b" using assms(1) by (induction a b rule: list_induct2) auto
  show "compare b a = - compare a b" using assms(1) by (induction a b rule: list_induct2) auto
  show "compare a b < 0 \<Longrightarrow> compare b d < 0 \<Longrightarrow> compare a d < 0"
    using assms by (induction a b d rule: list_induct3) (auto split: if_splits)
qed

text \<open>
  C2: whatever order polls, clicks and replies come in, every request for an installation names a
  package whose name holds a stable version, the one of the release's tag, that comes after the
  version installed then; and at most one request, for a check or an installation, is unanswered.
\<close>

theorem updates_only_forward:
  assumes "update_session cs n p"
  shows "(\<forall>(tg, file, cur)\<in>set (started p). newer_package tg file cur) \<and> check_calls p + length (starting_calls p) \<le> 1"
  using update_ok_session[OF assms] by (auto simp: update_ok_def)

definition example_state :: update_state where
  "example_state = no_state\<lparr>tag := Some (js ''v2.4''), package_manager := Some (js ''opkg''),
     ipk := Some (js ''luci-theme-argon_2.4-1_all.ipk''), current_version := Some (js ''2.3''), can_upgrade := True, result := Some 0\<rparr>"

lemma example_release:
  "release (Some example_state) = Some \<lparr>rel_tag = js ''v2.4'', rel_file = Some (js ''luci-theme-argon_2.4-1_all.ipk''),
     rel_version = js ''2.4-1'', rel_parsed = Some [2, 4, 0, 0, 3, 0, 1]\<rparr>"
  by code_simp

lemma example_version: "version (Some (js ''2.3'')) = Some [2, 3, 0, 0, 3, 0, 1]"
  by code_simp

lemma example_mayInstall: "state p = Some example_state \<Longrightarrow> editable p \<Longrightarrow> mayInstall p"
  by (simp add: mayInstall_def order_of_def installed_version_def example_release needsReload_def current_job_def)
    (simp add: example_state_def no_state_def example_version)

definition example_clock :: clock where
  "example_clock = \<lparr>now_ms = 0, time_text = (\<lambda>t. []), date_time_text = (\<lambda>t. [])\<rparr>"

fun run_updates :: "update_event list \<Rightarrow> update_page \<Rightarrow> update_page" where
  "run_updates [] p = p"
| "run_updates (e # es) p = run_updates es (update_step example_clock e p)"

lemma run_updates_session:
  "update_session (\<lambda>i. example_clock) n p \<Longrightarrow> update_session (\<lambda>i. example_clock) (n + length es) (run_updates es p)"
proof (induction es arbitrary: n p)
  case (Cons e es)
  from Cons.IH[OF update_session.move[OF Cons.prems, of e]] show ?case by simp
qed simp

definition example_page :: update_page where
  "example_page = run_updates [Enter, Click_Install, Dialog_Answer True] (new_panel example_clock (Some example_state) True)"

lemma example_page_started:
  "started example_page = [(js ''v2.4'', js ''luci-theme-argon_2.4-1_all.ipk'', Some (js ''2.3''))]"
proof -
  let ?p = "(new_panel example_clock (Some example_state) True)\<lparr>connected := True\<rparr>"
  have p: "state ?p = Some example_state" "editable ?p" "\<not> busy ?p" "\<not> monitoring ?p" "\<not> confirming ?p" "\<not> attached ?p" "started ?p = []"
    by (simp_all add: new_panel_def blank_page_def Let_def example_state_def no_state_def)
  let ?q = "(refresh example_clock (?p\<lparr>confirming := True\<rparr>))\<lparr>install_dialog := Some (js ''2.4-1'')\<rparr>"
  have "confirmInstall example_clock ?p = ?q"
    using p example_mayInstall[of ?p] by (simp add: confirmInstall_def example_release)
  then have e: "example_page = install example_clock (?q\<lparr>confirming := False, install_dialog := None\<rparr>)"
    using p by (simp add: example_page_def new_panel_def blank_page_def Let_def)
  have m: "mayInstall (?q\<lparr>confirming := False, install_dialog := None\<rparr>)"
    using p by (intro example_mayInstall) simp_all
  show ?thesis
    unfolding e using p m
    by (simp add: install_def example_release monitor_def Let_def installed_version_def) (simp add: example_state_def no_state_def)
qed

theorem updates_only_forward_witness:
  "newer_package (js ''v2.4'') (js ''luci-theme-argon_2.4-1_all.ipk'') (Some (js ''2.3''))"
proof -
  have "update_session (\<lambda>i. example_clock) (0 + length [Enter, Click_Install, Dialog_Answer True]) example_page"
    unfolding example_page_def by (rule run_updates_session[OF update_session.start])
  from updates_only_forward[OF this] show ?thesis by (simp add: example_page_started)
qed

end
