(* ===== verification/Node_List_Sort.thy ===== *)
theory Node_List_Sort
  imports Js_Sort Js_Object Js_Regex Vmess_Links Complex_Main "HOL-Library.AList"
begin

text \<open>
  The node list of Passwall (\<open>view/passwall/node_list_sort.js\<close>): headers that sort the rows of a
  group, and a bar that filters them. A row is the data the script reads and writes of its
  \<open>tr\<close>: its identifier, classes, cells and check box. Sorting moves the rows of the table's
  body and stores their order for the form; a filter toggles the class \<open>pw-row-hidden\<close> and clears
  the check boxes of the rows it hides; a sort requested while the automatic detection is running
  waits for it. Clicks, choices, the two timers, results of the detection, drags and check
  boxes are events that interleave (\<open>node_step\<close>).

  Latencies are exact rationals. The collation of \<open>Intl.Collator\<close>, the Unicode classes of
  letters and digits, and \<open>toLowerCase\<close> are fields of \<open>ui\<close>. Identifiers in the document
  are unique, the input that holds a group's order exists, and no type shown is
  the name of a property of \<open>Object.prototype\<close>.
\<close>

section \<open>The page\<close>

record ui =
  app :: jstr
  texts :: "jstr obj"
  root :: bool
  bound :: bool
  collator :: "jstr comparator option"
  separator :: "jstr \<Rightarrow> bool"
  lower :: "jstr \<Rightarrow> jstr"
  value_of :: "jstr \<Rightarrow> jstr option"
  mode :: "string option"

record cell =
  cell_tag :: string
  cell_classes :: "string list"
  content :: jstr

record node_row =
  row_tag :: string
  elem_id :: jstr
  classes :: "string list"
  children :: "cell list"
  picked :: "bool option"

text \<open>
  A sortable header with its data attributes \<open>pwKey\<close>, \<open>pwDir\<close> (\<open>mark\<close>; whether it is
  descending), its arrow and the controls inside it, each with whether it is active.
\<close>

record node_header =
  sort_attr :: string
  mark :: "(string \<times> bool) option"
  arrow :: jstr
  subs :: "(string \<times> bool) list"

text \<open>\<open>__pwF\<close>; a filter without a choice has the empty one.\<close>

record filter_state =
  choices :: "string \<Rightarrow> jstr"
  query :: jstr

record filter_select =
  s_key :: string
  s_label :: jstr
  s_options :: "(jstr \<times> jstr) list"
  s_value :: jstr

record filter_bar =
  selects :: "filter_select list"
  search_box :: "jstr option"
  count_text :: jstr
  filter_on :: bool

text \<open>The interval of \<open>requestSort\<close> with the variables of its closure (\<open>__pwWait\<close>).\<close>

record waiting =
  started :: int
  idle :: nat
  w_header :: nat
  w_sub :: "string option"
  w_key :: string

record node_table =
  table_id :: jstr
  attached :: bool
  titles :: "cell list option"
  body :: "node_row list"
  ready :: bool
  orig :: "jstr list"
  headers :: "node_header list"
  filtering :: "filter_state option"
  signature :: "jstr option"
  bar :: "filter_bar option"
  wait :: "waiting option"
  note_text :: "jstr option"
  order_value :: jstr
  all_box :: bool

record node_page =
  tables :: "node_table list"
  displayed :: "nat option"
  all_button :: bool
  requests :: "nat list"
  spans :: "(string \<times> jstr \<times> jstr) list"
  search_timer :: "(nat \<times> jstr) option"

section \<open>Texts and values\<close>

text \<open>\<open>s.replace(a, b)\<close> with a string \<open>a\<close>\<close>

definition replace_first :: "jstr \<Rightarrow> jstr \<Rightarrow> jstr \<Rightarrow> jstr" where
  "replace_first a b s = (case index_of a s of None \<Rightarrow> s | Some i \<Rightarrow> take i s @ b @ drop (i + length a) s)"

definition T :: "ui \<Rightarrow> string \<Rightarrow> jstr" where
  "T u key = (case obj_get (texts u) (js key) of None \<Rightarrow> js key | Some value \<Rightarrow> or_else value (js key))"

definition readText :: "(jstr \<times> jstr) list \<Rightarrow> jstr obj" where
  "readText box = fold (\<lambda>(k, v) m. obj_set m k v) box []"

definition init :: "(jstr option \<times> (jstr \<times> jstr) list) option \<Rightarrow> bool \<Rightarrow> jstr comparator option \<Rightarrow> ui \<Rightarrow> ui" where
  "init box list intl u =
     (case box of
        None \<Rightarrow> u
      | Some (data_app, ks) \<Rightarrow>
          if \<not> list then u
          else u\<lparr>app := or_else (case data_app of Some a \<Rightarrow> a | None \<Rightarrow> []) (js ''passwall''),
                 texts := readText ks, root := True, collator := intl, bound := True\<rparr>)"

text \<open>\<open>a < b\<close> on strings, by code units\<close>

fun compare_units :: "jstr comparator" where
  "compare_units [] [] = 0"
| "compare_units [] (y # ys) = -1"
| "compare_units (x # xs) [] = 1"
| "compare_units (x # xs) (y # ys) = (if x < y then -1 else if y < x then 1 else compare_units xs ys)"

definition cmpText :: "ui \<Rightarrow> jstr comparator" where
  "cmpText u a b = (case collator u of Some f \<Rightarrow> f a b | None \<Rightarrow> compare_units a b)"

text \<open>\<open>replace(/\s+/g, ' ')\<close>\<close>

fun collapse_ws :: "jstr \<Rightarrow> jstr" where
  "collapse_ws [] = []"
| "collapse_ws (c # s) =
     (if \<not> is_ws c then c # collapse_ws s
      else (case s of d # t \<Rightarrow> if is_ws d then collapse_ws s else 32 # collapse_ws s | [] \<Rightarrow> [32]))"

definition latency_re :: re where
  "latency_re =
     Cat (Grp 1 (Cat (Many1 is_digit) (Opt (Cat (Chr (\<lambda>c. c = 46 \<or> c = 44)) (Many1 is_digit)))))
       (Cat (Many is_ws)
         (Cat (Opt (Grp 2 (Alt (Cat (Chr (\<lambda>c. c = 109 \<or> c = 77)) (Chr (\<lambda>c. c = 115 \<or> c = 83))) (Chr (\<lambda>c. c = 115 \<or> c = 83))))) End))"

text \<open>\<open>parseFloat\<close> of digits, with or without a point and more digits\<close>

definition decimal :: "jstr \<Rightarrow> rat" where
  "decimal s =
     (let whole = takeWhile is_digit s; fraction = takeWhile is_digit (drop 1 (dropWhile is_digit s))
      in of_int (dec_value whole) + of_int (dec_value fraction) / 10 ^ length fraction)"

definition parseLatency :: "jstr \<Rightarrow> rat option" where
  "parseLatency t =
     (case re_match latency_re (trim (collapse_ws t)) of
        None \<Rightarrow> None
      | Some m \<Rightarrow>
          (let v = decimal (replace_first [44] [46] (case m 1 of Some d \<Rightarrow> d | None \<Rightarrow> []))
           in Some (case m 2 of Some [c] \<Rightarrow> v * 1000 | _ \<Rightarrow> v)))"

definition hiddenVal :: "ui \<Rightarrow> jstr \<Rightarrow> string \<Rightarrow> jstr" where
  "hiddenVal u i opt =
     (case value_of u (js ''cbid.'' @ app u @ js ''.'' @ i @ js ''.'' @ js opt) of Some v \<Rightarrow> trim v | None \<Rightarrow> [])"

section \<open>Rows, columns and keys\<close>

definition cellsOf :: "node_row \<Rightarrow> cell list" where
  "cellsOf tr = filter (\<lambda>d. cell_tag d = ''TD'' \<or> cell_tag d = ''TH'') (children tr)"

text \<open>A string as the code points the regular expression sees, and its parts between separators\<close>

fun points :: "jstr \<Rightarrow> jstr list" where
  "points [] = []"
| "points [h] = [[h]]"
| "points (h # l # s) =
     (if 0xD800 \<le> h \<and> h < 0xDC00 \<and> 0xDC00 \<le> l \<and> l < 0xE000 then [h, l] # points s else [h] # points (l # s))"

function split_runs :: "('a \<Rightarrow> bool) \<Rightarrow> 'a list \<Rightarrow> 'a list list" where
  "split_runs sep xs =
     (if dropWhile (\<lambda>x. \<not> sep x) xs = [] then [xs]
      else takeWhile (\<lambda>x. \<not> sep x) xs # split_runs sep (dropWhile sep (dropWhile (\<lambda>x. \<not> sep x) xs)))"
  by pat_completeness auto
termination
proof (relation "measure (\<lambda>(sep, xs). length xs)", goal_cases)
  case (2 sep xs)
  let ?r = "dropWhile (\<lambda>x. \<not> sep x) xs"
  obtain y ys where r: "?r = y # ys" using 2 by (cases ?r) auto
  then have "sep y" using hd_dropWhile[of "\<lambda>x. \<not> sep x" xs] by simp
  then have "length (dropWhile sep ?r) \<le> length ys" using r by (simp add: length_dropWhile_le)
  moreover have "length ?r \<le> length xs" by (rule length_dropWhile_le)
  ultimately show ?case using r by simp
qed simp

declare split_runs.simps [simp del]

definition wordsOf :: "ui \<Rightarrow> jstr \<Rightarrow> jstr list" where
  "wordsOf u s =
     fst (fold
       (\<lambda>w (out, seen).
          if length w < 2 \<or> list_all is_digit w then (out, seen)
          else if lower u w \<in> set proto_names \<or> lower u w \<in> set seen then (out, seen)
          else (out @ [w], lower u w # seen))
       (map concat (split_runs (separator u) (points s))) ([], []))"

definition infoOf :: "ui \<Rightarrow> node_table \<Rightarrow> jstr option" where
  "infoOf u t =
     (let prefix = js ''cbi-'' @ app u @ js ''-nodes-''; i = table_id t
      in if \<not> starts_with prefix i \<or> drop (length i - 6) i \<noteq> js ''-table'' then None
         else Some (take (length i - 6 - length prefix) (drop (length prefix) i)))"

definition row_prefix :: "ui \<Rightarrow> jstr" where
  "row_prefix u = js ''cbi-'' @ app u @ js ''-''"

definition rowId :: "ui \<Rightarrow> node_row \<Rightarrow> jstr" where
  "rowId u tr = (if starts_with (row_prefix u) (elem_id tr) then drop (length (row_prefix u)) (elem_id tr) else elem_id tr)"

definition is_data :: "node_row \<Rightarrow> bool" where
  "is_data tr \<longleftrightarrow> row_tag tr = ''TR'' \<and> ''cbi-section-table-row'' \<in> set (classes tr) \<and> ''placeholder'' \<notin> set (classes tr)"

definition dataRows :: "node_table \<Rightarrow> node_row list" where
  "dataRows t = filter is_data (body t)"

definition COLUMNS :: "(string \<times> string) list" where
  "COLUMNS = [(''pw-remark'', ''name''), (''pw-ping'', ''ping''), (''pw-tcping'', ''tcping''), (''pw-urltest'', ''urltest'')]"

type_synonym columns = "(string \<times> nat) list"

definition colIndexMap :: "node_table \<Rightarrow> columns" where
  "colIndexMap t =
     (case dataRows t of
        [] \<Rightarrow> []
      | r # _ \<Rightarrow>
          fold (\<lambda>(i, d) m. fold (\<lambda>(cls, col) m. if cls \<in> set (cell_classes d) then AList.update col i m else m) COLUMNS m)
            (enumerate 0 (cellsOf r)) [])"

definition column_cell :: "node_row \<Rightarrow> columns \<Rightarrow> string \<Rightarrow> cell option" where
  "column_cell tr cols key =
     (case map_of cols key of
        None \<Rightarrow> None
      | Some i \<Rightarrow> if i < length (cellsOf tr) then Some (cellsOf tr ! i) else None)"

text \<open>\<open>replace(/\s+Realm$/, '')\<close>\<close>

definition strip_realm :: "jstr \<Rightarrow> jstr" where
  "strip_realm s =
     (let p = take (length s - 5) s
      in if drop (length s - 5) s = js ''Realm'' \<and> p \<noteq> [] \<and> is_ws (last p) then rev (dropWhile is_ws (rev p)) else s)"

definition typeOf :: "ui \<Rightarrow> node_row \<Rightarrow> columns \<Rightarrow> jstr" where
  "typeOf u tr cols =
     (let s = (case column_cell tr cols ''name'' of Some d \<Rightarrow> trim (collapse_ws (content d)) | None \<Rightarrow> []);
          i = (case index_of [0xFF1A] s of None \<Rightarrow> index_of [58] s | j \<Rightarrow> j)
      in trim (strip_realm (case i of None \<Rightarrow> [] | Some j \<Rightarrow> take j s)))"

datatype node_key = Missing | Words jstr | Number rat

definition port_text :: "jstr \<Rightarrow> jstr" where
  "port_text p = (let s = js ''00000'' @ p in drop (length s - 5) s)"

definition sortKey :: "ui \<Rightarrow> node_row \<Rightarrow> string \<Rightarrow> columns \<Rightarrow> node_key" where
  "sortKey u tr key cols =
     (let i = rowId u tr
      in if key = ''name'' then
           Words (or_else (hiddenVal u i ''remarks'') (case column_cell tr cols ''name'' of Some d \<Rightarrow> trim (content d) | None \<Rightarrow> []))
         else if key = ''type'' then Words (typeOf u tr cols @ [0] @ hiddenVal u i ''remarks'')
         else if key = ''addr'' then
           (if hiddenVal u i ''address'' = [] then Missing
            else Words (hiddenVal u i ''address'' @ [0] @ port_text (hiddenVal u i ''port'')))
         else (case column_cell tr cols key of
                 None \<Rightarrow> Missing
               | Some d \<Rightarrow> (case parseLatency (content d) of None \<Rightarrow> Missing | Some v \<Rightarrow> Number v)))"

section \<open>The automatic detection\<close>

text \<open>
  \<open>get_address_full\<close> of the template, and the cells that still wait for a result: \<open>---\<close>
  under an address that can be tested.
\<close>

definition get_address_full :: "ui \<Rightarrow> jstr \<Rightarrow> jstr \<times> jstr" where
  "get_address_full u i =
     (let v = (\<lambda>opt. case value_of u (js ''cbid.'' @ app u @ js ''.'' @ i @ js opt) of Some s \<Rightarrow> s | None \<Rightarrow> []);
          address = v ''.address''
      in (if list_ex (\<lambda>c. 0x4E00 \<le> c \<and> c \<le> 0x9FFF) address then [] else address, v ''.port''))"

definition pingBusy :: "ui \<Rightarrow> node_page \<Rightarrow> nat \<times> nat" where
  "pingBusy u p =
     (if mode u \<noteq> Some ''icmp'' \<and> mode u \<noteq> Some ''tcping'' then (0, 0)
      else
        (length (filter (\<lambda>r. 0 < r \<and> r < 4) (requests p)),
         if \<not> root u then 0
         else length (filter
           (\<lambda>(cls, i, s). cls = (if mode u = Some ''tcping'' then ''tcping_value'' else ''ping_value'') \<and>
              i \<noteq> [] \<and> trim s = js ''---'' \<and>
              (case get_address_full u i of (address, port) \<Rightarrow> address \<noteq> [] \<and> (mode u = Some ''icmp'' \<or> port \<noteq> [])))
           (spans p))))"

section \<open>Notes, arrows and the order\<close>

definition show_note :: "jstr \<Rightarrow> node_table \<Rightarrow> node_table" where
  "show_note s t = t\<lparr>note_text := if s = [] then None else Some s\<rparr>"

definition setIndicator :: "nat \<Rightarrow> string option \<Rightarrow> string \<Rightarrow> bool \<Rightarrow> node_table \<Rightarrow> node_table" where
  "setIndicator th sub key desc t =
     t\<lparr>headers := map (\<lambda>(i, h).
         h\<lparr>mark := if i = th then mark h else None,
           arrow := if i = th \<and> key \<noteq> ''orig'' \<and> sub = None then (if desc then [0x25BC] else [0x25B2]) else [],
           subs := map (\<lambda>(k, _). (k, i = th \<and> key \<noteq> ''orig'' \<and> sub = Some k)) (subs h)\<rparr>)
       (enumerate 0 (headers t))\<rparr>"

definition remove_class :: "string \<Rightarrow> node_row \<Rightarrow> node_row" where
  "remove_class k r = r\<lparr>classes := filter (\<lambda>d. d \<noteq> k) (classes r)\<rparr>"

definition add_class :: "string \<Rightarrow> node_row \<Rightarrow> node_row" where
  "add_class k r = (if k \<in> set (classes r) then r else r\<lparr>classes := classes r @ [k]\<rparr>)"

definition row_style :: "nat \<Rightarrow> string" where
  "row_style n = (if even n then ''cbi-rowstyle-1'' else ''cbi-rowstyle-2'')"

text \<open>\<open>set_order\<close> of the template, for the table of the group\<close>

definition order_id :: "ui \<Rightarrow> node_row \<Rightarrow> jstr" where
  "order_id u r = replace_first (row_prefix u) [] (elem_id r)"

definition set_order :: "ui \<Rightarrow> node_table \<Rightarrow> node_table" where
  "set_order u t =
     (let rows = filter (\<lambda>r. row_tag r = ''TR'' \<and> ''cbi-section-table-row'' \<in> set (classes r)) (body t)
      in if rows = [] then t else t\<lparr>order_value := js_join [32] (map (order_id u) rows)\<rparr>)"

definition restyle :: "nat \<Rightarrow> node_row \<Rightarrow> node_row" where
  "restyle i r = add_class (row_style i) (remove_class ''cbi-rowstyle-2'' (remove_class ''cbi-rowstyle-1'' r))"

definition applyOrder :: "ui \<Rightarrow> node_row list \<Rightarrow> node_table \<Rightarrow> node_table" where
  "applyOrder u rows t =
     set_order u (t\<lparr>body := filter (\<lambda>r. \<not> is_data r) (body t) @ map (\<lambda>(i, r). restyle i r) (enumerate 0 rows)\<rparr>)"

section \<open>The filter bar\<close>

record filter_option =
  o_v :: jstr
  o_label :: jstr
  o_n :: nat

text \<open>\<open>values\<close> is \<open>get\<close>, as a list also where it is one string (\<open>multi\<close> is false).\<close>

record filter_def =
  d_key :: string
  d_label :: jstr
  multi :: bool
  min_count :: nat
  max_opts :: "nat option"
  "values" :: "node_row \<Rightarrow> jstr list"

definition filterDefs :: "ui \<Rightarrow> columns \<Rightarrow> filter_def list" where
  "filterDefs u cols =
     [\<lparr>d_key = ''type'', d_label = T u ''type'', multi = False, min_count = 1, max_opts = None,
       values = \<lambda>tr. [typeOf u tr cols]\<rparr>,
      \<lparr>d_key = ''word'', d_label = T u ''fWord'', multi = True, min_count = 2, max_opts = Some 40,
       values = \<lambda>tr. wordsOf u (hiddenVal u (rowId u tr) ''remarks'')\<rparr>]"

definition searchText :: "ui \<Rightarrow> node_row \<Rightarrow> columns \<Rightarrow> jstr" where
  "searchText u tr cols =
     (let i = rowId u tr
      in js_join [32] [typeOf u tr cols, hiddenVal u i ''remarks'', hiddenVal u i ''address'' @ js '':'' @ hiddenVal u i ''port''])"

definition item_key :: "ui \<Rightarrow> filter_def \<Rightarrow> jstr \<Rightarrow> jstr" where
  "item_key u d item = (if multi d then lower u item else item)"

definition bump :: "jstr \<Rightarrow> nat obj \<Rightarrow> nat obj" where
  "bump k m = obj_set m k (Suc (case obj_get m k of Some n \<Rightarrow> n | None \<Rightarrow> 0))"

definition count_item :: "ui \<Rightarrow> filter_def \<Rightarrow> jstr \<Rightarrow> nat obj \<times> nat obj obj \<Rightarrow> nat obj \<times> nat obj obj" where
  "count_item u d item m =
     (case m of (counts, labels) \<Rightarrow>
        (let k = item_key u d item
         in (bump k counts, obj_set labels k (bump item (case obj_get labels k of Some l \<Rightarrow> l | None \<Rightarrow> [])))))"

text \<open>
  The most frequent spelling. A spelling that is an inherited name was counted up from a
  function, which no number compares with.
\<close>

definition best_label :: "nat obj \<Rightarrow> jstr" where
  "best_label l =
     fst (fold (\<lambda>(item, n) (best, m). if item \<notin> set proto_names \<and> m < int n then (item, int n) else (best, m)) (own_entries l) ([], -1))"

definition option_order :: "ui \<Rightarrow> filter_def \<Rightarrow> filter_option comparator" where
  "option_order u d a b = (if multi d \<and> o_n a \<noteq> o_n b then int (o_n b) - int (o_n a) else cmpText u (o_label a) (o_label b))"

definition def_options :: "ui \<Rightarrow> node_row list \<Rightarrow> filter_def \<Rightarrow> filter_option list" where
  "def_options u rows d =
     (let (counts, labels) = fold (count_item u d) (concat (map (values d) rows)) ([], []);
          opts = map (\<lambda>(k, n).
              let best = best_label (case obj_get labels k of Some l \<Rightarrow> l | None \<Rightarrow> [])
              in \<lparr>o_v = k, o_label = or_else best (T u ''empty''), o_n = n\<rparr>)
            (filter (\<lambda>(k, n). \<not> (multi d \<and> (n < min_count d \<or> length rows \<le> n))) (own_entries counts));
          sorted = js_sort (option_order u d) opts
      in (case max_opts d of Some m \<Rightarrow> take m sorted | None \<Rightarrow> sorted))"

record collected =
  c_rows :: "node_row list"
  c_cols :: columns
  c_defs :: "(filter_def \<times> jstr list list \<times> filter_option list) list"
  c_search :: bool
  c_sig :: jstr

definition collect :: "ui \<Rightarrow> node_table \<Rightarrow> collected" where
  "collect u t =
     (let rows = dataRows t; cols = colIndexMap t;
          defs = (if 2 \<le> length rows then filterDefs u cols else []);
          shown = filter (\<lambda>(d, vals, opts). if multi d then 1 \<le> length opts else 2 \<le> length opts)
            (map (\<lambda>d. (d, map (\<lambda>r. map (item_key u d) (values d r)) rows, def_options u rows d)) defs);
          search = 2 \<le> length rows
      in \<lparr>c_rows = rows, c_cols = cols, c_defs = shown, c_search = search,
          c_sig = dec_text (length rows) @ (if search then js ''s'' else []) @
            concat (map (\<lambda>(d, vals, opts). js ''|'' @ js (d_key d) @ js ''='' @
              concat (map (\<lambda>a. o_v a @ js '':'' @ dec_text (o_n a) @ js '','') opts)) shown)\<rparr>)"

definition no_filter :: filter_state where
  "no_filter = \<lparr>choices = \<lambda>_. [], query = []\<rparr>"

definition filter_of :: "node_table \<Rightarrow> filter_state" where
  "filter_of t = (case filtering t of Some st \<Rightarrow> st | None \<Rightarrow> no_filter)"

definition option_value :: "filter_option \<Rightarrow> jstr" where
  "option_value a = js ''v:'' @ o_v a"

definition counted :: "jstr \<Rightarrow> nat \<Rightarrow> jstr" where
  "counted s n = s @ js '' ('' @ dec_text n @ js '')''"

definition build_select :: "ui \<Rightarrow> nat \<Rightarrow> filter_state \<Rightarrow> filter_def \<times> jstr list list \<times> filter_option list \<Rightarrow> filter_select" where
  "build_select u n st = (\<lambda>(d, vals, opts).
     \<lparr>s_key = d_key d, s_label = d_label d,
      s_options = ([], counted (T u ''all'') n) # map (\<lambda>a. (option_value a, counted (o_label a) (o_n a))) opts,
      s_value = (if choices st (d_key d) \<in> option_value ` set opts then choices st (d_key d) else [])\<rparr>)"

definition buildBar :: "ui \<Rightarrow> collected \<Rightarrow> node_table \<Rightarrow> node_table" where
  "buildBar u c t =
     (let st = filter_of t; boxes = map (build_select u (length (c_rows c)) st) (c_defs c);
          keep = (\<lambda>k. case find (\<lambda>b. s_key b = k) boxes of Some b \<Rightarrow> s_value b | None \<Rightarrow> []);
          q = (if c_search c then query st else [])
      in t\<lparr>filtering := Some \<lparr>choices = keep, query = q\<rparr>,
           bar := Some \<lparr>selects = boxes, search_box = (if c_search c then Some q else None), count_text = [],
                        filter_on = (case bar t of Some b \<Rightarrow> filter_on b | None \<Rightarrow> False)\<rparr>\<rparr>)"

text \<open>Whether the data row \<open>tr\<close>, at position \<open>i\<close>, passes the filter\<close>

definition needle :: "ui \<Rightarrow> filter_state \<Rightarrow> jstr" where
  "needle u st = trim (lower u (query st))"

definition row_ok :: "ui \<Rightarrow> collected \<Rightarrow> filter_state \<Rightarrow> nat \<Rightarrow> node_row \<Rightarrow> bool" where
  "row_ok u c st i tr \<longleftrightarrow>
     list_all (\<lambda>(d, vals, opts). choices st (d_key d) = [] \<or> drop 2 (choices st (d_key d)) \<in> set (vals ! i)) (c_defs c) \<and>
     (needle u st = [] \<or> js_includes (lower u (searchText u tr (c_cols c))) (needle u st))"

definition show_row :: "nat \<Rightarrow> node_row \<Rightarrow> node_row" where
  "show_row shown r =
     remove_class (row_style (Suc shown)) (add_class (row_style shown) (remove_class ''pw-row-hidden'' r))"

definition hide_row :: "node_row \<Rightarrow> node_row" where
  "hide_row r = (add_class ''pw-row-hidden'' r)\<lparr>picked := map_option (\<lambda>_. False) (picked r)\<rparr>"

fun filter_rows :: "(nat \<Rightarrow> node_row \<Rightarrow> bool) \<Rightarrow> nat \<Rightarrow> nat \<Rightarrow> node_row list \<Rightarrow> node_row list" where
  "filter_rows ok i shown [] = []"
| "filter_rows ok i shown (r # rs) =
     (if \<not> is_data r then r # filter_rows ok i shown rs
      else if ok i r then show_row shown r # filter_rows ok (Suc i) (Suc shown) rs
      else hide_row r # filter_rows ok (Suc i) shown rs)"

definition row_hidden :: "node_row \<Rightarrow> bool" where
  "row_hidden r \<longleftrightarrow> ''pw-row-hidden'' \<in> set (classes r)"

definition visible_rows :: "node_table \<Rightarrow> node_row list" where
  "visible_rows t = filter (\<lambda>r. \<not> row_hidden r) (dataRows t)"

definition shown_text :: "ui \<Rightarrow> nat \<Rightarrow> nat \<Rightarrow> jstr" where
  "shown_text u n m = replace_first (js ''%t'') (dec_text m) (replace_first (js ''%s'') (dec_text n) (T u ''shown''))"

definition filter_active :: "ui \<Rightarrow> collected \<Rightarrow> filter_state \<Rightarrow> bool" where
  "filter_active u c st \<longleftrightarrow> needle u st \<noteq> [] \<or> list_ex (\<lambda>(d, _). choices st (d_key d) \<noteq> []) (c_defs c)"

definition applyFilter :: "ui \<Rightarrow> collected \<Rightarrow> node_table \<Rightarrow> node_table" where
  "applyFilter u c t =
     (let st = filter_of t; t' = t\<lparr>body := filter_rows (row_ok u c st) 0 0 (body t)\<rparr>
      in t'\<lparr>bar := map_option
           (\<lambda>b. b\<lparr>count_text := shown_text u (length (visible_rows t')) (length (c_rows c)),
                  filter_on := filter_active u c st\<rparr>) (bar t)\<rparr>)"

definition removeBar :: "node_table \<Rightarrow> node_table" where
  "removeBar t = t\<lparr>bar := None, body := map (\<lambda>r. if is_data r then remove_class ''pw-row-hidden'' r else r) (body t), signature := None\<rparr>"

text \<open>\<open>refreshFilter\<close> on its table, with whether it applied the filter\<close>

definition filter_table :: "ui \<Rightarrow> node_table \<Rightarrow> node_table \<times> bool" where
  "filter_table u t =
     (if infoOf u t = None then (t, False)
      else
        (let c = collect u t
         in if c_defs c = [] \<and> \<not> c_search c then
              (case signature t of None \<Rightarrow> (t, False) | Some s \<Rightarrow> (if s = [] then t else removeBar t, False))
            else
              (let t' = (if bar t = None \<or> signature t \<noteq> Some (c_sig c)
                         then (buildBar u c t)\<lparr>signature := Some (c_sig c)\<rparr> else t)
               in (applyFilter u c t', True))))"

section \<open>Check boxes\<close>

text \<open>
  \<open>set_select_all_state\<close> and \<open>update_select_state\<close> of the template, on the table of the
  displayed tab.
\<close>

definition select_rows :: "bool \<Rightarrow> node_row list \<Rightarrow> node_row list" where
  "select_rows checked = map (\<lambda>r. r\<lparr>picked := map_option (\<lambda>_. checked \<and> \<not> row_hidden r) (picked r)\<rparr>)"

definition set_select_all_state :: "bool \<Rightarrow> node_page \<Rightarrow> node_page" where
  "set_select_all_state checked p =
     (case displayed p of
        None \<Rightarrow> p
      | Some i \<Rightarrow>
          (let t = tables p ! i; boxes = filter (\<lambda>r. picked r \<noteq> None) (body t);
               all = (checked \<and> list_ex (\<lambda>r. \<not> row_hidden r) boxes)
           in p\<lparr>tables := (tables p)[i := t\<lparr>body := select_rows checked (body t), all_box := all\<rparr>], all_button := all\<rparr>))"

definition update_select_state :: "node_page \<Rightarrow> node_page" where
  "update_select_state p =
     (case displayed p of
        None \<Rightarrow> p
      | Some i \<Rightarrow>
          (let t = tables p ! i; boxes = filter (\<lambda>r. picked r \<noteq> None) (body t);
               shown = filter (\<lambda>r. \<not> row_hidden r) boxes;
               all = (shown \<noteq> [] \<and> list_all (\<lambda>r. picked r = Some True) shown)
           in if boxes = [] then p
              else p\<lparr>tables := (tables p)[i := t\<lparr>all_box := all\<rparr>], all_button := all\<rparr>))"

definition delete_select_nodes :: "ui \<Rightarrow> node_page \<Rightarrow> jstr list" where
  "delete_select_nodes u p =
     (case displayed p of
        None \<Rightarrow> []
      | Some i \<Rightarrow> map (rowId u) (filter (\<lambda>r. picked r = Some True \<and> \<not> row_hidden r) (body (tables p ! i))))"

section \<open>Sorting\<close>

definition blank :: "node_key \<Rightarrow> bool" where
  "blank k \<longleftrightarrow> k = Missing \<or> k = Words []"

text \<open>One column holds numbers or texts; the case of one of each does not arise.\<close>

fun compare_keys :: "ui \<Rightarrow> node_key comparator" where
  "compare_keys u (Number x) (Number y) = (if x < y then -1 else if y < x then 1 else 0)"
| "compare_keys u (Words x) (Words y) = cmpText u x y"
| "compare_keys u (Number x) b = (if b = Missing then 1 else -1)"
| "compare_keys u (Words x) b = 1"
| "compare_keys u Missing b = (if b = Missing then 0 else -1)"

definition entry_order :: "ui \<Rightarrow> bool \<Rightarrow> (nat \<times> node_key \<times> node_row) comparator" where
  "entry_order u desc = (\<lambda>(i, k, _) (j, l, _).
     if blank k \<or> blank l then (if blank k = blank l then int i - int j else if blank k then 1 else -1)
     else if compare_keys u k l \<noteq> 0 then (if desc then -1 else 1) * compare_keys u k l else int i - int j)"

definition sort_rows :: "ui \<Rightarrow> string \<Rightarrow> bool \<Rightarrow> columns \<Rightarrow> node_row list \<Rightarrow> node_row list" where
  "sort_rows u key desc cols rows =
     map (\<lambda>(_, _, r). r) (js_sort (entry_order u desc) (map (\<lambda>(i, r). (i, sortKey u r key cols, r)) (enumerate 0 rows)))"

definition orig_position :: "ui \<Rightarrow> jstr list \<Rightarrow> node_row \<Rightarrow> int" where
  "orig_position u ids r =
     (case obj_get (fold (\<lambda>(n, i) pos. obj_set pos i n) (enumerate 0 ids) []) (rowId u r) of
        Some n \<Rightarrow> int n | None \<Rightarrow> 1000000000)"

definition orig_rows :: "ui \<Rightarrow> jstr list \<Rightarrow> node_row list \<Rightarrow> node_row list" where
  "orig_rows u ids rows = js_sort (\<lambda>a b. orig_position u ids a - orig_position u ids b) rows"

definition set_mark :: "nat \<Rightarrow> (string \<times> bool) option \<Rightarrow> node_table \<Rightarrow> node_table" where
  "set_mark th m t = t\<lparr>headers := (headers t)[th := (headers t ! th)\<lparr>mark := m\<rparr>]\<rparr>"

definition descending :: "nat \<Rightarrow> string \<Rightarrow> node_table \<Rightarrow> bool" where
  "descending th key t \<longleftrightarrow> key \<noteq> ''orig'' \<and> mark (headers t ! th) = Some (key, False)"

definition sorted_rows :: "ui \<Rightarrow> nat \<Rightarrow> string \<Rightarrow> node_table \<Rightarrow> node_row list" where
  "sorted_rows u th key t =
     (if key = ''orig'' then orig_rows u (orig t) (dataRows t)
      else sort_rows u key (descending th key t) (colIndexMap t) (dataRows t))"

definition doSort :: "ui \<Rightarrow> nat \<Rightarrow> string option \<Rightarrow> string \<Rightarrow> node_table \<Rightarrow> node_table \<times> bool" where
  "doSort u th sub key t =
     (if infoOf u t = None \<or> length (dataRows t) < 2 then (t, False)
      else
        (let desc = descending th key t;
             marked = set_mark th (if key = ''orig'' then None else Some (key, desc)) t;
             (filtered, applied) = filter_table u (applyOrder u (sorted_rows u th key t) marked)
         in (show_note (T u (if key = ''orig'' then ''restored'' else ''changed'')) (setIndicator th sub key desc filtered), applied)))"

text \<open>An operation on one table; where it applied the filter, the controls over all check boxes follow.\<close>

definition put_table :: "nat \<Rightarrow> node_table \<Rightarrow> node_page \<Rightarrow> node_page" where
  "put_table i t p = p\<lparr>tables := (tables p)[i := t]\<rparr>"

definition on_table :: "nat \<Rightarrow> (node_table \<Rightarrow> node_table \<times> bool) \<Rightarrow> node_page \<Rightarrow> node_page" where
  "on_table i f p =
     (case f (tables p ! i) of (t, applied) \<Rightarrow> if applied then update_select_state (put_table i t p) else put_table i t p)"

definition refreshFilter :: "ui \<Rightarrow> nat \<Rightarrow> node_page \<Rightarrow> node_page" where
  "refreshFilter u i p = on_table i (filter_table u) p"

definition wait_note :: "ui \<Rightarrow> nat \<times> nat \<Rightarrow> node_table \<Rightarrow> node_table" where
  "wait_note u st t = show_note (replace_first (js ''%d'') (dec_text (if snd st \<noteq> 0 then snd st else fst st)) (T u ''wait'')) t"

definition requestSort :: "ui \<Rightarrow> int \<Rightarrow> nat \<Rightarrow> nat \<Rightarrow> string option \<Rightarrow> string \<Rightarrow> node_page \<Rightarrow> node_page" where
  "requestSort u now i th sub key p =
     (let t = (tables p ! i)\<lparr>wait := None\<rparr>; st = pingBusy u p
      in if st = (0, 0) then on_table i (\<lambda>_. doSort u th sub key t) p
         else put_table i (wait_note u st
           (t\<lparr>wait := Some \<lparr>started = now, idle = 0, w_header = th, w_sub = sub, w_key = key\<rparr>\<rparr>)) p)"

text \<open>The callback of the interval\<close>

definition wait_tick :: "ui \<Rightarrow> int \<Rightarrow> nat \<Rightarrow> node_page \<Rightarrow> node_page" where
  "wait_tick u now i p =
     (let t = tables p ! i; st = pingBusy u p
      in case wait t of
           None \<Rightarrow> p
         | Some w \<Rightarrow>
             (let n = (if fst st \<noteq> 0 then 0 else Suc (idle w)); stopped = t\<lparr>wait := None\<rparr>
              in if st = (0, 0) \<or> 6 \<le> n then
                   (if attached t then on_table i (\<lambda>_. doSort u (w_header w) (w_sub w) (w_key w) stopped) p
                    else put_table i stopped p)
                 else if 120000 < now - started w then put_table i (show_note (T u ''waitFail'') stopped) p
                 else put_table i (wait_note u st (t\<lparr>wait := Some (w\<lparr>idle := n\<rparr>)\<rparr>)) p))"

section \<open>Setting up and events\<close>

definition NAME_EXTRA :: "string list" where
  "NAME_EXTRA = [''type'', ''addr'', ''orig'']"

definition enhance :: "ui \<Rightarrow> node_table \<Rightarrow> node_table" where
  "enhance u t =
     (if infoOf u t = None \<or> ready t then t
      else
        (case titles t of
           None \<Rightarrow> t
         | Some ths \<Rightarrow>
             if dataRows t = [] then t
             else
               (let cells = filter (\<lambda>d. cell_tag d = ''TD'' \<or> cell_tag d = ''TH'') ths
                in t\<lparr>ready := True, orig := map (rowId u) (dataRows t),
                     headers := map (\<lambda>(key, _). \<lparr>sort_attr = key, mark = None, arrow = [],
                         subs = (if key = ''name'' then map (\<lambda>k. (k, False)) NAME_EXTRA else [])\<rparr>)
                       (filter (\<lambda>(_, i). i < length cells \<and> ''cbi-section-actions'' \<notin> set (cell_classes (cells ! i)))
                         (colIndexMap t))\<rparr>)))"

definition enhanceAll :: "ui \<Rightarrow> node_page \<Rightarrow> node_page" where
  "enhanceAll u p =
     (if \<not> root u then p
      else fold (\<lambda>i p. on_table i (\<lambda>t. filter_table u (enhance u t)) p) [0..<length (tables p)] p)"

text \<open>The handlers \<open>bind\<close> installs, and what happens around them\<close>

definition reset_filter :: "ui \<Rightarrow> nat \<Rightarrow> node_page \<Rightarrow> node_page" where
  "reset_filter u i p =
     refreshFilter u i (put_table i ((tables p ! i)\<lparr>filtering := Some no_filter, signature := None\<rparr>) p)"

definition choose_filter :: "ui \<Rightarrow> nat \<Rightarrow> string \<Rightarrow> jstr \<Rightarrow> node_page \<Rightarrow> node_page" where
  "choose_filter u i k v p =
     (let t = tables p ! i; st = filter_of t
      in refreshFilter u i (put_table i (t\<lparr>filtering := Some (st\<lparr>choices := (choices st)(k := v)\<rparr>)\<rparr>) p))"

definition type_search :: "nat \<Rightarrow> jstr \<Rightarrow> node_page \<Rightarrow> node_page" where
  "type_search i s p = p\<lparr>search_timer := Some (i, s)\<rparr>"

definition run_search :: "ui \<Rightarrow> node_page \<Rightarrow> node_page" where
  "run_search u p =
     (case search_timer p of
        None \<Rightarrow> p
      | Some (i, s) \<Rightarrow>
          (let t = tables p ! i
           in refreshFilter u i (put_table i (t\<lparr>filtering := Some ((filter_of t)\<lparr>query := s\<rparr>)\<rparr>) (p\<lparr>search_timer := None\<rparr>))))"

definition header_key :: "node_table \<Rightarrow> nat \<Rightarrow> string option \<Rightarrow> string" where
  "header_key t th sub = (case sub of Some k \<Rightarrow> k | None \<Rightarrow> sort_attr (headers t ! th))"

definition click_sort :: "ui \<Rightarrow> int \<Rightarrow> nat \<Rightarrow> nat \<Rightarrow> string option \<Rightarrow> node_page \<Rightarrow> node_page" where
  "click_sort u now i th sub p =
     (if infoOf u (tables p ! i) = None then p else requestSort u now i th sub (header_key (tables p ! i) th sub) p)"

text \<open>A result of the detection: the texts of cells in the columns of its results\<close>

definition set_content :: "jstr \<Rightarrow> string \<Rightarrow> jstr \<Rightarrow> node_row \<Rightarrow> node_row" where
  "set_content row cls s r =
     (if elem_id r \<noteq> row then r
      else r\<lparr>children := map (\<lambda>d. if cls \<in> set (cell_classes d) then d\<lparr>content := s\<rparr> else d) (children r)\<rparr>)"

definition detected :: "nat list \<Rightarrow> (string \<times> jstr \<times> jstr) list \<Rightarrow> (jstr \<times> string \<times> jstr) list \<Rightarrow> node_page \<Rightarrow> node_page" where
  "detected rs sp cs p =
     p\<lparr>requests := rs, spans := sp,
       tables := map (\<lambda>t. t\<lparr>body := map (\<lambda>r. fold (\<lambda>(row, cls, s). set_content row cls s) cs r) (body t)\<rparr>) (tables p)\<rparr>"

definition check_row :: "nat \<Rightarrow> nat \<Rightarrow> bool \<Rightarrow> node_page \<Rightarrow> node_page" where
  "check_row i k b p =
     (let t = tables p ! i
      in update_select_state (put_table i (t\<lparr>body := (body t)[k := (body t ! k)\<lparr>picked := Some b\<rparr>]\<rparr>) p))"

text \<open>A drag or To Top: the rows are rearranged, and then \<open>set_order\<close> is called.\<close>

definition move_rows :: "ui \<Rightarrow> nat \<Rightarrow> node_row list \<Rightarrow> node_page \<Rightarrow> node_page" where
  "move_rows u i rows p = put_table i (set_order u ((tables p ! i)\<lparr>body := rows\<rparr>)) p"

datatype node_event =
    Click_Reset nat
  | Click_Sort int nat nat "string option"
  | Choose nat string jstr
  | Type_Search nat jstr
  | Search_Timer
  | Wait_Tick int nat
  | Detected "nat list" "(string \<times> jstr \<times> jstr) list" "(jstr \<times> string \<times> jstr) list"
  | Check nat nat bool
  | Select_All bool
  | Move nat "node_row list"
  | Enhance_All

fun happens :: "ui \<Rightarrow> node_page \<Rightarrow> node_event \<Rightarrow> bool" where
  "happens u p (Click_Reset i) \<longleftrightarrow> i < length (tables p) \<and> bar (tables p ! i) \<noteq> None"
| "happens u p (Click_Sort now i th sub) \<longleftrightarrow>
     i < length (tables p) \<and> th < length (headers (tables p ! i)) \<and>
     (case sub of None \<Rightarrow> True | Some k \<Rightarrow> k \<in> fst ` set (subs (headers (tables p ! i) ! th)))"
| "happens u p (Choose i k v) \<longleftrightarrow>
     i < length (tables p) \<and> (case bar (tables p ! i) of None \<Rightarrow> False | Some b \<Rightarrow> k \<in> s_key ` set (selects b))"
| "happens u p (Type_Search i s) \<longleftrightarrow>
     i < length (tables p) \<and> (case bar (tables p ! i) of None \<Rightarrow> False | Some b \<Rightarrow> search_box b \<noteq> None)"
| "happens u p Search_Timer \<longleftrightarrow> search_timer p \<noteq> None"
| "happens u p (Wait_Tick now i) \<longleftrightarrow> i < length (tables p) \<and> wait (tables p ! i) \<noteq> None"
| "happens u p (Detected rs sp cs) \<longleftrightarrow> fst ` snd ` set cs \<subseteq> {''pw-ping'', ''pw-tcping'', ''pw-urltest''}"
| "happens u p (Check i k b) \<longleftrightarrow>
     i < length (tables p) \<and> k < length (body (tables p ! i)) \<and>
     picked (body (tables p ! i) ! k) \<noteq> None \<and> \<not> row_hidden (body (tables p ! i) ! k)"
| "happens u p (Select_All b) \<longleftrightarrow> True"
| "happens u p (Move i rows) \<longleftrightarrow> i < length (tables p) \<and> mset rows = mset (body (tables p ! i))"
| "happens u p Enhance_All \<longleftrightarrow> True"

fun node_step :: "ui \<Rightarrow> node_event \<Rightarrow> node_page \<Rightarrow> node_page" where
  "node_step u (Click_Reset i) p = reset_filter u i p"
| "node_step u (Click_Sort now i th sub) p = click_sort u now i th sub p"
| "node_step u (Choose i k v) p = choose_filter u i k v p"
| "node_step u (Type_Search i s) p = type_search i s p"
| "node_step u Search_Timer p = run_search u p"
| "node_step u (Wait_Tick now i) p = wait_tick u now i p"
| "node_step u (Detected rs sp cs) p = detected rs sp cs p"
| "node_step u (Check i k b) p = check_row i k b p"
| "node_step u (Select_All b) p = set_select_all_state b p"
| "node_step u (Move i rows) p = move_rows u i rows p"
| "node_step u Enhance_All p = enhanceAll u p"

inductive node_session :: "ui \<Rightarrow> node_page \<Rightarrow> node_page \<Rightarrow> bool" for u where
  start: "node_session u p p"
| step: "node_session u p q \<Longrightarrow> happens u q e \<Longrightarrow> node_session u p (node_step u e q)"

end
