(* ===== verification/Node_List_Claims.thy ===== *)
theory Node_List_Claims
  imports Node_List_Sort
begin

text \<open>
  What sorting and filtering do to the node list of Passwall: the rows a sort leaves and in which
  order, that the saved order can always be restored, that no row moves while the detection is
  writing results, and what every page shows in any order of events.
\<close>

section \<open>Comparators\<close>

interpretation code_units: comparator_laws compare_units
proof
  show "compare_units a b < 0 \<longleftrightarrow> 0 < compare_units b a" for a b
    by (induction a b rule: compare_units.induct) auto
  show "compare_units a b \<le> 0 \<Longrightarrow> compare_units b d \<le> 0 \<Longrightarrow> compare_units a d \<le> 0" for a b d
  proof (induction a b arbitrary: d rule: compare_units.induct)
    case (1 d)
    then show ?case by (cases d) auto
  next
    case (2 y ys d)
    then show ?case by (cases d) auto
  next
    case (4 x xs y ys d)
    show ?case
    proof (cases d)
      case (Cons z zs)
      then show ?thesis
        using "4.prems" "4.IH"[of zs] by (cases "x < y"; cases "y < x"; cases "y < z"; cases "z < y") simp_all
    qed (use "4.prems" in simp)
  qed simp
qed

definition collates :: "ui \<Rightarrow> bool" where
  "collates u \<longleftrightarrow> (case collator u of None \<Rightarrow> True | Some f \<Rightarrow> consistent f)"

lemma consistent_cmpText: "collates u \<Longrightarrow> consistent (cmpText u)"
  using code_units.comparator_laws_axioms
  by (cases "collator u") (simp_all add: collates_def cmpText_def[abs_def] consistent_laws)

lemma consistent_compare_keys:
  assumes "collates u"
  shows "consistent (compare_keys u)"
proof -
  note c = consistentD[OF consistent_cmpText[OF assms]]
  show ?thesis
    unfolding consistent_def
  proof (intro conjI allI impI)
    show "compare_keys u a b < 0 \<longleftrightarrow> 0 < compare_keys u b a" for a b
      using c(2) by (cases a; cases b) auto
    show "compare_keys u a d \<le> 0" if "compare_keys u a b \<le> 0" "compare_keys u b d \<le> 0" for a b d
      using that by (cases a; cases b; cases d; simp split: if_splits) (rule c(1))
  qed
qed

text \<open>Rows without a key come last in both directions.\<close>

definition row_compare :: "ui \<Rightarrow> bool \<Rightarrow> ('a \<Rightarrow> node_key) \<Rightarrow> 'a comparator" where
  "row_compare u desc k a b =
     (if blank (k a) \<or> blank (k b) then of_bool (blank (k a)) - of_bool (blank (k b))
      else (if desc then compare_keys u (k b) (k a) else compare_keys u (k a) (k b)))"

lemma consistent_row_compare:
  assumes "collates u"
  shows "consistent (row_compare u desc k)"
proof -
  note c = consistentD[OF consistent_compare_keys[OF assms]]
  show ?thesis
    unfolding consistent_def
  proof (intro conjI allI impI)
    show "row_compare u desc k a b < 0 \<longleftrightarrow> 0 < row_compare u desc k b a" for a b
      using c(2)[of "k a" "k b"] c(2)[of "k b" "k a"] by (auto simp: row_compare_def)
    show "row_compare u desc k a d \<le> 0" if "row_compare u desc k a b \<le> 0" "row_compare u desc k b d \<le> 0" for a b d
      using that c(1)[of "k a" "k b" "k d"] c(1)[of "k d" "k b" "k a"]
      by (cases "blank (k a)"; cases "blank (k b)"; cases "blank (k d)") (auto simp: row_compare_def split: if_splits)
  qed
qed

lemma insert_by_cong:
  "(\<And>y. y \<in> set ys \<Longrightarrow> f x y \<le> 0 \<longleftrightarrow> g x y \<le> 0) \<Longrightarrow> insert_by f x ys = insert_by g x ys"
  by (induction ys) auto

lemma insert_by_map: "insert_by f (h x) (map h ys) = map h (insert_by (\<lambda>a b. f (h a) (h b)) x ys)"
  by (induction ys) auto

lemma js_sort_map: "js_sort f (map h xs) = map h (js_sort (\<lambda>a b. f (h a) (h b)) xs)"
  by (induction xs) (simp_all add: js_sort_def insert_by_map)

lemma set_js_sort [simp]: "set (js_sort f xs) = set xs"
  by (metis mset_js_sort set_mset_mset)

lemma js_sort_cong:
  assumes "sorted_wrt (\<lambda>x y. f x y \<le> 0 \<longleftrightarrow> g x y \<le> 0) xs"
  shows "js_sort f xs = js_sort g xs"
  using assms
proof (induction xs)
  case (Cons x xs)
  then have "js_sort f xs = js_sort g xs" by simp
  moreover have "insert_by f x (js_sort g xs) = insert_by g x (js_sort g xs)"
    using Cons.prems by (intro insert_by_cong) simp
  ultimately show ?case by (simp add: js_sort_def)
qed (simp add: js_sort_def)

text \<open>Breaking ties by the position is what a stable sort does anyway.\<close>

lemma entry_order_row:
  "i < j \<Longrightarrow> compare_keys u l k < 0 \<longleftrightarrow> 0 < compare_keys u k l \<Longrightarrow> compare_keys u k l < 0 \<longleftrightarrow> 0 < compare_keys u l k \<Longrightarrow>
   entry_order u desc (i, k, a) (j, l, b) \<le> 0 \<longleftrightarrow> row_compare u desc (\<lambda>x. x) k l \<le> 0"
  by (auto simp: entry_order_def row_compare_def)

lemma sorted_wrt_enumerate: "sorted_wrt (\<lambda>x y. fst x < fst y) (enumerate n xs)"
  by (induction xs arbitrary: n) (auto simp: in_set_enumerate_eq)

lemma sort_rows_stable:
  assumes "collates u"
  shows "sort_rows u key desc cols rows = js_sort (row_compare u desc (\<lambda>r. sortKey u r key cols)) rows"
proof -
  let ?e = "\<lambda>(i, r). (i, sortKey u r key cols, r)"
  let ?g = "\<lambda>x y. row_compare u desc (\<lambda>z. sortKey u (snd z) key cols) x y"
  note flip = consistentD(2)[OF consistent_compare_keys[OF assms]]
  have "js_sort (entry_order u desc) (map ?e (enumerate 0 rows)) =
      map ?e (js_sort (\<lambda>x y. entry_order u desc (?e x) (?e y)) (enumerate 0 rows))"
    by (rule js_sort_map)
  also have "js_sort (\<lambda>x y. entry_order u desc (?e x) (?e y)) (enumerate 0 rows) = js_sort ?g (enumerate 0 rows)"
  proof (rule js_sort_cong, rule sorted_wrt_mono_rel[OF _ sorted_wrt_enumerate])
    fix x y :: "nat \<times> node_row"
    assume "fst x < fst y"
    then show "entry_order u desc (?e x) (?e y) \<le> 0 \<longleftrightarrow> ?g x y \<le> 0"
      using entry_order_row[OF _ flip flip] by (cases x; cases y) (auto simp: row_compare_def)
  qed
  finally have "sort_rows u key desc cols rows = map snd (js_sort ?g (enumerate 0 rows))"
    by (simp add: sort_rows_def case_prod_unfold comp_def)
  also have "\<dots> = js_sort (row_compare u desc (\<lambda>r. sortKey u r key cols)) (map snd (enumerate 0 rows))"
    by (simp only: js_sort_map) (simp add: row_compare_def[abs_def])
  finally show ?thesis by simp
qed

section \<open>What the filter keeps of the rows\<close>

definition same_row :: "node_row \<Rightarrow> node_row \<Rightarrow> bool" where
  "same_row r r' \<longleftrightarrow> row_tag r = row_tag r' \<and> elem_id r = elem_id r' \<and> children r = children r' \<and>
     (''cbi-section-table-row'' \<in> set (classes r) \<longleftrightarrow> ''cbi-section-table-row'' \<in> set (classes r')) \<and>
     (''placeholder'' \<in> set (classes r) \<longleftrightarrow> ''placeholder'' \<in> set (classes r'))"

lemma same_row_refl [simp]: "same_row r r"
  by (simp add: same_row_def)

lemma same_row_data: "same_row r r' \<Longrightarrow> is_data r \<longleftrightarrow> is_data r'"
  by (simp add: same_row_def is_data_def)

lemma class_simps [simp]:
  "row_tag (remove_class k r) = row_tag r" "elem_id (remove_class k r) = elem_id r"
  "children (remove_class k r) = children r" "picked (remove_class k r) = picked r"
  "set (classes (remove_class k r)) = set (classes r) - {k}"
  "row_tag (add_class k r) = row_tag r" "elem_id (add_class k r) = elem_id r"
  "children (add_class k r) = children r" "picked (add_class k r) = picked r"
  "set (classes (add_class k r)) = insert k (set (classes r))"
  by (auto simp: remove_class_def add_class_def)

lemma row_style_not [simp]:
  "row_style n \<noteq> ''cbi-section-table-row''" "row_style n \<noteq> ''placeholder''" "row_style n \<noteq> ''pw-row-hidden''"
  "''cbi-section-table-row'' \<noteq> row_style n" "''placeholder'' \<noteq> row_style n" "''pw-row-hidden'' \<noteq> row_style n"
  by (simp_all add: row_style_def)

lemma same_row_ops [simp]: "same_row r (restyle n r)" "same_row r (show_row n r)" "same_row r (hide_row r)"
  "same_row r (remove_class ''pw-row-hidden'' r)"
  by (simp_all add: same_row_def restyle_def show_row_def hide_row_def)

lemma row_ops_shown [simp]:
  "row_hidden (restyle n r) \<longleftrightarrow> row_hidden r" "picked (restyle n r) = picked r"
  "\<not> row_hidden (show_row n r)" "row_hidden (hide_row r)" "picked (hide_row r) = map_option (\<lambda>_. False) (picked r)"
  by (simp_all add: row_hidden_def restyle_def show_row_def hide_row_def)

lemma data_ops [simp]: "is_data (restyle n r) \<longleftrightarrow> is_data r" "is_data (show_row n r) \<longleftrightarrow> is_data r" "is_data (hide_row r) \<longleftrightarrow> is_data r"
  "is_data (remove_class ''pw-row-hidden'' r) \<longleftrightarrow> is_data r"
  using same_row_ops same_row_data by blast+

lemma same_rows_filter_map:
  assumes "list_all2 same_row xs ys" and "\<And>r r'. same_row r r' \<Longrightarrow> (P r \<longleftrightarrow> P r') \<and> f r = f r'"
  shows "map f (filter P ys) = map f (filter P xs)"
  using assms(1) by (induction rule: list_all2_induct) (use assms(2) in auto)

lemma same_rows_length: "list_all2 same_row xs ys \<Longrightarrow> length (filter is_data ys) = length (filter is_data xs)"
  using same_rows_filter_map[of xs ys is_data "\<lambda>_. ()"] same_row_data by (metis (no_types, lifting) length_map)

lemma same_rows_refl [simp]: "list_all2 same_row xs xs"
  by (simp add: list.rel_refl)

lemma same_rows_filter_rows: "list_all2 same_row rs (filter_rows ok i n rs)"
  by (induction ok i n rs rule: filter_rows.induct) simp_all

lemma same_rows_unhide: "list_all2 same_row rs (map (\<lambda>r. if is_data r then remove_class ''pw-row-hidden'' r else r) rs)"
  by (induction rs) simp_all

lemma filter_rows_unpicked:
  "\<forall>r\<in>set rs. row_hidden r \<longrightarrow> picked r \<noteq> Some True \<Longrightarrow>
   \<forall>r\<in>set (filter_rows ok i n rs). row_hidden r \<longrightarrow> picked r \<noteq> Some True"
  by (induction ok i n rs rule: filter_rows.induct) auto

text \<open>The fields of a table the filter does not write\<close>

definition same_controls :: "node_table \<Rightarrow> node_table \<Rightarrow> bool" where
  "same_controls t t' \<longleftrightarrow> table_id t' = table_id t \<and> attached t' = attached t \<and> titles t' = titles t \<and>
     ready t' = ready t \<and> orig t' = orig t \<and> headers t' = headers t \<and> wait t' = wait t \<and>
     note_text t' = note_text t \<and> order_value t' = order_value t"

lemma buildBar_frame:
  "same_controls t (buildBar u c t)" "body (buildBar u c t) = body t"
  by (simp_all add: buildBar_def Let_def same_controls_def)

lemma applyFilter_frame:
  "same_controls t (applyFilter u c t)" "body (applyFilter u c t) = filter_rows (row_ok u c (filter_of t)) 0 0 (body t)"
  by (simp_all add: applyFilter_def Let_def same_controls_def)

lemma same_controls_signature [simp]: "same_controls t (t'\<lparr>signature := s\<rparr>) = same_controls t t'"
  by (simp add: same_controls_def)

lemma same_controls_trans: "same_controls t t' \<Longrightarrow> same_controls t' t'' \<Longrightarrow> same_controls t t''"
  by (simp add: same_controls_def)

lemma filter_table_cases:
  obtains "fst (filter_table u t) = t"
  | "fst (filter_table u t) = removeBar t"
  | t' where "fst (filter_table u t) = applyFilter u (collect u t) t'" "same_controls t t'" "body t' = body t"
    "bar t' \<noteq> None" "infoOf u t \<noteq> None" "snd (filter_table u t)"
proof (cases "infoOf u t = None")
  case True
  then show ?thesis using that(1) by (simp add: filter_table_def)
next
  case False
  let ?c = "collect u t"
  let ?t = "if bar t = None \<or> signature t \<noteq> Some (c_sig ?c) then (buildBar u ?c t)\<lparr>signature := Some (c_sig ?c)\<rparr> else t"
  show ?thesis
  proof (cases "c_defs ?c = [] \<and> \<not> c_search ?c")
    case True
    then show ?thesis
      using that(1,2) False by (cases "signature t = None \<or> signature t = Some []") (auto simp: filter_table_def Let_def)
  next
    case apply_it: False
    have "filter_table u t = (applyFilter u ?c ?t, True)"
      by (subst filter_table_def, subst if_not_P[OF False], unfold Let_def, subst if_not_P[OF apply_it]) (rule refl)
    then have "fst (filter_table u t) = applyFilter u ?c ?t" "snd (filter_table u t)" by simp_all
    moreover have "same_controls t ?t" "body ?t = body t"
      using buildBar_frame(1)[of t u ?c] buildBar_frame(2)[of u ?c t] by (simp_all add: same_controls_def)
    moreover have "bar ?t \<noteq> None" by (simp add: buildBar_def Let_def)
    ultimately show ?thesis using that(3) False by blast
  qed
qed

lemma filter_table_controls: "same_controls t (fst (filter_table u t))"
  by (rule filter_table_cases[of u t])
    (auto simp: same_controls_def removeBar_def applyFilter_def Let_def)

lemma filter_table_rows: "list_all2 same_row (body t) (body (fst (filter_table u t)))"
  by (rule filter_table_cases[of u t])
    (simp_all add: removeBar_def applyFilter_frame same_rows_filter_rows same_rows_unhide)

section \<open>Order\<close>

definition order_rows :: "node_row list \<Rightarrow> node_row list" where
  "order_rows = filter (\<lambda>r. row_tag r = ''TR'' \<and> ''cbi-section-table-row'' \<in> set (classes r))"

definition posted_order :: "ui \<Rightarrow> node_table \<Rightarrow> jstr" where
  "posted_order u t = js_join [32] (map (order_id u) (order_rows (body t)))"

lemma set_order_frame:
  "body (set_order u t) = body t" "bar (set_order u t) = bar t" "table_id (set_order u t) = table_id t"
  "ready (set_order u t) = ready t" "orig (set_order u t) = orig t" "wait (set_order u t) = wait t"
  "headers (set_order u t) = headers t" "infoOf u' (set_order u t) = infoOf u' t" "titles (set_order u t) = titles t"
  "signature (set_order u t) = signature t" "filtering (set_order u t) = filtering t"
  by (simp_all add: set_order_def Let_def infoOf_def)

lemma order_value_set_order: "order_value (set_order u t) = (if order_rows (body t) = [] then order_value t else posted_order u t)"
  by (simp add: set_order_def posted_order_def order_rows_def)

lemma posted_order_same: "list_all2 same_row (body t) (body t') \<Longrightarrow> posted_order u t' = posted_order u t"
  unfolding posted_order_def order_rows_def
  by (subst same_rows_filter_map[of "body t" "body t'"]) (auto simp: same_row_def order_id_def)

lemma row_ids_same:
  "list_all2 same_row (body t) (body t') \<Longrightarrow> map (rowId u) (dataRows t') = map (rowId u) (dataRows t)"
  unfolding dataRows_def
  by (subst same_rows_filter_map[of "body t" "body t'"]) (auto simp: same_row_data rowId_def, auto simp: same_row_def)

lemma mset_sort_rows: "mset (sort_rows u key desc cols rows) = mset rows"
proof -
  have "image_mset snd (mset (enumerate 0 rows)) = mset rows"
    by (metis map_snd_enumerate mset_map)
  then show ?thesis by (simp add: sort_rows_def case_prod_unfold multiset.map_comp comp_def)
qed

lemma mset_sorted_rows: "mset (sorted_rows u th key t) = mset (dataRows t)"
  by (simp add: sorted_rows_def orig_rows_def mset_sort_rows)

text \<open>A sort that is carried out, in its steps\<close>

definition marked :: "nat \<Rightarrow> string \<Rightarrow> node_table \<Rightarrow> node_table" where
  "marked th key t = set_mark th (if key = ''orig'' then None else Some (key, descending th key t)) t"

definition ordered_table :: "ui \<Rightarrow> nat \<Rightarrow> string \<Rightarrow> node_table \<Rightarrow> node_table" where
  "ordered_table u th key t = applyOrder u (sorted_rows u th key t) (marked th key t)"

lemma doSort_parts:
  assumes "\<not> (infoOf u t = None \<or> length (dataRows t) < 2)"
  shows "fst (doSort u th sub key t) = show_note (T u (if key = ''orig'' then ''restored'' else ''changed''))
    (setIndicator th sub key (descending th key t) (fst (filter_table u (ordered_table u th key t))))"
  unfolding doSort_def if_not_P[OF assms] by (simp add: Let_def case_prod_unfold marked_def ordered_table_def)

section \<open>Relations every event keeps\<close>

text \<open>When a tick sorts, and the events that neither sort nor move rows\<close>

definition due :: "ui \<Rightarrow> node_page \<Rightarrow> waiting \<Rightarrow> bool" where
  "due u p w \<longleftrightarrow> pingBusy u p = (0, 0) \<or> fst (pingBusy u p) = 0 \<and> 5 \<le> idle w"

lemma wait_tick_due:
  "wait (tables p ! i) = Some w \<Longrightarrow> due u p w \<Longrightarrow> attached (tables p ! i) \<Longrightarrow> wait_tick u now i p =
    on_table i (\<lambda>_. doSort u (w_header w) (w_sub w) (w_key w) ((tables p ! i)\<lparr>wait := None\<rparr>)) p"
  by (auto simp: wait_tick_def Let_def due_def)

fun quiet :: "node_event \<Rightarrow> bool" where
  "quiet (Click_Sort now i th sub) = False"
| "quiet (Wait_Tick now i) = False"
| "quiet (Move i rows) = False"
| "quiet _ = True"

text \<open>
  A relation between the states of a table before and after an operation that holds of every
  operation on tables holds of every step of the page, and of every session.
\<close>

definition set_rows :: "node_row list \<Rightarrow> node_table \<Rightarrow> node_table" where
  "set_rows rs t = t\<lparr>body := rs\<rparr>"

definition same_state :: "node_table \<Rightarrow> node_table \<Rightarrow> bool" where
  "same_state t t' \<longleftrightarrow> body t' = body t \<and> table_id t' = table_id t \<and> ready t' = ready t \<and> orig t' = orig t \<and>
     order_value t' = order_value t \<and> bar t' = bar t"

locale row_relation =
  fixes R :: "node_table \<Rightarrow> node_table \<Rightarrow> bool" and u :: ui
  assumes trans: "R t t' \<Longrightarrow> R t' t'' \<Longrightarrow> R t t''"
    and controls: "same_state t t' \<Longrightarrow> R t t'"
    and filtered: "R t (fst (filter_table u t))"
    and enhanced: "R t (enhance u t)"
    and written: "R t (set_rows (map (\<lambda>r. r\<lparr>children := g r\<rparr>) (body t)) t)"
    and selected: "R t (set_rows (select_rows b (body t)) t)"
    and checked: "k < length (body t) \<Longrightarrow> \<not> row_hidden (body t ! k) \<Longrightarrow>
      R t (set_rows ((body t)[k := (body t ! k)\<lparr>picked := Some b\<rparr>]) t)"
begin

abbreviation related :: "node_page \<Rightarrow> node_page \<Rightarrow> bool" where
  "related p q \<equiv> list_all2 R (tables p) (tables q)"

lemma refl: "R t t"
  by (rule controls) (simp add: same_state_def)

lemma pages_refl: "related p p"
  by (simp add: list.rel_refl refl)

lemma pages_trans: "related p q \<Longrightarrow> related q r \<Longrightarrow> related p r"
  by (rule list_all2_trans[of R R R]) (auto intro: trans)

lemma list_update_related: "(i < length xs \<Longrightarrow> R (xs ! i) t) \<Longrightarrow> list_all2 R xs (xs[i := t])"
  by (cases "i < length xs") (simp_all add: list_all2_conv_all_nth nth_list_update refl)

lemma pages_put: "(i < length (tables p) \<Longrightarrow> R (tables p ! i) t) \<Longrightarrow> related p (put_table i t p)"
  by (simp add: put_table_def list_update_related)

lemma pages_update_select_state: "related p (update_select_state p)"
proof (cases "displayed p")
  case (Some i)
  have "R (tables p ! i) ((tables p ! i)\<lparr>all_box := b\<rparr>)" for b
    by (rule controls) (simp add: same_state_def)
  then show ?thesis using Some
    by (simp add: update_select_state_def Let_def list_update_related pages_refl)
qed (simp add: update_select_state_def pages_refl)

lemma pages_on_table: "(i < length (tables p) \<Longrightarrow> R (tables p ! i) (fst (f (tables p ! i)))) \<Longrightarrow> related p (on_table i f p)"
  using pages_put[of i p "fst (f (tables p ! i))"] pages_update_select_state pages_trans
  by (auto simp: on_table_def case_prod_unfold)

lemma pages_refresh: "same_state (tables p ! i) t \<Longrightarrow> related p (refreshFilter u i (put_table i t p))"
  unfolding refreshFilter_def
  by (rule pages_trans[OF pages_put pages_on_table]) (auto intro: controls filtered)

lemma pages_enhanceAll: "related p (enhanceAll u p)"
proof -
  have "related p (fold (\<lambda>i p. on_table i (\<lambda>t. filter_table u (enhance u t)) p) is p)" for "is"
  proof (induction "is" arbitrary: p)
    case (Cons i "is")
    have "related p (on_table i (\<lambda>t. filter_table u (enhance u t)) p)"
      by (intro pages_on_table trans[OF enhanced filtered])
    then show ?case using Cons pages_trans by simp
  qed (simp add: pages_refl)
  then show ?thesis by (simp add: enhanceAll_def pages_refl)
qed

lemma set_content_children: "\<exists>g. set_content row cls s = (\<lambda>r. r\<lparr>children := g r\<rparr>)"
  by (rule exI[of _ "\<lambda>r. children (set_content row cls s r)"]) (auto simp: set_content_def)

lemma pages_detected: "related p (detected rs sp cs p)"
proof -
  have "\<exists>g. (\<lambda>r. fold (\<lambda>(row, cls, s). set_content row cls s) cs r) = (\<lambda>r. r\<lparr>children := g r\<rparr>)"
  proof (induction cs)
    case Nil
    show ?case by (rule exI[of _ children]) simp
  next
    case (Cons a cs)
    obtain row cls s where a: "a = (row, cls, s)" by (cases a)
    obtain g h where "(\<lambda>r. fold (\<lambda>(row, cls, s). set_content row cls s) cs r) = (\<lambda>r. r\<lparr>children := g r\<rparr>)"
      "set_content row cls s = (\<lambda>r. r\<lparr>children := h r\<rparr>)"
      using Cons set_content_children by blast
    then show ?case using a by (intro exI[of _ "\<lambda>r. g (r\<lparr>children := h r\<rparr>)"]) (auto simp: fun_eq_iff)
  qed
  then obtain g where "(\<lambda>r. fold (\<lambda>(row, cls, s). set_content row cls s) cs r) = (\<lambda>r. r\<lparr>children := g r\<rparr>)" by blast
  then show ?thesis
    using written[of _ g] by (simp add: detected_def list_all2_map2 set_rows_def list_all2_same)
qed

lemma pages_select_all: "related p (set_select_all_state b p)"
proof (cases "displayed p")
  case (Some i)
  have "R (tables p ! i) ((tables p ! i)\<lparr>body := select_rows b (body (tables p ! i)), all_box := a\<rparr>)" for a
    by (rule trans[OF selected controls]) (simp add: same_state_def set_rows_def)
  then show ?thesis using Some
    by (simp add: set_select_all_state_def Let_def list_update_related)
qed (simp add: set_select_all_state_def pages_refl)

text \<open>Clicks and ticks that do not sort yet\<close>

lemma pages_waiting:
  "related p (put_table i ((tables p ! i)\<lparr>wait := w\<rparr>) p)"
  "related p (put_table i (show_note s ((tables p ! i)\<lparr>wait := w\<rparr>)) p)"
  "related p (put_table i (wait_note u st ((tables p ! i)\<lparr>wait := w\<rparr>)) p)"
  by (intro pages_put controls; simp add: same_state_def wait_note_def show_note_def)+

lemma pages_request_busy: "pingBusy u p \<noteq> (0, 0) \<Longrightarrow> related p (requestSort u now i th sub key p)"
  using pages_waiting(3) by (simp add: requestSort_def Let_def)

lemma pages_wait_not_due:
  assumes "wait (tables p ! i) = Some w" "\<not> (due u p w \<and> attached (tables p ! i))"
  shows "related p (wait_tick u now i p)"
  using assms pages_waiting[of p i] by (auto simp: wait_tick_def Let_def due_def)

lemma other_table: "j < length (tables p) \<Longrightarrow> j \<noteq> i \<Longrightarrow> R (tables p ! j) (tables (on_table i f p) ! j)"
proof -
  assume j: "j < length (tables p)" "j \<noteq> i"
  obtain t b where f: "f (tables p ! i) = (t, b)" by fastforce
  have "R (tables (put_table i t p) ! j) (tables (update_select_state (put_table i t p)) ! j)"
    using list_all2_nthD[OF pages_update_select_state[of "put_table i t p"], of j] j by (simp add: put_table_def)
  then show ?thesis using f j by (simp add: on_table_def put_table_def refl)
qed

lemma pages_quiet_step:
  assumes "happens u p e" "quiet e"
  shows "related p (node_step u e p)"
proof (cases e)
  case (Click_Reset i)
  then show ?thesis by (simp add: reset_filter_def pages_refresh same_state_def)
next
  case (Choose i k v)
  then show ?thesis by (simp add: choose_filter_def Let_def pages_refresh same_state_def)
next
  case (Type_Search i s)
  then show ?thesis by (simp add: type_search_def list.rel_refl refl)
next
  case Search_Timer
  have "related p (refreshFilter u i (put_table i t (p\<lparr>search_timer := None\<rparr>)))" if "same_state (tables p ! i) t" for i t
    using pages_refresh[of "p\<lparr>search_timer := None\<rparr>" i t] that by simp
  then show ?thesis using Search_Timer
    by (simp add: run_search_def Let_def same_state_def pages_refl split: option.split prod.split)
next
  case (Check i k b)
  have "related p (put_table i (set_rows ((body (tables p ! i))[k := (body (tables p ! i) ! k)\<lparr>picked := Some b\<rparr>]) (tables p ! i)) p)"
    by (rule pages_put, rule checked) (use Check assms in simp_all)
  then show ?thesis
    using Check pages_trans[OF _ pages_update_select_state] by (simp add: check_row_def Let_def set_rows_def)
qed (use assms in \<open>simp_all add: pages_detected pages_select_all pages_enhanceAll\<close>)

end

text \<open>Relations that sorting and moving rows keep as well\<close>

locale table_relation = row_relation +
  assumes reordered: "mset rows = mset (dataRows t) \<Longrightarrow> R t (applyOrder u rows t)"
    and moved: "mset rows = mset (body t) \<Longrightarrow> R t (set_order u (set_rows rows t))"
begin

lemma sorted: "R t (fst (doSort u th sub key t))"
proof (cases "infoOf u t = None \<or> length (dataRows t) < 2")
  case False
  have "R t (marked th key t)" by (rule controls) (simp add: same_state_def marked_def set_mark_def)
  moreover have "mset (sorted_rows u th key t) = mset (dataRows (marked th key t))"
    by (simp add: mset_sorted_rows) (simp add: marked_def set_mark_def dataRows_def)
  then have "R (marked th key t) (ordered_table u th key t)"
    unfolding ordered_table_def by (rule reordered)
  moreover have "R (ordered_table u th key t) (fst (filter_table u (ordered_table u th key t)))" by (rule filtered)
  moreover have "R (fst (filter_table u (ordered_table u th key t))) (fst (doSort u th sub key t))"
    unfolding doSort_parts[OF False]
    by (rule controls) (simp add: same_state_def show_note_def setIndicator_def)
  ultimately show ?thesis by (blast intro: trans)
qed (auto simp: doSort_def refl)

lemma sorted_from: "same_state t t' \<Longrightarrow> R t (fst (doSort u th sub key t'))"
  using trans[OF controls sorted] .

lemma pages_requestSort: "related p (requestSort u now i th sub key p)"
proof (cases "pingBusy u p = (0, 0)")
  case True
  have "R (tables p ! i) (fst (doSort u th sub key ((tables p ! i)\<lparr>wait := None\<rparr>)))"
    by (rule sorted_from) (simp add: same_state_def)
  then show ?thesis using True by (simp add: requestSort_def Let_def pages_on_table)
qed (rule pages_request_busy)

lemma pages_wait_tick: "wait (tables p ! i) = Some w \<Longrightarrow> related p (wait_tick u now i p)"
proof (cases "due u p w \<and> attached (tables p ! i)")
  case True
  have "R (tables p ! i) (fst (doSort u th sub key ((tables p ! i)\<lparr>wait := None\<rparr>)))" for th sub key
    by (rule sorted_from) (simp add: same_state_def)
  moreover assume "wait (tables p ! i) = Some w"
  ultimately show ?thesis using True by (simp add: wait_tick_due pages_on_table)
qed (rule pages_wait_not_due)

lemma pages_step:
  assumes "happens u p e"
  shows "related p (node_step u e p)"
proof (cases "quiet e")
  case False
  then show ?thesis
  proof (cases e)
    case (Move i rows)
    then show ?thesis
      using assms moved[of rows "tables p ! i"] by (simp add: move_rows_def pages_put set_rows_def)
  qed (use assms in \<open>auto simp: click_sort_def pages_requestSort pages_refl intro: pages_wait_tick\<close>)
qed (rule pages_quiet_step[OF assms])

lemma pages_session: "node_session u p q \<Longrightarrow> related p q"
  by (induction rule: node_session.induct) (auto intro: pages_refl pages_trans pages_step)

lemma session_related:
  assumes "node_session u p q" "i < length (tables p)"
  shows "R (tables p ! i) (tables q ! i)" "length (tables q) = length (tables p)"
  using pages_session[OF assms(1)] assms(2) by (auto dest: list_all2_nthD list_all2_lengthD)

end

section \<open>What every page shows\<close>

definition rows_ok :: "node_table \<Rightarrow> bool" where
  "rows_ok t \<longleftrightarrow> (\<forall>r\<in>set (body t). row_hidden r \<longrightarrow> picked r \<noteq> Some True)"

definition count_ok :: "ui \<Rightarrow> node_table \<Rightarrow> bool" where
  "count_ok u t \<longleftrightarrow> (\<forall>b. bar t = Some b \<longrightarrow> count_text b = shown_text u (length (visible_rows t)) (length (dataRows t)))"

definition order_ok :: "ui \<Rightarrow> node_table \<Rightarrow> bool" where
  "order_ok u t \<longleftrightarrow> order_value t = [] \<or> order_value t = posted_order u t"

definition table_ok :: "ui \<Rightarrow> node_table \<Rightarrow> bool" where
  "table_ok u t \<longleftrightarrow> rows_ok t \<and> count_ok u t \<and> order_ok u t"

lemma dataRows_set_rows [simp]: "dataRows (set_rows rs t) = filter is_data rs"
  by (simp add: dataRows_def set_rows_def)

lemma set_rows_fields [simp]:
  "body (set_rows rs t) = rs" "bar (set_rows rs t) = bar t" "order_value (set_rows rs t) = order_value t"
  "table_id (set_rows rs t) = table_id t" "ready (set_rows rs t) = ready t" "orig (set_rows rs t) = orig t"
  by (simp_all add: set_rows_def)

lemma length_visible_cong:
  assumes "map (\<lambda>r. (is_data r, row_hidden r)) xs = map (\<lambda>r. (is_data r, row_hidden r)) ys"
  shows "length (filter (\<lambda>r. \<not> row_hidden r) (filter is_data xs)) = length (filter (\<lambda>r. \<not> row_hidden r) (filter is_data ys))"
  using arg_cong[OF assms, of "\<lambda>l. length (filter (\<lambda>(d, h). d \<and> \<not> h) l)"] by (simp add: filter_map comp_def)

text \<open>Rewriting the rows one by one, keeping which are data and which are hidden\<close>

lemma counts_map:
  assumes "\<And>r. is_data (f r) = is_data r" "\<And>r. row_hidden (f r) = row_hidden r"
  shows "length (visible_rows (set_rows (map f (body t)) t)) = length (visible_rows t)"
    "length (dataRows (set_rows (map f (body t)) t)) = length (dataRows t)"
  using assms by (simp_all add: visible_rows_def filter_map comp_def) (simp_all add: dataRows_def)

lemma posted_order_map:
  assumes "\<And>r. row_tag (f r) = row_tag r" "\<And>r. classes (f r) = classes r" "\<And>r. elem_id (f r) = elem_id r"
  shows "posted_order u (set_rows (map f (body t)) t) = posted_order u t"
  using assms by (simp add: posted_order_def order_rows_def filter_map comp_def order_id_def[abs_def])

lemma table_ok_map:
  assumes "\<And>r. row_tag (f r) = row_tag r" "\<And>r. classes (f r) = classes r" "\<And>r. elem_id (f r) = elem_id r"
    and "\<And>r. row_hidden r \<Longrightarrow> picked r \<noteq> Some True \<Longrightarrow> picked (f r) \<noteq> Some True"
    and "table_ok u t"
  shows "table_ok u (set_rows (map f (body t)) t)"
proof -
  have "row_hidden (f r) = row_hidden r" "is_data (f r) = is_data r" for r
    using assms(1,2) by (simp_all add: row_hidden_def is_data_def)
  then have "rows_ok (set_rows (map f (body t)) t)" "count_ok u (set_rows (map f (body t)) t)"
    using assms(4,5) counts_map[of f t] by (auto simp: table_ok_def rows_ok_def count_ok_def)
  moreover have "order_ok u (set_rows (map f (body t)) t)"
    using assms(5) posted_order_map[OF assms(1-3)] by (simp add: table_ok_def order_ok_def)
  ultimately show ?thesis by (simp add: table_ok_def)
qed

lemma table_ok_filter:
  assumes "table_ok u t"
  shows "table_ok u (fst (filter_table u t))"
proof -
  let ?t = "fst (filter_table u t)"
  note frame = filter_table_rows[of t u] filter_table_controls[of t u]
  have "order_ok u ?t"
    using assms posted_order_same[OF frame(1), of u] frame(2) by (simp add: table_ok_def order_ok_def same_controls_def)
  moreover have "rows_ok ?t \<and> count_ok u ?t"
  proof (rule filter_table_cases[of u t])
    assume e: "?t = removeBar t"
    have "\<forall>r\<in>set (body t). row_hidden r \<longrightarrow> picked r \<noteq> Some True" using assms by (simp add: table_ok_def rows_ok_def)
    then show ?thesis unfolding e
      by (auto simp: removeBar_def rows_ok_def count_ok_def row_hidden_def split: if_splits)
  next
    fix t'
    assume e: "?t = applyFilter u (collect u t) t'" "body t' = body t"
    have "rows_ok ?t"
      unfolding rows_ok_def e(1) applyFilter_frame
      by (rule filter_rows_unpicked) (use assms e(2) in \<open>simp add: table_ok_def rows_ok_def\<close>)
    moreover have "length (c_rows (collect u t)) = length (dataRows ?t)"
      using same_rows_length[OF frame(1)] by (simp add: collect_def Let_def dataRows_def)
    then have "count_ok u ?t"
      unfolding count_ok_def e(1) by (auto simp: applyFilter_def Let_def visible_rows_def dataRows_def)
    ultimately show ?thesis by blast
  qed (use assms in \<open>simp_all add: table_ok_def\<close>)
  ultimately show ?thesis by (simp add: table_ok_def)
qed

lemma order_ok_set_order: "order_rows (body t) = [] \<Longrightarrow> order_ok u t \<Longrightarrow> order_value t = []"
  by (auto simp: order_ok_def posted_order_def)

lemma order_ok_reordered:
  assumes "order_ok u t" "order_rows rows = [] \<Longrightarrow> order_rows (body t) = []"
  shows "order_ok u (set_order u (set_rows rows t))"
  using assms order_ok_set_order[OF _ assms(1)]
  by (auto simp: order_ok_def order_value_set_order posted_order_def set_order_frame)

lemma table_ok_moved:
  assumes "table_ok u t" "mset (map (\<lambda>r. (is_data r, row_hidden r, picked r)) rows) = mset (map (\<lambda>r. (is_data r, row_hidden r, picked r)) (body t))"
    and "order_rows rows = [] \<Longrightarrow> order_rows (body t) = []"
  shows "table_ok u (set_order u (set_rows rows t))"
proof -
  have c: "length (filter (\<lambda>r. P (is_data r, row_hidden r, picked r)) rows) = length (filter (\<lambda>r. P (is_data r, row_hidden r, picked r)) (body t))" for P
    using arg_cong[OF assms(2), of "\<lambda>m. size (filter_mset P m)"]
    by (simp add: mset_map[symmetric] mset_filter[symmetric] filter_map comp_def del: mset_map mset_filter)
  have "\<forall>x\<in>set (map (\<lambda>r. (is_data r, row_hidden r, picked r)) (body t)). fst (snd x) \<longrightarrow> snd (snd x) \<noteq> Some True"
    using assms(1) by (simp add: table_ok_def rows_ok_def)
  then have "\<forall>x\<in>set (map (\<lambda>r. (is_data r, row_hidden r, picked r)) rows). fst (snd x) \<longrightarrow> snd (snd x) \<noteq> Some True"
    unfolding mset_eq_setD[OF assms(2)] .
  then have "rows_ok (set_order u (set_rows rows t))"
    by (simp add: rows_ok_def set_order_frame)
  moreover have "count_ok u (set_order u (set_rows rows t))"
    using assms(1) c[of fst] c[of "\<lambda>(d, h, _). d \<and> \<not> h"]
    by (simp add: table_ok_def count_ok_def set_order_frame visible_rows_def dataRows_def conj_commute)
  ultimately show ?thesis
    using assms(1) order_ok_reordered[OF _ assms(3)] by (simp add: table_ok_def)
qed

lemma table_ok_ordered:
  assumes "table_ok u t" "mset rows = mset (dataRows t)"
  shows "table_ok u (applyOrder u rows t)"
proof -
  let ?new = "filter (\<lambda>r. \<not> is_data r) (body t) @ map (\<lambda>(i, r). restyle i r) (enumerate 0 rows)"
  let ?f = "\<lambda>r. (is_data r, row_hidden r, picked r)"
  have "map (\<lambda>(i, r). ?f (restyle i r)) (enumerate 0 rows) = map ?f rows"
    using map_map[of ?f snd "enumerate 0 rows"] by (simp add: case_prod_unfold comp_def del: map_map)
  then have "mset (map ?f ?new) = mset (map ?f (filter (\<lambda>r. \<not> is_data r) (body t) @ rows))"
    by (simp add: case_prod_unfold comp_def)
  also have "\<dots> = image_mset ?f (mset (filter (\<lambda>r. \<not> is_data r) (body t)) + mset rows)" by simp
  also have "mset (filter (\<lambda>r. \<not> is_data r) (body t)) + mset rows = mset (body t)"
    unfolding assms(2) dataRows_def by (simp add: union_filter_mset_complement add.commute)
  finally have m: "mset (map ?f ?new) = mset (map ?f (body t))" by simp
  have "order_rows (body t) = []" if "order_rows ?new = []"
  proof -
    have "dataRows t = []"
    proof (rule ccontr)
      assume "dataRows t \<noteq> []"
      then have "rows \<noteq> []" using assms(2) by auto
      then obtain r rs where r: "rows = r # rs" by (cases rows) auto
      have "r \<in> set (dataRows t)" using mset_eq_setD[OF assms(2)] r by auto
      then have "is_data r" by (simp add: dataRows_def)
      then have "is_data (restyle 0 r)" by simp
      then have "restyle 0 r \<in> set (order_rows ?new)"
        using r by (simp add: order_rows_def is_data_def)
      then show False using that by simp
    qed
    then have "filter (\<lambda>r. \<not> is_data r) (body t) = body t" by (simp add: dataRows_def filter_empty_conv)
    then show ?thesis using that by (simp add: order_rows_def)
  qed
  then show ?thesis
    using table_ok_moved[OF assms(1) m] by (simp add: applyOrder_def set_rows_def)
qed

interpretation shown: table_relation "\<lambda>t t'. table_ok u t \<longrightarrow> table_ok u t'" u for u
proof
  show "table_ok u t \<longrightarrow> table_ok u t'" if "same_state t t'" for t t'
    using that by (simp add: same_state_def table_ok_def rows_ok_def count_ok_def order_ok_def visible_rows_def dataRows_def posted_order_def)
  show "table_ok u t \<longrightarrow> table_ok u (enhance u t)" for t
    by (simp add: enhance_def Let_def table_ok_def rows_ok_def count_ok_def order_ok_def visible_rows_def dataRows_def posted_order_def
        split: option.split)
  show "table_ok u t \<longrightarrow> table_ok u (set_order u (set_rows rows t))" if "mset rows = mset (body t)" for rows t
  proof
    assume "table_ok u t"
    then show "table_ok u (set_order u (set_rows rows t))"
      by (rule table_ok_moved)
        (use that in \<open>simp_all add: order_rows_def filter_empty_conv mset_eq_setD[OF that]\<close>)
  qed
  show "table_ok u t \<longrightarrow> table_ok u (set_rows (map (\<lambda>r. r\<lparr>children := g r\<rparr>) (body t)) t)" for g t
    by (intro impI table_ok_map) simp_all
  show "table_ok u t \<longrightarrow> table_ok u (set_rows (select_rows b (body t)) t)" for b t
    unfolding select_rows_def by (intro impI table_ok_map) (auto simp: row_hidden_def)
  show "table_ok u t \<longrightarrow> table_ok u (set_rows ((body t)[k := (body t ! k)\<lparr>picked := Some b\<rparr>]) t)"
    if "k < length (body t)" "\<not> row_hidden (body t ! k)" for k b t
  proof
    let ?new = "(body t)[k := (body t ! k)\<lparr>picked := Some b\<rparr>]"
    assume ok: "table_ok u t"
    have s: "list_all2 same_row (body t) ?new"
      using that(1) by (simp add: list_all2_conv_all_nth nth_list_update same_row_def)
    have "map (\<lambda>r. (is_data r, row_hidden r)) ?new = map (\<lambda>r. (is_data r, row_hidden r)) (body t)"
      using that(1) by (simp add: list_eq_iff_nth_eq nth_list_update row_hidden_def is_data_def)
    then have "count_ok u (set_rows ?new t)"
      using ok same_rows_length[OF s] length_visible_cong[of ?new "body t"]
      by (simp add: table_ok_def count_ok_def visible_rows_def dataRows_def)
    moreover have "rows_ok (set_rows ?new t)"
      using ok that(2) set_update_subset_insert[of "body t" k "(body t ! k)\<lparr>picked := Some b\<rparr>"]
      by (auto simp: table_ok_def rows_ok_def row_hidden_def)
    moreover have "order_ok u (set_rows ?new t)"
      using ok posted_order_same[of t "set_rows ?new t" u] s by (simp add: table_ok_def order_ok_def)
    ultimately show "table_ok u (set_rows ?new t)" by (simp add: table_ok_def)
  qed
qed (auto intro: table_ok_filter table_ok_ordered)

section \<open>Which rows there are, and in which order\<close>

definition row_order :: "ui \<Rightarrow> node_table \<Rightarrow> jstr list" where
  "row_order u t = map (rowId u) (dataRows t)"

lemma row_order_cong: "body t' = body t \<Longrightarrow> row_order u t' = row_order u t"
  by (simp add: row_order_def dataRows_def)

lemma row_order_map:
  assumes "\<And>r. row_tag (f r) = row_tag r" "\<And>r. classes (f r) = classes r" "\<And>r. elem_id (f r) = elem_id r"
  shows "row_order u (set_rows (map f (body t)) t) = row_order u t"
  using assms by (simp add: row_order_def dataRows_def filter_map comp_def is_data_def[abs_def] rowId_def[abs_def])

lemma row_order_filter: "row_order u (fst (filter_table v t)) = row_order u t"
  unfolding row_order_def by (rule row_ids_same[OF filter_table_rows])

lemma enhance_frame: "body (enhance u t) = body t" "table_id (enhance u t) = table_id t"
  "ready t \<Longrightarrow> enhance u t = t"
  by (simp_all add: enhance_def Let_def split: option.split)

lemma row_order_check:
  "k < length (body t) \<Longrightarrow> row_order u (set_rows ((body t)[k := (body t ! k)\<lparr>picked := b\<rparr>]) t) = row_order u t"
  unfolding row_order_def
  by (rule row_ids_same) (simp add: list_all2_conv_all_nth nth_list_update same_row_def)

interpretation ordered: row_relation "\<lambda>t t'. row_order u t' = row_order u t" v for u v
proof
  show "row_order u (set_rows (map (\<lambda>r. r\<lparr>children := g r\<rparr>) (body t)) t) = row_order u t" for g t
    by (rule row_order_map) simp_all
  show "row_order u (set_rows (select_rows b (body t)) t) = row_order u t" for b t
    unfolding select_rows_def by (rule row_order_map) simp_all
  show "row_order u (enhance v t) = row_order u t" for t
    by (rule row_order_cong) (simp add: enhance_frame)
  show "row_order u t' = row_order u t" if "same_state t t'" for t t'
    using that by (intro row_order_cong) (simp add: same_state_def)
qed (simp_all add: row_order_filter row_order_check)

lemma dataRows_ordered: "\<forall>r\<in>set rows. is_data r \<Longrightarrow> dataRows (applyOrder u rows t) = map (\<lambda>(i, r). restyle i r) (enumerate 0 rows)"
proof -
  assume d: "\<forall>r\<in>set rows. is_data r"
  have "filter is_data (map (\<lambda>(i, r). restyle i r) (enumerate 0 rows)) = map (\<lambda>(i, r). restyle i r) (enumerate 0 rows)"
    using d by (auto simp: filter_id_conv in_set_enumerate_eq)
  then show ?thesis by (simp add: applyOrder_def dataRows_def set_order_frame)
qed

lemma map_restyled:
  assumes "\<And>i r. f (restyle i r) = f r"
  shows "map f (map (\<lambda>(i, r). restyle i r) (enumerate n rows)) = map f rows"
  using assms by (induction rows arbitrary: n) simp_all

lemma rowId_restyle [simp]: "rowId u (restyle i r) = rowId u r" "elem_id (restyle i r) = elem_id r" "children (restyle i r) = children r"
  by (simp_all add: rowId_def restyle_def)

lemma row_order_ordered: "mset rows = mset (dataRows t) \<Longrightarrow> row_order u (applyOrder v rows t) = map (rowId u) rows"
proof -
  assume "mset rows = mset (dataRows t)"
  then have "set rows = set (dataRows t)" by (rule mset_eq_setD)
  then have "\<forall>r\<in>set rows. is_data r" by (simp add: dataRows_def)
  then show ?thesis by (simp only: row_order_def dataRows_ordered map_restyled rowId_restyle)
qed

definition same_nodes :: "ui \<Rightarrow> node_table \<Rightarrow> node_table \<Rightarrow> bool" where
  "same_nodes u t t' \<longleftrightarrow> mset (row_order u t') = mset (row_order u t) \<and> table_id t' = table_id t \<and>
     (ready t \<longrightarrow> ready t' \<and> orig t' = orig t)"

interpretation nodes: table_relation "same_nodes u" v for u v
proof
  show "same_nodes u t t'" if "same_state t t'" for t t'
    using that row_order_cong[of t' t u] by (simp add: same_state_def same_nodes_def)
  show "same_nodes u t (fst (filter_table v t))" for t
    using filter_table_controls[of t v] by (simp add: same_nodes_def row_order_filter same_controls_def)
  show "same_nodes u t (enhance v t)" for t
    using row_order_cong[of "enhance v t" t u] by (simp add: same_nodes_def enhance_frame)
  show "same_nodes u t (set_rows (map (\<lambda>r. r\<lparr>children := g r\<rparr>) (body t)) t)" for g t
    by (simp add: same_nodes_def row_order_map)
  show "same_nodes u t (set_rows (select_rows b (body t)) t)" for b t
    unfolding select_rows_def by (simp add: same_nodes_def row_order_map)
  show "same_nodes u t (applyOrder v rows t)" if "mset rows = mset (dataRows t)" for rows t
  proof -
    have "mset (row_order u (applyOrder v rows t)) = mset (row_order u t)"
      using row_order_ordered[OF that, of u v] that by (simp add: row_order_def)
    then show ?thesis by (simp add: same_nodes_def applyOrder_def set_order_frame)
  qed
  show "same_nodes u t (set_order v (set_rows rows t))" if "mset rows = mset (body t)" for rows t
    using that by (simp add: same_nodes_def set_order_frame row_order_def dataRows_def)
qed (auto simp: same_nodes_def row_order_check)

section \<open>Restoring the saved order\<close>

lemma positions_other: "i \<notin> set ids \<Longrightarrow> obj_get (fold (\<lambda>(n, i) pos. obj_set pos i n) (enumerate k ids) pos) i = obj_get pos i"
  by (induction ids arbitrary: k pos) (auto simp: obj_get_set)

lemma positions_nth:
  "distinct ids \<Longrightarrow> js ''__proto__'' \<notin> set ids \<Longrightarrow> n < length ids \<Longrightarrow>
   obj_get (fold (\<lambda>(n, i) pos. obj_set pos i n) (enumerate k ids) pos) (ids ! n) = Some (k + n)"
proof (induction ids arbitrary: k n pos)
  case (Cons i ids)
  show ?case
  proof (cases n)
    case 0
    then show ?thesis using Cons.prems by (auto simp: positions_other obj_get_set)
  next
    case (Suc m)
    then show ?thesis using Cons.prems Cons.IH[of m "Suc k"] by simp
  qed
qed simp

lemma orig_rows_ids:
  assumes ids: "distinct ids" "js ''__proto__'' \<notin> set ids" and rows: "mset (map (rowId u) rows) = mset ids"
  shows "map (rowId u) (orig_rows u ids rows) = ids"
proof -
  define P where "P i = (case obj_get (fold (\<lambda>(n, i) pos. obj_set pos i n) (enumerate 0 ids) []) i of Some n \<Rightarrow> int n | None \<Rightarrow> 1000000000)" for i
  have nth: "P (ids ! n) = int n" if "n < length ids" for n
    using positions_nth[OF ids that, of 0 "[]"] by (simp add: P_def)
  have "sorted_wrt (\<lambda>a b. orig_position u ids a - orig_position u ids b \<le> 0) (orig_rows u ids rows)"
    unfolding orig_rows_def by (rule comparator_laws.sorted_js_sort[OF consistent_key(1)[unfolded consistent_laws]])
  then have 1: "sorted (map P (map (rowId u) (orig_rows u ids rows)))"
    by (simp add: sorted_map orig_position_def P_def)
  have m: "mset (map (rowId u) (orig_rows u ids rows)) = mset ids"
    using rows by (simp add: orig_rows_def)
  have 2: "sorted (map P ids)" by (simp add: sorted_iff_nth_mono nth)
  have d: "distinct (map (rowId u) (orig_rows u ids rows))"
    using ids(1) m by (metis mset_eq_imp_distinct_iff)
  have inj: "inj_on P (set ids)"
    by (rule inj_onI) (metis in_set_conv_nth nth of_nat_eq_iff)
  have s: "set (map (rowId u) (orig_rows u ids rows)) = set ids" by (rule mset_eq_setD[OF m])
  show ?thesis
    by (rule map_sorted_distinct_set_unique[OF _ 1 _ 2 _ s]) (use inj s d ids(1) in \<open>simp_all add: distinct_map comp_inj_on\<close>)
qed

lemma sorted_row_order:
  assumes "\<not> (infoOf u t = None \<or> length (dataRows t) < 2)"
  shows "row_order u (fst (doSort u th sub key t)) = map (rowId u) (sorted_rows u th key t)"
    and "order_value (fst (doSort u th sub key t)) = posted_order u (fst (doSort u th sub key t))"
proof -
  let ?o = "ordered_table u th key t" and ?f = "fst (filter_table u (ordered_table u th key t))" and ?r = "fst (doSort u th sub key t)"
  have m: "mset (sorted_rows u th key t) = mset (dataRows (marked th key t))"
    by (simp add: mset_sorted_rows) (simp add: marked_def set_mark_def dataRows_def)
  have b: "body ?r = body ?f" "order_value ?r = order_value ?f"
    unfolding doSort_parts[OF assms] by (simp_all add: show_note_def setIndicator_def)
  have "row_order u ?r = row_order u ?o"
    using row_order_cong[OF b(1)] row_order_filter by simp
  then show "row_order u ?r = map (rowId u) (sorted_rows u th key t)"
    unfolding ordered_table_def using row_order_ordered[OF m] by simp
  have "order_rows (body ?o) \<noteq> []"
  proof -
    have "map (rowId u) (dataRows ?o) = map (rowId u) (sorted_rows u th key t)"
      using row_order_ordered[OF m, of u u] by (simp add: row_order_def ordered_table_def)
    then have "length (dataRows ?o) = length (sorted_rows u th key t)" by (metis length_map)
    then have "length (dataRows ?o) \<noteq> 0" using assms mset_sorted_rows[of u th key t] by (metis mset_eq_length less_numeral_extra(3) not_numeral_less_zero zero_less_numeral)
    then obtain r where "r \<in> set (body ?o)" "is_data r" by (auto simp: dataRows_def filter_empty_conv)
    then show ?thesis by (auto simp: order_rows_def filter_empty_conv is_data_def)
  qed
  then have "order_value ?o = posted_order u ?o"
    by (simp add: ordered_table_def applyOrder_def order_value_set_order set_order_frame posted_order_def)
  moreover have "posted_order u ?r = posted_order u ?o"
    using posted_order_same[OF filter_table_rows] b(1) by (simp add: posted_order_def)
  ultimately show "order_value ?r = posted_order u ?r"
    using b(2) filter_table_controls[of ?o u] by (simp add: same_controls_def)
qed

section \<open>Which rows a filter shows\<close>

definition passes :: "ui \<Rightarrow> node_table \<Rightarrow> filter_state \<Rightarrow> node_row \<Rightarrow> bool" where
  "passes u t st r \<longleftrightarrow>
     list_all (\<lambda>(d, _). choices st (d_key d) = [] \<or> drop 2 (choices st (d_key d)) \<in> set (map (item_key u d) (values d r)))
       (c_defs (collect u t)) \<and>
     (needle u st = [] \<or> js_includes (lower u (searchText u r (colIndexMap t))) (needle u st))"

lemma collected_simps [simp]:
  "c_rows (collect u t) = dataRows t" "c_cols (collect u t) = colIndexMap t" "c_search (collect u t) \<longleftrightarrow> 2 \<le> length (dataRows t)"
  by (simp_all add: collect_def Let_def)

lemma collected_values:
  "(d, vals, os) \<in> set (c_defs (collect u t)) \<Longrightarrow> vals = map (\<lambda>r. map (item_key u d) (values d r)) (dataRows t)"
  by (auto simp: collect_def Let_def)

lemma row_ok_passes:
  assumes "i < length (dataRows t)"
  shows "row_ok u (collect u t) st i (dataRows t ! i) = passes u t st (dataRows t ! i)"
proof -
  have "list_all (\<lambda>(d, vals, opts). choices st (d_key d) = [] \<or> drop 2 (choices st (d_key d)) \<in> set (vals ! i)) (c_defs (collect u t)) =
      list_all (\<lambda>(d, _). choices st (d_key d) = [] \<or>
        drop 2 (choices st (d_key d)) \<in> set (map (item_key u d) (values d (dataRows t ! i)))) (c_defs (collect u t))"
    by (rule list.pred_cong[OF refl]) (use assms collected_values in fastforce)
  then show ?thesis by (simp only: row_ok_def passes_def collected_simps)
qed

lemma filter_rows_visible:
  "map elem_id (filter (\<lambda>r. \<not> row_hidden r) (filter is_data (filter_rows ok i n rs))) =
   map elem_id (map snd (filter (\<lambda>(j, r). ok j r) (enumerate i (filter is_data rs))))"
proof (induction ok i n rs rule: filter_rows.induct)
  case (2 ok i shown r rs)
  have "elem_id (show_row shown r) = elem_id r" by (simp add: show_row_def)
  with 2 show ?case by (simp del: filter_filter)
qed simp

definition with_bar :: "ui \<Rightarrow> node_table \<Rightarrow> node_table" where
  "with_bar u t =
     (if bar t = None \<or> signature t \<noteq> Some (c_sig (collect u t))
      then (buildBar u (collect u t) t)\<lparr>signature := Some (c_sig (collect u t))\<rparr> else t)"

lemma filter_table_run:
  assumes "infoOf u t \<noteq> None" "2 \<le> length (dataRows t)"
  shows "filter_table u t = (applyFilter u (collect u t) (with_bar u t), True)"
proof -
  have "\<not> (c_defs (collect u t) = [] \<and> \<not> c_search (collect u t))" using assms(2) by simp
  then show ?thesis
    unfolding with_bar_def
    by (subst filter_table_def, subst if_not_P[OF assms(1)], unfold Let_def, subst if_not_P) (assumption, rule refl)
qed

lemma with_bar_frame: "body (with_bar u t) = body t" "bar (with_bar u t) \<noteq> None"
  using buildBar_frame(2)[of u "collect u t" t] by (auto simp: with_bar_def buildBar_def Let_def)

lemma filter_shows:
  assumes "infoOf u t \<noteq> None" "2 \<le> length (dataRows t)"
  defines "t' \<equiv> fst (filter_table u t)"
  shows "map elem_id (visible_rows t') = map elem_id (filter (passes u t (filter_of t')) (dataRows t))"
proof -
  define s where "s = with_bar u t"
  have s: "t' = applyFilter u (collect u t) s" "body s = body t"
    using filter_table_run[OF assms(1,2)] with_bar_frame by (simp_all add: t'_def s_def)
  have st: "filter_of t' = filter_of s" unfolding s(1) by (simp add: applyFilter_def Let_def filter_of_def)
  have "map snd (filter (\<lambda>(j, r). row_ok u (collect u t) (filter_of s) j r) (enumerate 0 (dataRows t))) =
      map snd (filter (\<lambda>(j, r). passes u t (filter_of s) r) (enumerate 0 (dataRows t)))"
    by (rule arg_cong[where f = "map snd"], rule filter_cong[OF refl]) (auto simp: in_set_enumerate_eq row_ok_passes)
  also have "\<dots> = filter (passes u t (filter_of s)) (dataRows t)"
    using filter_map[of "passes u t (filter_of s)" snd "enumerate 0 (dataRows t)"] by (simp add: case_prod_unfold comp_def)
  finally have "map elem_id (map snd (filter (\<lambda>(j, r). row_ok u (collect u t) (filter_of s) j r) (enumerate 0 (dataRows t)))) =
      map elem_id (filter (passes u t (filter_of s)) (dataRows t))" by simp
  then show ?thesis
    using filter_rows_visible[of "row_ok u (collect u t) (filter_of s)" 0 0 "body t"]
    unfolding st by (simp add: visible_rows_def dataRows_def s applyFilter_frame)
qed

section \<open>Claims\<close>

text \<open>
  C17: a sort leaves the same rows in the order of their keys, in the direction of the click, with
  the rows that have no key last in either direction, and rows with equal keys as they stood; the
  order that is posted is the one displayed.
\<close>

theorem node_sort_result:
  fixes th :: nat and sub :: "string option"
  assumes "collates u" and "infoOf u t \<noteq> None" and "2 \<le> length (dataRows t)" and "key \<noteq> ''orig''"
  defines "k \<equiv> \<lambda>r. sortKey u r key (colIndexMap t)" and "t' \<equiv> fst (doSort u th sub key t)"
  shows "\<exists>rows. row_order u t' = map (rowId u) rows \<and> mset rows = mset (dataRows t) \<and>
    sorted_wrt (\<lambda>a b. blank (k a) \<longrightarrow> blank (k b)) rows \<and>
    sorted_wrt (\<lambda>a b. blank (k b) \<or>
      (if descending th key t then compare_keys u (k b) (k a) else compare_keys u (k a) (k b)) \<le> 0) rows \<and>
    (\<forall>d. filter (\<lambda>r. row_compare u (descending th key t) k d r = 0) rows =
      filter (\<lambda>r. row_compare u (descending th key t) k d r = 0) (dataRows t)) \<and>
    order_value t' = posted_order u t'"
proof -
  let ?cmp = "row_compare u (descending th key t) k"
  let ?rows = "js_sort ?cmp (dataRows t)"
  have ok: "\<not> (infoOf u t = None \<or> length (dataRows t) < 2)" using assms(2,3) by simp
  have "sorted_rows u th key t = ?rows"
    using assms(4) sort_rows_stable[OF assms(1)] by (simp add: sorted_rows_def k_def)
  then have r: "row_order u t' = map (rowId u) ?rows" "order_value t' = posted_order u t'"
    unfolding t'_def using sorted_row_order[OF ok, of th sub key] by simp_all
  note laws = consistent_row_compare[OF assms(1), of "descending th key t" k, unfolded consistent_laws]
  have s: "sorted_wrt (\<lambda>a b. ?cmp a b \<le> 0) ?rows" by (rule comparator_laws.sorted_js_sort[OF laws])
  have 1: "sorted_wrt (\<lambda>a b. blank (k a) \<longrightarrow> blank (k b)) ?rows"
    by (rule sorted_wrt_mono_rel[OF _ s]) (auto simp: row_compare_def split: if_splits)
  have 2: "sorted_wrt (\<lambda>a b. blank (k b) \<or>
      (if descending th key t then compare_keys u (k b) (k a) else compare_keys u (k a) (k b)) \<le> 0) ?rows"
    by (rule sorted_wrt_mono_rel[OF _ s]) (auto simp: row_compare_def split: if_splits)
  show ?thesis
    using r 1 2 comparator_laws.stable_js_sort[OF laws] by (intro exI[of _ ?rows]) simp
qed

text \<open>
  C9: whatever was sorted, filtered, moved or measured since the page was loaded, sorting by the
  saved order puts the rows back in it, and posts that order.
\<close>

theorem node_orig_restores:
  fixes th :: nat and sub :: "string option"
  assumes "node_session u p q" and "i < length (tables p)"
    and "ready (tables p ! i)" and "infoOf u (tables p ! i) \<noteq> None" and "2 \<le> length (orig (tables p ! i))"
    and "distinct (orig (tables p ! i))" and "js ''__proto__'' \<notin> set (orig (tables p ! i))"
    and "mset (row_order u (tables p ! i)) = mset (orig (tables p ! i))"
  defines "t \<equiv> fst (doSort u th sub ''orig'' (tables q ! i))"
  shows "row_order u t = orig (tables p ! i) \<and> order_value t = posted_order u t"
proof -
  let ?t = "tables p ! i" and ?s = "tables q ! i"
  have n: "same_nodes u ?t ?s" by (rule nodes.session_related(1)[OF assms(1,2)])
  then have m: "mset (row_order u ?s) = mset (orig ?t)" and o: "orig ?s = orig ?t"
    using assms(3,8) by (simp_all add: same_nodes_def)
  have "infoOf u ?s \<noteq> None" using n assms(4) by (simp add: same_nodes_def infoOf_def)
  moreover have "length (dataRows ?s) = length (orig ?t)"
    using mset_eq_length[OF m] by (simp add: row_order_def)
  ultimately have ok: "\<not> (infoOf u ?s = None \<or> length (dataRows ?s) < 2)" using assms(5) by simp
  have "map (rowId u) (sorted_rows u th ''orig'' ?s) = orig ?t"
    unfolding sorted_rows_def using orig_rows_ids[OF assms(6,7)] m by (simp add: o row_order_def)
  then show ?thesis
    unfolding t_def using sorted_row_order[OF ok, of th sub "''orig''"] by simp
qed

text \<open>
  C8: apart from drags, rows change their order only when no request of the automatic detection
  is running, and only when either no cell waits for a result or nothing has been running for the
  last five ticks before this one.
\<close>

fun moves :: "node_event \<Rightarrow> bool" where
  "moves (Move i rows) = True"
| "moves _ = False"

theorem node_sort_waits:
  assumes "happens u p e" and "\<not> moves e" and "j < length (tables p)"
    and "row_order u (tables (node_step u e p) ! j) \<noteq> row_order u (tables p ! j)"
  shows "fst (pingBusy u p) = 0 \<and>
    (snd (pingBusy u p) = 0 \<or> (\<exists>now w. e = Wait_Tick now j \<and> wait (tables p ! j) = Some w \<and> 5 \<le> idle w))"
proof -
  have no: "\<not> list_all2 (\<lambda>t t'. row_order u t' = row_order u t) (tables p) (tables (node_step u e p))"
    using assms(3,4) by (auto dest: list_all2_nthD)
  then have "\<not> quiet e" using ordered.pages_quiet_step[OF assms(1)] by blast
  then consider (click) now i th sub where "e = Click_Sort now i th sub" | (tick) now i where "e = Wait_Tick now i"
    using assms(2) by (cases e) auto
  then show ?thesis
  proof cases
    case click
    have "pingBusy u p = (0, 0)"
    proof (rule ccontr)
      assume "pingBusy u p \<noteq> (0, 0)"
      from no ordered.pages_request_busy[OF this] ordered.pages_refl show False
        by (cases "infoOf u (tables p ! i) = None") (auto simp: click click_sort_def)
    qed
    then show ?thesis by simp
  next
    case tick
    then obtain w where w: "wait (tables p ! i) = Some w" using assms(1) by auto
    then have d: "due u p w" "attached (tables p ! i)"
      using no tick ordered.pages_wait_not_due[OF w] by auto
    have "j = i"
    proof (rule ccontr)
      assume "j \<noteq> i"
      then show False
        using assms(3,4) tick wait_tick_due[OF w d] ordered.other_table by simp
    qed
    then show ?thesis using d(1) tick w by (auto simp: due_def)
  qed
qed

text \<open>
  C15: in every page reached from a loaded one, no hidden row is selected, a filter bar states how
  many of how many rows are shown, and the order that is posted is none or the one displayed.
\<close>

definition loaded :: "node_table \<Rightarrow> bool" where
  "loaded t \<longleftrightarrow> bar t = None \<and> order_value t = [] \<and> list_all (\<lambda>r. \<not> row_hidden r) (body t)"

theorem node_page_shows:
  assumes "node_session u p q" and "\<forall>t\<in>set (tables p). loaded t" and "t \<in> set (tables q)"
  shows "rows_ok t \<and> count_ok u t \<and> order_ok u t"
proof -
  obtain i where i: "i < length (tables q)" "t = tables q ! i" using assms(3) by (metis in_set_conv_nth)
  have l: "length (tables p) = length (tables q)"
    using list_all2_lengthD[OF shown.pages_session[OF assms(1)]] .
  have "loaded (tables p ! i)" using assms(2) i(1) l by simp
  then have "table_ok u (tables p ! i)"
    by (simp add: loaded_def table_ok_def rows_ok_def count_ok_def order_ok_def list_all_iff)
  then show ?thesis
    using shown.session_related(1)[OF assms(1)] i l by (simp add: table_ok_def)
qed

text \<open>
  C18: after the filter has run, exactly the rows that pass it are shown, in their order: those
  with the chosen type, a chosen word in their remarks, and the text searched for.
\<close>

theorem node_filter_shows:
  assumes "infoOf u t \<noteq> None" and "2 \<le> length (dataRows t)"
  defines "t' \<equiv> fst (filter_table u t)"
  shows "map elem_id (visible_rows t') = map elem_id (filter (passes u t (filter_of t')) (dataRows t)) \<and>
    row_order u t' = row_order u t"
  unfolding t'_def using filter_shows[OF assms(1,2)] by (simp add: row_order_filter)

text \<open>
  A group of one row is never sorted, but a click while the detection runs still announces
  that the sort waits; the note then stays when the wait is over.
\<close>

lemma single_row_note_stays:
  assumes "i < length (tables p)" "length (dataRows (tables p ! i)) < 2"
    and "wait (tables p ! i) = Some w" "pingBusy u p = (0, 0)"
  shows "wait (tables (wait_tick u now i p) ! i) = None"
    and "note_text (tables (wait_tick u now i p) ! i) = note_text (tables p ! i)"
proof -
  have "doSort u th sub key ((tables p ! i)\<lparr>wait := None\<rparr>) = ((tables p ! i)\<lparr>wait := None\<rparr>, False)" for th sub key
    using assms(2) by (simp add: doSort_def dataRows_def)
  then show "wait (tables (wait_tick u now i p) ! i) = None"
    and "note_text (tables (wait_tick u now i p) ! i) = note_text (tables p ! i)"
    using assms by (simp_all add: wait_tick_def Let_def on_table_def put_table_def)
qed

text \<open>A tick more than two minutes after the click ends the wait.\<close>

lemma doSort_wait: "wait (fst (doSort u th sub key t)) = wait t"
proof (cases "infoOf u t = None \<or> length (dataRows t) < 2")
  case False
  have "wait (ordered_table u th key t) = wait t"
    by (simp add: ordered_table_def applyOrder_def set_order_frame marked_def set_mark_def)
  then show ?thesis
    unfolding doSort_parts[OF False]
    using filter_table_controls[of "ordered_table u th key t" u] by (simp add: show_note_def setIndicator_def same_controls_def)
qed (auto simp: doSort_def)

lemma update_select_wait: "i < length (tables p) \<Longrightarrow> wait (tables (update_select_state p) ! i) = wait (tables p ! i)"
proof (cases "displayed p")
  case (Some a)
  assume "i < length (tables p)"
  then show ?thesis using Some by (cases "a = i") (simp_all add: update_select_state_def Let_def)
qed (simp add: update_select_state_def)

lemma wait_ends:
  assumes "i < length (tables p)" "wait (tables p ! i) = Some w" "120000 < now - started w"
  shows "wait (tables (wait_tick u now i p) ! i) = None"
proof (cases "due u p w \<and> attached (tables p ! i)")
  case True
  have "wait (tables (on_table i (\<lambda>_. doSort u th sub key ((tables p ! i)\<lparr>wait := None\<rparr>)) p) ! i) = None" for th sub key
    using assms(1) doSort_wait[of u th sub key "(tables p ! i)\<lparr>wait := None\<rparr>"]
    by (simp add: on_table_def case_prod_unfold put_table_def update_select_wait)
  then show ?thesis using True assms(2) by (simp add: wait_tick_due)
next
  case False
  then show ?thesis
    using assms by (auto simp: wait_tick_def Let_def due_def put_table_def show_note_def)
qed

section \<open>A search that survives a reset\<close>

lemma cellsOf_same: "same_row r r' \<Longrightarrow> cellsOf r' = cellsOf r"
  by (simp add: same_row_def cellsOf_def)

lemma column_cell_same: "same_row r r' \<Longrightarrow> column_cell r' cols key = column_cell r cols key"
  using cellsOf_same[of r r'] by (simp add: column_cell_def split: option.split)

lemma typeOf_same: "same_row r r' \<Longrightarrow> typeOf u r' cols = typeOf u r cols"
  using column_cell_same[of r r'] by (simp add: typeOf_def)

lemma colIndexMap_same:
  assumes "list_all2 same_row (body t) (body t')"
  shows "colIndexMap t' = colIndexMap t"
proof -
  have m: "map cellsOf (dataRows t') = map cellsOf (dataRows t)"
    unfolding dataRows_def by (rule same_rows_filter_map[OF assms]) (simp add: cellsOf_same same_row_data)
  define F where "F cells = fold (\<lambda>(i, d) m. fold (\<lambda>(cls, col) m. if cls \<in> set (cell_classes d) then AList.update col i m else m) COLUMNS m)
      (enumerate 0 cells) []" for cells :: "cell list"
  have "colIndexMap x = (case map cellsOf (dataRows x) of [] \<Rightarrow> [] | cells # _ \<Rightarrow> F cells)" for x
    by (cases "dataRows x") (simp_all add: colIndexMap_def F_def)
  then show ?thesis by (simp add: m)
qed

lemma filter_values_same:
  "same_row r r' \<Longrightarrow> d \<in> set (filterDefs u cols) \<Longrightarrow> values d r' = values d r"
  by (auto simp: filterDefs_def typeOf_same rowId_def) (auto simp: same_row_def rowId_def)

lemma def_options_same:
  assumes "map (values d) rows' = map (values d) rows"
  shows "def_options u rows' d = def_options u rows d"
proof -
  have "length rows' = length rows" using arg_cong[OF assms, of length] by simp
  then show ?thesis using assms by (simp add: def_options_def)
qed

lemma collect_same:
  assumes "list_all2 same_row (body t) (body t')"
  shows "c_defs (collect u t') = c_defs (collect u t)" "c_sig (collect u t') = c_sig (collect u t)"
proof -
  have l: "length (dataRows t') = length (dataRows t)"
    unfolding dataRows_def by (rule same_rows_length[OF assms])
  define entry where "entry x d = (d, map (\<lambda>r. map (item_key u d) (values d r)) (dataRows x), def_options u (dataRows x) d)" for x d
  have e: "map (entry t') defs = map (entry t) defs" if "set defs \<subseteq> set (filterDefs u (colIndexMap t))" for defs
  proof (rule map_cong[OF refl])
    fix d
    assume "d \<in> set defs"
    then have d: "d \<in> set (filterDefs u (colIndexMap t))" using that by auto
    have v: "map (values d) (dataRows t') = map (values d) (dataRows t)"
      unfolding dataRows_def
      by (rule same_rows_filter_map[OF assms]) (simp add: same_row_data filter_values_same[OF _ d])
    have "map (\<lambda>r. map (item_key u d) (values d r)) rows = map (map (item_key u d)) (map (values d) rows)" for rows
      by simp
    then show "entry t' d = entry t d"
      using v def_options_same[OF v] by (simp add: entry_def del: map_map)
  qed
  have c: "c_defs (collect u x) = filter (\<lambda>(d, vals, opts). if multi d then 1 \<le> length opts else 2 \<le> length opts)
      (map (entry x) (if 2 \<le> length (dataRows x) then filterDefs u (colIndexMap x) else []))" for x
    by (simp add: collect_def Let_def entry_def[abs_def])
  show "c_defs (collect u t') = c_defs (collect u t)"
    unfolding c l colIndexMap_same[OF assms] by (subst e) auto
  then show "c_sig (collect u t') = c_sig (collect u t)"
    by (simp add: collect_def Let_def l)
qed

lemma on_table_nth:
  assumes "i < length (tables p)"
  shows "\<exists>b. tables (on_table i f p) ! i = (fst (f (tables p ! i)))\<lparr>all_box := b\<rparr>"
proof -
  obtain t b where f: "f (tables p ! i) = (t, b)" by fastforce
  have "\<exists>b. tables (update_select_state q) ! i = (tables q ! i)\<lparr>all_box := b\<rparr>" if "i < length (tables q)" for q
  proof (cases "displayed q")
    case (Some a)
    then show ?thesis using that
      by (cases "a = i") (auto simp: update_select_state_def Let_def intro: exI[of _ "all_box (tables q ! i)"])
  qed (auto simp: update_select_state_def intro: exI[of _ "all_box (tables q ! i)"])
  from this[of "put_table i t p"] show ?thesis
    using f assms by (auto simp: on_table_def put_table_def intro: exI[of _ "all_box t"])
qed

lemma applyFilter_keeps:
  "filter_of (applyFilter u c t) = filter_of t" "signature (applyFilter u c t) = signature t"
  "map_option search_box (bar (applyFilter u c t)) = map_option search_box (bar t)"
  by (simp_all add: applyFilter_def Let_def filter_of_def option.map_comp comp_def)

lemma reset_table:
  assumes "infoOf u t \<noteq> None" "2 \<le> length (dataRows t)" "filtering t = Some no_filter" "signature t = None"
  defines "t' \<equiv> fst (filter_table u t)"
  shows "signature t' = Some (c_sig (collect u t)) \<and> map_option search_box (bar t') = Some (Some [])"
  unfolding t'_def filter_table_run[OF assms(1,2)] fst_conv applyFilter_keeps
  using assms(2-4) by (simp add: with_bar_def buildBar_def Let_def filter_of_def no_filter_def)

lemma search_table:
  assumes "infoOf u t \<noteq> None" "2 \<le> length (dataRows t)" "signature t = Some (c_sig (collect u t))" "bar t \<noteq> None"
  defines "t' \<equiv> fst (filter_table u t)"
  shows "filter_of t' = filter_of t \<and> map_option search_box (bar t') = map_option search_box (bar t)"
  unfolding t'_def filter_table_run[OF assms(1,2)] fst_conv applyFilter_keeps
  using assms(3,4) by (auto simp: with_bar_def)

text \<open>
  The reset button does not stop the timer of the search box: when it fires, the rows are filtered
  by the text typed before the reset, while the box is empty.
\<close>

lemma reset_keeps_search:
  fixes s :: jstr
  assumes i: "i < length (tables p)" and "infoOf u (tables p ! i) \<noteq> None" and "2 \<le> length (dataRows (tables p ! i))"
  defines "t \<equiv> tables (node_step u Search_Timer (node_step u (Click_Reset i) (node_step u (Type_Search i s) p))) ! i"
  shows "query (filter_of t) = s \<and> map_option search_box (bar t) = Some (Some [])"
proof -
  define t1 where "t1 = (tables p ! i)\<lparr>filtering := Some no_filter, signature := None\<rparr>"
  have info: "infoOf u t1 \<noteq> None" "2 \<le> length (dataRows t1)" "filtering t1 = Some no_filter" "signature t1 = None"
    using assms(2,3) by (simp_all add: t1_def infoOf_def dataRows_def)
  note r = reset_table[OF info]
  define q where "q = on_table i (filter_table u) (put_table i t1 (type_search i s p))"
  have q: "search_timer q = Some (i, s)" "length (tables q) = length (tables p)"
    by (simp_all add: q_def on_table_def put_table_def update_select_state_def Let_def type_search_def split: prod.split option.split)
  have "\<exists>b. tables q ! i = (fst (filter_table u t1))\<lparr>all_box := b\<rparr>"
    using on_table_nth[of i "put_table i t1 (type_search i s p)" "filter_table u"] i
    by (simp add: q_def put_table_def type_search_def)
  then obtain b where t2: "tables q ! i = (fst (filter_table u t1))\<lparr>all_box := b\<rparr>" by blast
  define t3 where "t3 = (tables q ! i)\<lparr>filtering := Some ((filter_of (tables q ! i))\<lparr>query := s\<rparr>)\<rparr>"
  have rows: "list_all2 same_row (body t1) (body t3)"
    using filter_table_rows[of t1 u] by (simp add: t3_def t2)
  have "infoOf u t3 \<noteq> None"
    using info(1) filter_table_controls[of t1 u] by (simp add: t3_def t2 infoOf_def same_controls_def)
  moreover have "2 \<le> length (dataRows t3)" using info(2) same_rows_length[OF rows] by (simp add: dataRows_def)
  moreover have "signature t3 = Some (c_sig (collect u t3))" using r collect_same(2)[OF rows, of u] by (simp add: t3_def t2)
  moreover have b: "map_option search_box (bar t3) = Some (Some [])" using r by (simp add: t3_def t2)
  moreover from b have "bar t3 \<noteq> None" by auto
  ultimately have f: "filter_of (fst (filter_table u t3)) = filter_of t3"
    "map_option search_box (bar (fst (filter_table u t3))) = Some (Some [])"
    using search_table[of u t3] by simp_all
  have "t = tables (on_table i (filter_table u) (put_table i t3 (q\<lparr>search_timer := None\<rparr>))) ! i"
  proof -
    have "node_step u (Click_Reset i) (node_step u (Type_Search i s) p) = q"
      by (simp add: q_def reset_filter_def refreshFilter_def type_search_def t1_def)
    then show ?thesis using q(1) by (simp add: t_def run_search_def refreshFilter_def t3_def Let_def)
  qed
  then obtain b' where "t = (fst (filter_table u t3))\<lparr>all_box := b'\<rparr>"
    using on_table_nth[of i "put_table i t3 (q\<lparr>search_timer := None\<rparr>)" "filter_table u"] q(2) i by (auto simp: put_table_def)
  then show ?thesis using f by (simp add: filter_of_def t3_def)
qed

section \<open>An example\<close>

definition example_ui :: ui where
  "example_ui = \<lparr>app = js ''passwall'', texts = [], root = True, bound = True, collator = None, separator = (\<lambda>c. c = [32]),
     lower = to_lower, value_of = (\<lambda>_. None), mode = Some ''icmp''\<rparr>"

definition example_row :: "string \<Rightarrow> string \<Rightarrow> node_row" where
  "example_row name latency =
     \<lparr>row_tag = ''TR'', elem_id = js (''cbi-passwall-'' @ name), classes = [''cbi-section-table-row''],
      children = [\<lparr>cell_tag = ''TD'', cell_classes = [''pw-remark''], content = js name\<rparr>,
        \<lparr>cell_tag = ''TD'', cell_classes = [''pw-ping''], content = js latency\<rparr>], picked = Some False\<rparr>"

definition example_table :: node_table where
  "example_table =
     \<lparr>table_id = js ''cbi-passwall-nodes-default-table'', attached = True, titles = None,
      body = [example_row ''bb'' ''31 ms'', example_row ''aa'' ''1.2 s''], ready = True, orig = [js ''bb'', js ''aa''],
      headers = [\<lparr>sort_attr = ''name'', mark = None, arrow = [], subs = [(''orig'', False)]\<rparr>],
      filtering = None, signature = None, bar = None, wait = None, note_text = None, order_value = [], all_box = False\<rparr>"

definition example_page :: node_page where
  "example_page = \<lparr>tables = [example_table], displayed = Some 0, all_button = False, requests = [4], spans = [], search_timer = None\<rparr>"

lemma example_list_facts:
  "collates example_ui" "infoOf example_ui example_table \<noteq> None" "length (dataRows example_table) = 2"
  "row_order example_ui example_table = [js ''bb'', js ''aa'']" "pingBusy example_ui example_page = (0, 0)"
  subgoal by (simp add: collates_def example_ui_def)
  subgoal by code_simp
  subgoal by code_simp
  subgoal by code_simp
  subgoal by code_simp
  done

lemma example_sorted: "map (rowId example_ui) (sorted_rows example_ui 0 ''name'' example_table) = [js ''aa'', js ''bb'']"
  by code_simp

lemma example_latency: "parseLatency (js ''1.2 s'') = Some 1200" "parseLatency (js '' 31,5 ms'') = Some (63 / 2)"
  "parseLatency (js ''Timeout'') = None"
  by code_simp+

theorem node_sort_result_witness:
  "collates example_ui \<and> infoOf example_ui example_table \<noteq> None \<and> length (dataRows example_table) = 2 \<and>
   order_value (fst (doSort example_ui 0 None ''ping'' example_table)) =
     posted_order example_ui (fst (doSort example_ui 0 None ''ping'' example_table))"
  using node_sort_result[OF example_list_facts(1,2), of "''ping''" 0 None] example_list_facts by auto

definition example_sorting :: node_event where
  "example_sorting = Click_Sort 0 0 0 None"

lemma example_happens: "happens example_ui example_page example_sorting"
  by (simp add: example_sorting_def example_page_def example_table_def)

theorem node_orig_restores_witness:
  "row_order example_ui (fst (doSort example_ui 0 (Some ''orig'') ''orig''
     (tables (node_step example_ui example_sorting example_page) ! 0))) = [js ''bb'', js ''aa'']"
proof -
  have t: "tables example_page ! 0 = example_table" by (simp add: example_page_def)
  have o: "orig example_table = [js ''bb'', js ''aa'']" "ready example_table" by (simp_all add: example_table_def)
  have "node_session example_ui example_page (node_step example_ui example_sorting example_page)"
    by (rule node_session.step[OF node_session.start example_happens])
  from node_orig_restores[OF this, of 0 0 "Some ''orig''"] show ?thesis
    using example_list_facts o by (simp add: t) (simp add: example_page_def js_def)
qed

theorem node_sort_waits_witness:
  "row_order example_ui (tables (node_step example_ui example_sorting example_page) ! 0) \<noteq> row_order example_ui (tables example_page ! 0) \<and>
   fst (pingBusy example_ui example_page) = 0"
proof -
  have t: "tables example_page ! 0 = example_table" "example_table\<lparr>wait := None\<rparr> = example_table"
    "header_key example_table 0 None = ''name''" "0 < length (tables example_page)"
    by (simp_all add: example_page_def example_table_def header_key_def)
  obtain b where b: "tables (node_step example_ui example_sorting example_page) ! 0 =
      (fst (doSort example_ui 0 None ''name'' example_table))\<lparr>all_box := b\<rparr>"
    using on_table_nth[OF t(4), of "\<lambda>_. doSort example_ui 0 None ''name'' example_table"] example_list_facts t
    by (auto simp: example_sorting_def click_sort_def requestSort_def Let_def)
  have ok: "\<not> (infoOf example_ui example_table = None \<or> length (dataRows example_table) < 2)"
    using example_list_facts by simp
  have "row_order example_ui (tables (node_step example_ui example_sorting example_page) ! 0) = [js ''aa'', js ''bb'']"
    using sorted_row_order(1)[OF ok, of 0 None "''name''"] example_sorted b by (simp add: row_order_def dataRows_def)
  then have ne: "row_order example_ui (tables (node_step example_ui example_sorting example_page) ! 0) \<noteq> row_order example_ui (tables example_page ! 0)"
    using example_list_facts(4) by (simp add: t)
  show ?thesis
    using node_sort_waits[OF example_happens _ t(4) ne] ne by (simp add: example_sorting_def)
qed

theorem node_page_shows_witness:
  "list_all loaded (tables example_page) \<and> rows_ok (tables (node_step example_ui (Select_All True) example_page) ! 0)"
proof -
  have l: "list_all loaded (tables example_page)"
    by (simp add: loaded_def example_page_def example_table_def example_row_def row_hidden_def)
  have s: "node_session example_ui example_page (node_step example_ui (Select_All True) example_page)"
    by (rule node_session.step[OF node_session.start]) simp
  have "tables (node_step example_ui (Select_All True) example_page) ! 0 \<in> set (tables (node_step example_ui (Select_All True) example_page))"
    by (simp add: set_select_all_state_def Let_def example_page_def)
  then show ?thesis using node_page_shows[OF s] l by (simp add: list_all_iff)
qed

theorem node_filter_shows_witness:
  "infoOf example_ui example_table \<noteq> None \<and> row_order example_ui (fst (filter_table example_ui example_table)) = [js ''bb'', js ''aa'']"
  using node_filter_shows[of example_ui example_table] example_list_facts by simp

end
