(* ===== verification/Spec2Isabelle.thy ===== *)
theory Spec2Isabelle
  imports Codec_Properties Page_Claims Bandix_Devices Bandix_Quota Traffic_Quality Traffic_Monitor Vnstat Dashboard_Data
    Bandix_Geoip Bandix_Sort Bandix_Rules Bandix_Increments Argon_Updates Node_List_Claims
begin

text \<open>
  This repository collects OpenWrt packages: router services and the LuCI pages that configure and
  show them. The development models the JavaScript modules that carry logic of their own, apart
  from the pages that draw it. The modules do not call each other; what they share here are the
  strings, objects and JSON values of the language.

  \<^bold>\<open>Sharing links of OpenClash\<close>
  (\<open>OpenClash/luci-app-openclash/root/www/.../js/server_url.js\<close>, every function).
  The page of a proxy node exports its form as a link and imports a link into its form.
  \<^item> \<open>Js_String\<close>, \<open>Js_Object\<close>, \<open>Json\<close>, \<open>Js_Regex\<close>: strings as
    lists of 16-bit units, objects as lists of properties with the enumeration order and the
    inherited names of the language, the JSON grammar, and a matcher for regular expressions.
  \<^item> \<open>Uri_Component\<close>, \<open>Base64\<close>, \<open>Query_String\<close>,
    \<open>Url_Parse\<close>, \<open>Codec_Properties\<close>: percent-encoding with UTF-8, the Base64 helpers
    (8-44), \<open>parseUrl\<close> (46-81), \<open>decodeFragment\<close>, \<open>parseQuery\<close> and their
    round trips, termination and equivalence with the regular expression.
  \<^item> \<open>Form_Dom\<close>: the form elements a field may have, and \<open>setFormValue\<close>,
    \<open>getFormValue\<close> (134-386, 795-822) with the retries of fields that are not there yet.
    \<open>Other_Params\<close> and \<open>Param_Text\<close>: the free YAML parameters (388-710).
  \<^item> \<open>Page_Stmt\<close>: statements that write the page and may return or throw.
    \<open>Export_Links\<close>, \<open>Import_Links\<close>, \<open>Vmess_Links\<close>: the twelve protocols.
    \<open>Server_Url\<close>: \<open>export_url\<close> and \<open>import_url\<close>; its locale
    \<open>page_invariant\<close> states what a property of pages needs to survive every import, and is
    interpreted for the shape of the page, the retries in progress and the fields that hold text.
  \<^item> \<open>Link_Round_Trip\<close>, \<open>Round_Trip_...\<close>, \<open>Import_Result\<close>,
    \<open>Link_Claims\<close>: importing an exported link gives the form back, protocol by protocol, and
    what it loses, on pages whose fields are text elements or checkboxes. \<open>Page_Claims\<close>:
    what imports leave alone, retries, and the exports that give no link.

  \<^bold>\<open>Device selection and quotas of Bandix\<close> (\<open>bandix/devices.js\<close>,
  \<open>bandix/quota.js\<close>). \<open>Bandix_Devices\<close>: ticking devices and deleting them in
  requests of at most 50, as an event machine in which polling, dialogs and replies interleave; its
  lemmas keep the selection within the displayed list, the controls in step with it, and every
  deletion accounted for and ending; a history of the questions asked and answered with yes, kept
  beside the state, shows that nothing is deleted but what was confirmed. \<open>Bandix_Quota\<close>: the quota form, what it shows and what
  it is read back as.

  \<^bold>\<open>The other parts of Bandix.\<close> \<open>Bandix_Geoip\<close>
  (\<open>bandix/geoip.js\<close>): the panel of the GeoIP database as an event machine of polls, clicks,
  dialogs, uploads and replies; its lemmas show that the controls always tell the last status sent and, when
  no second download is started before the first status, that one operation runs at a time. Of \<open>view/bandix/index.js\<close>: \<open>Bandix_Sort\<close> (4738-4788,
  5214-5481), the orders of the device table, on the locale \<open>comparator_laws\<close> of
  \<open>Js_Sort\<close> for the contract between \<open>sort\<close> and its comparator, interpreted for
  the code's comparators;
  \<open>Bandix_Rules\<close> (4612-4723), when scheduled limits are in force; \<open>Bandix_Increments\<close>
  (6911-7036), the timeline fetched in chunks that cover the range, whose answers are merged whatever they
  hold.

  \<^bold>\<open>Updates of the Argon theme\<close> (\<open>argon/updates.js\<close>). \<open>Argon_Updates\<close>:
  version texts and their order, and the panel that checks for releases, installs them and watches
  the installation, as an event machine; only packages of later stable versions are ever asked for,
  and one request at a time.

  \<^bold>\<open>Node list of Passwall\<close> (\<open>view/passwall/node_list_sort.js\<close>).
  \<open>Node_List_Sort\<close>: the rows of a group, their sort keys, the filter bar, the check boxes
  and the wait for the automatic detection, with clicks, timers, drags and results of the detection
  as events that interleave; the functions of the template that the script calls are part of it.
  \<open>Node_List_Claims\<close>: the result of a sort, restoring the saved order, no rows moved
  while results are being written, and what every page shows. Its locales \<open>row_relation\<close>
  and \<open>table_relation\<close> carry a relation between the states of a table from the operations
  to every session; they are interpreted for the order of the rows, for the nodes and their saved order,
  and for what a table shows.

  \<^bold>\<open>Live traffic\<close> (\<open>live-traffic/core.js\<close>). \<open>Traffic_Quality\<close>: the
  drawing quality, its automatic reduction and the animation loop, refined from a small automaton.
  \<open>Traffic_Monitor\<close>: clients, rates and histories.

  \<^bold>\<open>Data of charts and tables\<close>. \<open>Vnstat\<close>
  (\<open>netstat/vnstat-parse.js\<close>): the series of the usage chart. \<open>Dashboard_Data\<close>
  (\<open>dashboard/dashboard-data.js\<close>): domains, active applications, rates.

  \<^bold>\<open>Bounds and fuel.\<close> The JSON parser takes fuel; twice the length of the text and one is
  enough for every text (\<open>json_fuel\<close>). A missing field is retried 30 times, as in the code.
  All other recursions are structural or have a measure (the chunks of a range: what is left of it). Integers of the code are doubles below
  \<open>2^53\<close>; where it divides, and for the
  latencies of nodes, the model has exact rationals.

  \<^bold>\<open>Parameters.\<close> \<open>new_url\<close> is the browser's \<open>URL\<close> constructor, of which the
  round trips assume that it reads the links printed here; \<open>num_str\<close> prints a JSON number.
  \<open>locale_compare\<close> is \<open>localeCompare\<close>, of which the sorting claim assumes that it
  is a consistent comparator, and \<open>svc\<close> the service of the timeline, of which nothing is
  assumed. The fields of
  \<open>ui\<close> stand for \<open>Intl.Collator\<close> (assumed consistent, \<open>collates\<close>), Unicode
  classes and \<open>toLowerCase\<close>.
  The answer of the prompt, the outcome of the copy command, replies of the router, the clock and
  the events of the page are arguments.

  \<^bold>\<open>Not modelled.\<close> Pages that build the DOM, drawing on canvases, RPC declarations, bundled
  and minified libraries, and the code in C, Lua, shell and TypeScript.
\<close>

end
